(* ===== verification/Prelude.thy ===== *)
theory Prelude
  imports Main "HOL-Library.Word"
begin

text \<open>
  Shared vocabulary of the development: the result type of fallible code, the
  integer helpers with their Rust meaning, little-endian fields, reading and
  writing a region of a buffer, and the parameters that stand for the third
  party crates the source calls.  The collections \<open>res_simps\<close>, \<open>buffer_simps\<close>
  and \<open>u64_simps\<close> carry the proofs of the component theories.
\<close>

section \<open>Collections\<close>

named_theorems res_simps \<open>rewriting fallible computations\<close>
named_theorems buffer_simps \<open>reading back what was written into a buffer\<close>
named_theorems u64_simps \<open>unsigned arithmetic at its width\<close>

section \<open>Base types\<close>

type_synonym byte = "8 word"
type_synonym bytes = "byte list"
type_synonym checksum64 = "64 word"

text \<open>
  A Rust string is its UTF-8 bytes; a \<^typ>\<open>string\<close> of the model holds one
  character per byte, so \<^term>\<open>length\<close> is the byte length \<open>str::len\<close> gives.
\<close>

definition as_bytes :: "string \<Rightarrow> bytes" where
  "as_bytes s = map of_char s"

section \<open>Fallible computations\<close>

text \<open>
  \<open>Ok\<close> and \<open>Err\<close> are the two constructors of Rust's \<open>Result\<close>; \<open>Panic\<close> is a
  computation stopped by \<open>expect\<close>, an out of range index or a division by zero.
\<close>

datatype ('e, 'a) res = Ok 'a | Err 'e | Panic

fun bind_res :: "('e, 'a) res \<Rightarrow> ('a \<Rightarrow> ('e, 'b) res) \<Rightarrow> ('e, 'b) res" where
  "bind_res (Ok x) f = f x"
| "bind_res (Err e) f = Err e"
| "bind_res Panic f = Panic"

fun map_err :: "('e \<Rightarrow> 'f) \<Rightarrow> ('e, 'a) res \<Rightarrow> ('f, 'a) res" where
  "map_err f (Ok x) = Ok x"
| "map_err f (Err e) = Err (f e)"
| "map_err f Panic = Panic"

fun expect :: "'a option \<Rightarrow> ('e, 'a) res" where
  "expect (Some x) = Ok x"
| "expect None = Panic"

fun ok_or :: "'e \<Rightarrow> 'a option \<Rightarrow> ('e, 'a) res" where
  "ok_or e (Some x) = Ok x"
| "ok_or e None = Err e"

fun is_ok :: "('e, 'a) res \<Rightarrow> bool" where
  "is_ok (Ok x) = True"
| "is_ok _ = False"

text \<open>A loop that may stop early with an error, over a list of items.\<close>

fun fold_res :: "('a \<Rightarrow> 's \<Rightarrow> ('e, 's) res) \<Rightarrow> 'a list \<Rightarrow> 's \<Rightarrow> ('e, 's) res" where
  "fold_res f [] s = Ok s"
| "fold_res f (x # xs) s = bind_res (f x s) (fold_res f xs)"

lemma bind_res_eq_Ok [res_simps]:
  "bind_res m f = Ok y \<longleftrightarrow> (\<exists>x. m = Ok x \<and> f x = Ok y)"
  by (cases m) auto

lemma bind_res_eq_Err:
  "bind_res m f = Err e \<longleftrightarrow> m = Err e \<or> (\<exists>x. m = Ok x \<and> f x = Err e)"
  by (cases m) auto

lemma bind_res_eq_Panic:
  "bind_res m f = Panic \<longleftrightarrow> m = Panic \<or> (\<exists>x. m = Ok x \<and> f x = Panic)"
  by (cases m) auto

lemma map_err_eq_Ok [res_simps]: "map_err f m = Ok y \<longleftrightarrow> m = Ok y"
  by (cases m) auto

lemma map_err_eq_Panic [simp]: "map_err f m = Panic \<longleftrightarrow> m = Panic"
  by (cases m) auto

lemma expect_eq_Ok [res_simps]: "expect x = Ok y \<longleftrightarrow> x = Some y"
  by (cases x) auto

lemma expect_not_Err [simp]: "expect x \<noteq> Err e"
  by (cases x) auto

lemma ok_or_eq_Ok [res_simps]: "ok_or e x = Ok y \<longleftrightarrow> x = Some y"
  by (cases x) auto

lemma fold_res_append [res_simps]:
  "fold_res f (xs @ ys) s = bind_res (fold_res f xs s) (fold_res f ys)"
proof (induction xs arbitrary: s)
  case (Cons x xs)
  then show ?case by (cases "f x s") auto
qed simp

text \<open>An invariant of the loop body is one of the loop.\<close>

lemma fold_res_invariant:
  assumes "fold_res f xs s = Ok t" "P s"
    and "\<And>x s s'. x \<in> set xs \<Longrightarrow> P s \<Longrightarrow> f x s = Ok s' \<Longrightarrow> P s'"
  shows "P t"
  using assms by (induction xs arbitrary: s) (auto simp: res_simps)

text \<open>A property that holds after the loop and that no step can restore held all along.\<close>

lemma fold_res_backwards:
  assumes "fold_res f xs s = Ok t" "Q t" "\<And>x s s'. x \<in> set xs \<Longrightarrow> f x s = Ok s' \<Longrightarrow> Q s' \<Longrightarrow> Q s"
  shows "Q s \<and> (\<forall>x\<in>set xs. \<exists>s s'. f x s = Ok s' \<and> Q s')"
  using assms
proof (induction xs arbitrary: s)
  case (Cons x xs)
  then obtain s1 where "f x s = Ok s1" "fold_res f xs s1 = Ok t" by (auto simp: res_simps)
  with Cons show ?case by (metis (mono_tags, lifting) insert_iff list.simps(15))
qed simp

section \<open>Unsigned arithmetic\<close>

definition div_ceil :: "nat \<Rightarrow> nat \<Rightarrow> nat" where
  "div_ceil a b = a div b + (if a mod b = 0 then 0 else 1)"

abbreviation u64_modulus :: nat where
  "u64_modulus \<equiv> 18446744073709551616"

text \<open>Arithmetic on \<open>u64\<close> of a release build: results wrap at \<open>2^64\<close>.\<close>

definition wrap64 :: "nat \<Rightarrow> nat" where
  "wrap64 n = n mod u64_modulus"

definition wsub64 :: "nat \<Rightarrow> nat \<Rightarrow> nat" where
  "wsub64 a b = (a + u64_modulus - b mod u64_modulus) mod u64_modulus"

definition checked_add64 :: "nat \<Rightarrow> nat \<Rightarrow> nat option" where
  "checked_add64 a b = (if a + b < u64_modulus then Some (a + b) else None)"

lemma wrap64_id [u64_simps]: "n < u64_modulus \<Longrightarrow> wrap64 n = n"
  by (simp add: wrap64_def)

lemma wrap64_lt [simp]: "wrap64 n < u64_modulus"
  by (simp add: wrap64_def)

lemma wsub64_id [u64_simps]:
  assumes "b \<le> a" "a < u64_modulus"
  shows "wsub64 a b = a - b"
proof -
  have "a + u64_modulus - b mod u64_modulus = (a - b) + u64_modulus" using assms by simp
  then have "wsub64 a b = (a - b + u64_modulus) mod u64_modulus" by (simp only: wsub64_def)
  also have "\<dots> = (a - b) mod u64_modulus" by (rule mod_add_self2)
  finally show ?thesis using assms by simp
qed

lemma div_ceil_upper: "0 < b \<Longrightarrow> a \<le> div_ceil a b * b"
proof -
  assume b: "0 < b"
  have eq: "a = a div b * b + a mod b" by simp
  have lt: "a mod b < b" using b by simp
  show ?thesis
  proof (cases "a mod b = 0")
    case True
    then show ?thesis using eq by (simp add: div_ceil_def)
  next
    case False
    then have "div_ceil a b * b = a div b * b + b" by (simp add: div_ceil_def algebra_simps)
    then show ?thesis using eq lt by linarith
  qed
qed

lemma div_ceil_pos: "0 < a \<Longrightarrow> 0 < b \<Longrightarrow> 0 < div_ceil a b"
  using div_ceil_upper [of b a] by (cases "div_ceil a b") auto

lemma div_ceil_lower: "0 < a \<Longrightarrow> 0 < b \<Longrightarrow> (div_ceil a b - 1) * b < a"
proof -
  assume a: "0 < a" and b: "0 < b"
  have split: "a = a div b * b + a mod b" by simp
  show ?thesis
  proof (cases "a mod b = 0")
    case True
    then have "0 < a div b" using a split by (metis add_0_right mult_0 neq0_conv)
    then show ?thesis using True split a b
      by (auto simp: div_ceil_def diff_mult_distrib)
  next
    case False
    then have "(div_ceil a b - 1) * b = a div b * b" by (simp add: div_ceil_def)
    then show ?thesis using split False by linarith
  qed
qed

text \<open>The ceiling is the only number with these two bounds.\<close>

lemma div_ceil_unique:
  assumes "0 < b" "a \<le> q * b" "(q - 1) * b < a"
  shows "div_ceil a b = q"
proof (rule antisym)
  have "(div_ceil a b - 1) * b < q * b"
    using div_ceil_lower [of a b] assms by linarith
  then show "div_ceil a b \<le> q" using assms(1) by simp
next
  have "(q - 1) * b < div_ceil a b * b"
    using div_ceil_upper [of b a] assms by linarith
  then show "q \<le> div_ceil a b" using assms(1) by simp
qed

lemma div_ceil_le_iff: "0 < b \<Longrightarrow> div_ceil a b \<le> n \<longleftrightarrow> a \<le> n * b"
proof
  assume b: "0 < b" and "div_ceil a b \<le> n"
  then have "div_ceil a b * b \<le> n * b" by simp
  with div_ceil_upper [OF b, of a] show "a \<le> n * b" by (rule le_trans)
next
  assume b: "0 < b" and a: "a \<le> n * b"
  show "div_ceil a b \<le> n"
  proof (cases "a = 0")
    case True then show ?thesis by (simp add: div_ceil_def)
  next
    case False
    then have "(div_ceil a b - 1) * b < a" using div_ceil_lower b by simp
    then have "(div_ceil a b - 1) * b < n * b" using a by (rule less_le_trans)
    then show ?thesis using b by simp
  qed
qed

section \<open>Little-endian fields\<close>

fun le_bytes :: "nat \<Rightarrow> nat \<Rightarrow> bytes" where
  "le_bytes 0 n = []"
| "le_bytes (Suc w) n = word_of_nat n # le_bytes w (n div 256)"

fun le_nat :: "bytes \<Rightarrow> nat" where
  "le_nat [] = 0"
| "le_nat (b # bs) = unat b + 256 * le_nat bs"

lemma unat_byte_lt [simp]: "unat (b :: byte) < 256"
  using unsigned_less [where 'a = nat and w = b] by simp

lemma unat_byte_of_nat [simp]: "unat (word_of_nat n :: byte) = n mod 256"
  by (simp add: unat_of_nat)

lemma length_le_bytes [simp, buffer_simps]: "length (le_bytes w n) = w"
  by (induction w arbitrary: n) auto

lemma le_nat_le_bytes: "le_nat (le_bytes w n) = n mod 256 ^ w"
proof (induction w arbitrary: n)
  case (Suc w)
  then show ?case by (simp add: mod_mult2_eq)
qed simp

lemma le_nat_lt: "le_nat bs < 256 ^ length bs"
proof (induction bs)
  case (Cons b bs)
  have b: "unat b < 256" by (rule unat_byte_lt)
  have "256 * Suc (le_nat bs) \<le> 256 * 256 ^ length bs" using Cons by simp
  then show ?case using b by (simp del: unat_byte_lt)
qed simp

lemma le_nat_u64 [simp]: "n < u64_modulus \<Longrightarrow> le_nat (le_bytes 8 n) = n"
  by (simp add: le_nat_le_bytes)

lemma le_nat_u32 [simp]: "n < 4294967296 \<Longrightarrow> le_nat (le_bytes 4 n) = n"
  by (simp add: le_nat_le_bytes)

lemma unat_u64_lt [simp]: "unat (c :: checksum64) < u64_modulus"
  using unsigned_less [where 'a = nat and w = c] by simp

lemma le_bytes_le_nat: "le_bytes (length bs) (le_nat bs) = bs"
proof (induction bs)
  case (Cons b bs)
  have div: "(unat b + 256 * le_nat bs) div 256 = le_nat bs" by simp
  have "word_of_nat (unat b + 256 * le_nat bs) = b"
  proof (rule word_unat_eq_iff [THEN iffD2])
    show "unat (word_of_nat (unat b + 256 * le_nat bs) :: byte) = unat b"
      by (simp only: unat_byte_of_nat) simp
  qed
  then show ?case using Cons div by (simp only: length_Cons le_nat.simps le_bytes.simps)
qed simp

section \<open>Regions of a buffer\<close>

definition slice :: "'a list \<Rightarrow> nat \<Rightarrow> nat \<Rightarrow> 'a list" where
  "slice buf off n = take n (drop off buf)"

definition write_at :: "'a list \<Rightarrow> nat \<Rightarrow> 'a list \<Rightarrow> 'a list" where
  "write_at buf off bs = take off buf @ bs @ drop (off + length bs) buf"

lemma length_slice [buffer_simps]: "off + n \<le> length buf \<Longrightarrow> length (slice buf off n) = n"
  by (simp add: slice_def)

lemma length_write_at [buffer_simps]:
  "off + length bs \<le> length buf \<Longrightarrow> length (write_at buf off bs) = length buf"
  by (simp add: write_at_def)

lemma slice_write_same [buffer_simps]:
  "off + length bs \<le> length buf \<Longrightarrow> n = length bs \<Longrightarrow> slice (write_at buf off bs) off n = bs"
  by (simp add: slice_def write_at_def)

lemma slice_write_before [buffer_simps]:
  "off' + n \<le> off \<Longrightarrow> off \<le> length buf \<Longrightarrow> slice (write_at buf off bs) off' n = slice buf off' n"
  by (simp add: slice_def write_at_def take_drop)

lemma slice_write_after [buffer_simps]:
  "off + length bs \<le> off' \<Longrightarrow> off \<le> length buf \<Longrightarrow>
   slice (write_at buf off bs) off' n = slice buf off' n"
  by (simp add: slice_def write_at_def min_def)

lemma nth_write_at:
  "off + length bs \<le> length buf \<Longrightarrow> i < length buf \<Longrightarrow>
   write_at buf off bs ! i = (if off \<le> i \<and> i < off + length bs then bs ! (i - off) else buf ! i)"
  by (auto simp: write_at_def nth_append min_def)

lemma write_at_write_at_same:
  "off + length bs \<le> length buf \<Longrightarrow> length cs = length bs \<Longrightarrow>
   write_at (write_at buf off bs) off cs = write_at buf off cs"
  by (simp add: write_at_def)

lemma write_at_slice_self [buffer_simps]:
  "off + n \<le> length buf \<Longrightarrow> write_at buf off (slice buf off n) = buf"
  unfolding write_at_def slice_def
  by (simp add: min_def) (metis append_take_drop_id drop_drop add.commute)

lemma slice_append_left [buffer_simps]:
  "off + n \<le> length xs \<Longrightarrow> slice (xs @ ys) off n = slice xs off n"
  by (simp add: slice_def)

lemma slice_append_right [buffer_simps]:
  "length xs \<le> off \<Longrightarrow> slice (xs @ ys) off n = slice ys (off - length xs) n"
  by (simp add: slice_def)

lemma slice_full [buffer_simps]: "n = length xs \<Longrightarrow> slice xs 0 n = xs"
  by (simp add: slice_def)

text \<open>A piece of a concatenation of pieces of one length.\<close>

lemma length_concat_const: "\<forall>x\<in>set xs. length x = w \<Longrightarrow> length (concat xs) = length xs * w"
  by (induction xs) auto

lemma slice_concat_const:
  assumes "\<forall>x\<in>set xs. length x = w" "i < length xs"
  shows "slice (concat xs) (i * w) w = xs ! i"
  using assms
proof (induction xs arbitrary: i)
  case (Cons x xs)
  show ?case
  proof (cases i)
    case 0
    then show ?thesis using Cons.prems by (simp add: slice_def)
  next
    case (Suc j)
    have "slice (concat (x # xs)) (i * w) w = slice (concat xs) (j * w) w"
      using Cons.prems Suc by (simp add: slice_def)
    then show ?thesis using Cons Suc by simp
  qed
qed simp

lemma concat_slices: "concat (map (\<lambda>i. slice xs (i * n) n) [0..<k]) = take (k * n) xs"
proof (induction k)
  case (Suc k)
  then show ?case by (simp add: slice_def take_add [symmetric] add.commute)
qed simp

text \<open>\<open>Vec::resize\<close>: cut or fill to a length.\<close>

definition resize :: "'a list \<Rightarrow> nat \<Rightarrow> 'a \<Rightarrow> 'a list" where
  "resize xs n x = take n xs @ replicate (n - length xs) x"

lemma length_resize [simp]: "length (resize xs n x) = n"
  by (simp add: resize_def)

section \<open>Lists\<close>

lemma map_upt_update: "i < t \<Longrightarrow> (map f [0..<t])[i := x] = map (f(i := x)) [0..<t]"
  by (rule nth_equalityI) (auto simp: nth_list_update)

lemma filter_eq_single: "distinct xs \<Longrightarrow> x \<in> set xs \<Longrightarrow> filter (\<lambda>y. x = y) xs = [x]"
proof (induction xs)
  case (Cons y ys)
  then show ?case by (auto simp: filter_empty_conv)
qed simp

lemma find_unique:
  "distinct (map f xs) \<Longrightarrow> find (\<lambda>y. f y = k) xs = Some x \<longleftrightarrow> x \<in> set xs \<and> f x = k"
proof (induction xs)
  case (Cons y ys)
  then show ?case by (auto simp: image_iff)
qed simp

text \<open>An optional attribute that is never repeated identifies its element.\<close>

lemma find_map_filter_unique:
  "distinct (List.map_filter f xs) \<Longrightarrow> find (\<lambda>y. f y = Some k) xs = Some x \<longleftrightarrow> x \<in> set xs \<and> f x = Some k"
proof (induction xs)
  case (Cons y ys)
  have mem: "\<And>z. z \<in> set ys \<Longrightarrow> f z = Some k \<Longrightarrow> k \<in> set (List.map_filter f ys)"
    by (force simp: List.map_filter_def)
  show ?case
  proof (cases "f y")
    case None
    then show ?thesis using Cons by (auto simp: List.map_filter_def)
  next
    case (Some l)
    then have d: "l \<notin> set (List.map_filter f ys)" "distinct (List.map_filter f ys)"
      using Cons.prems by (simp_all add: List.map_filter_def)
    show ?thesis
    proof (cases "l = k")
      case True
      then show ?thesis using Some d(1) mem by auto
    next
      case False
      then show ?thesis using Some Cons.IH [OF d(2)] by auto
    qed
  qed
qed simp

section \<open>Third-party code\<close>

text \<open>
  What the source calls but does not define: the hash functions and the
  \<open>reed-solomon-erasure\<close> crate.  A call that can fail gives an option.
\<close>

record libs =
  xxh3_64 :: "bytes \<Rightarrow> checksum64"
  sha256 :: "bytes \<Rightarrow> bytes"
  rs_new :: "nat \<Rightarrow> nat \<Rightarrow> bool"
  rs_encode_sep :: "nat \<Rightarrow> nat \<Rightarrow> bytes list \<Rightarrow> bytes list option"
  rs_reconstruct :: "nat \<Rightarrow> nat \<Rightarrow> bytes option list \<Rightarrow> bytes option list option"
  rs_reconstruct_data :: "nat \<Rightarrow> nat \<Rightarrow> bytes option list \<Rightarrow> bytes option list option"

definition sha256_lawful :: "libs \<Rightarrow> bool" where
  "sha256_lawful L \<longleftrightarrow> (\<forall>bs. length (sha256 L bs) = 32)"

end
