(* ===== verification/Codec.thy ===== *)
theory Codec
  imports Prelude "HOL-Library.Multiset" "HOL-Library.List_Lexorder" "HOL-Library.Char_ord"
begin

text \<open>
  Text and byte forms of values: the interface every encoder and decoder of
  the program implements (the locales \<open>codec\<close> and \<open>ordered_codec\<close>), positional
  digits, and the standard library's integer parsing and printing.  Strings and
  byte arrays compare lexicographically, as Rust's derived \<open>Ord\<close> does.
\<close>

section \<open>The interface of an encoding\<close>

locale codec =
  fixes wf :: "'a \<Rightarrow> bool"
    and enc :: "'a \<Rightarrow> 'b"
    and dec :: "'b \<Rightarrow> 'a option"
  assumes dec_enc: "wf x \<Longrightarrow> dec (enc x) = Some x"
    and dec_wf: "dec t = Some x \<Longrightarrow> wf x"
begin

lemma enc_inj: "wf x \<Longrightarrow> wf y \<Longrightarrow> enc x = enc y \<longleftrightarrow> x = y"
  by (metis dec_enc option.inject)

lemma dec_canonical: "dec t = Some x \<Longrightarrow> dec (enc x) = dec t"
  using dec_wf dec_enc by metis

lemma distinct_enc: "(\<And>x. x \<in> set xs \<Longrightarrow> wf x) \<Longrightarrow> distinct (map enc xs) \<longleftrightarrow> distinct xs"
  by (auto simp: distinct_map inj_on_def enc_inj)

lemma filter_dec_enc: "(\<And>x. x \<in> set xs \<Longrightarrow> wf x) \<Longrightarrow> List.map_filter dec (map enc xs) = xs"
  by (induction xs) (auto simp: List.map_filter_def dec_enc)

end

text \<open>An encoding that also keeps the order of the values.\<close>

locale ordered_codec = codec wf enc dec
  for wf :: "'a::linorder \<Rightarrow> bool" and enc :: "'a \<Rightarrow> 'b::linorder" and dec :: "'b \<Rightarrow> 'a option" +
  assumes enc_strict_mono: "wf x \<Longrightarrow> wf y \<Longrightarrow> x < y \<Longrightarrow> enc x < enc y"
begin

lemma enc_less_iff: "wf x \<Longrightarrow> wf y \<Longrightarrow> enc x < enc y \<longleftrightarrow> x < y"
  by (metis enc_strict_mono less_asym linorder_neqE)

lemma enc_le_iff: "wf x \<Longrightarrow> wf y \<Longrightarrow> enc x \<le> enc y \<longleftrightarrow> x \<le> y"
  by (metis enc_less_iff not_less)

lemma sorted_enc: "(\<And>x. x \<in> set xs \<Longrightarrow> wf x) \<Longrightarrow> sorted (map enc xs) \<longleftrightarrow> sorted xs"
  by (induction xs) (auto simp: enc_le_iff)

text \<open>Sorting the encodings and sorting the values give the same order.\<close>

lemma sort_enc: "(\<And>x. x \<in> set xs \<Longrightarrow> wf x) \<Longrightarrow> sort (map enc xs) = map enc (sort xs)"
  using sorted_enc [of "sort xs"] by (intro properties_for_sort) simp_all

end

section \<open>Positional digits\<close>

fun to_digits :: "nat \<Rightarrow> nat \<Rightarrow> nat \<Rightarrow> nat list" where
  "to_digits b 0 n = []"
| "to_digits b (Suc w) n = to_digits b w (n div b) @ [n mod b]"

definition of_digits :: "nat \<Rightarrow> nat list \<Rightarrow> nat" where
  "of_digits b ds = foldl (\<lambda>acc d. acc * b + d) 0 ds"

lemma length_to_digits [simp]: "length (to_digits b w n) = w"
  by (induction w arbitrary: n) auto

lemma of_digits_snoc [simp]: "of_digits b (ds @ [d]) = of_digits b ds * b + d"
  by (simp add: of_digits_def)

lemma of_digits_Nil [simp]: "of_digits b [] = 0"
  by (simp add: of_digits_def)

lemma of_digits_to_digits: "of_digits b (to_digits b w n) = n mod b ^ w"
proof (induction w arbitrary: n)
  case (Suc w)
  then show ?case by (simp add: mod_mult2_eq mult.commute)
qed simp

lemma to_digits_lt: "0 < b \<Longrightarrow> d \<in> set (to_digits b w n) \<Longrightarrow> d < b"
  by (induction w arbitrary: n) auto

lemma to_digits_shift: "to_digits b w n = map (\<lambda>i. n div b ^ (w - 1 - i) mod b) [0..<w]"
proof (induction w arbitrary: n)
  case (Suc w)
  have "map (\<lambda>i. n div b div b ^ (w - 1 - i) mod b) [0..<w] = map (\<lambda>i. n div b ^ (w - i) mod b) [0..<w]"
  proof (rule map_cong)
    fix i
    assume "i \<in> set [0..<w]"
    then have "b ^ (w - i) = b * b ^ (w - 1 - i)" by (simp flip: power_Suc add: Suc_diff_Suc)
    then show "n div b div b ^ (w - 1 - i) mod b = n div b ^ (w - i) mod b" by (simp add: div_mult2_eq)
  qed simp
  then show ?case by (simp add: Suc.IH)
qed simp

text \<open>Digits of a fixed width compare like the numbers they stand for.\<close>

lemma snoc_less_iff:
  fixes xs ys :: "'a::linorder list"
  assumes "length xs = length ys"
  shows "xs @ [x] < ys @ [y] \<longleftrightarrow> xs < ys \<or> xs = ys \<and> x < y"
  using assms by (induction xs ys rule: list_induct2) auto

lemma to_digits_less:
  assumes "m < n" "n < b ^ w"
  shows "to_digits b w m < to_digits b w n"
  using assms
proof (induction w arbitrary: m n)
  case (Suc w)
  have b: "0 < b" using Suc.prems by (cases "b = 0") auto
  have hi: "n div b < b ^ w" using Suc.prems b by (simp add: less_mult_imp_div_less mult.commute)
  have le: "m div b \<le> n div b" using Suc.prems by (simp add: div_le_mono)
  show ?case
  proof (cases "m div b = n div b")
    case True
    have "m div b * b = n div b * b" using True by simp
    moreover have "m div b * b + m mod b = m" "n div b * b + n mod b = n" by simp_all
    ultimately have "m mod b < n mod b" using Suc.prems(1) by linarith
    then show ?thesis using True by (simp add: snoc_less_iff)
  next
    case False
    then have "to_digits b w (m div b) < to_digits b w (n div b)" using Suc.IH le hi by simp
    then show ?thesis by (simp add: snoc_less_iff)
  qed
qed simp

lemma map_less_list:
  fixes f :: "'a::linorder \<Rightarrow> 'b::linorder"
  assumes "xs < ys" "length xs = length ys"
    and "\<And>x y. x \<in> set xs \<Longrightarrow> y \<in> set ys \<Longrightarrow> x < y \<Longrightarrow> f x < f y"
  shows "map f xs < map f ys"
  using assms(2,1,3) by (induction xs ys rule: list_induct2) auto

lemma to_digits_of_digits:
  assumes "\<forall>d\<in>set ds. d < b"
  shows "to_digits b (length ds) (of_digits b ds) = ds"
  using assms by (induction ds rule: rev_induct) auto

lemma of_digits_lt: "\<forall>d\<in>set ds. d < b \<Longrightarrow> of_digits b ds < b ^ length ds"
proof (induction ds rule: rev_induct)
  case (snoc d ds)
  then have "Suc (of_digits b ds) * b \<le> b ^ length ds * b" by (intro mult_le_mono1) auto
  then show ?case using snoc by (simp add: mult.commute)
qed simp

text \<open>Big-endian byte arrays.\<close>

definition be_nat :: "bytes \<Rightarrow> nat" where
  "be_nat bs = of_digits 256 (map unat bs)"

definition be_bytes :: "nat \<Rightarrow> nat \<Rightarrow> bytes" where
  "be_bytes w n = map word_of_nat (to_digits 256 w n)"

lemma length_be_bytes [simp]: "length (be_bytes w n) = w"
  by (simp add: be_bytes_def)

lemma be_nat_be_bytes: "be_nat (be_bytes w n) = n mod 256 ^ w"
proof -
  have "map unat (be_bytes w n) = to_digits 256 w n"
    unfolding be_bytes_def using to_digits_lt [of 256 _ w n] by (auto intro!: map_idI)
  then show ?thesis by (simp add: be_nat_def of_digits_to_digits)
qed

lemma be_bytes_be_nat: "be_bytes (length bs) (be_nat bs) = bs"
proof -
  have "to_digits 256 (length (map unat bs)) (of_digits 256 (map unat bs)) = map unat bs"
    by (rule to_digits_of_digits) auto
  then show ?thesis by (simp add: be_bytes_def be_nat_def o_def)
qed

lemma be_nat_lt: "be_nat bs < 256 ^ length bs"
  using of_digits_lt [of "map unat bs" 256] by (simp add: be_nat_def)

lemma be_bytes_less:
  assumes "m < n" "n < 256 ^ w"
  shows "be_bytes w m < be_bytes w n"
  unfolding be_bytes_def
proof (rule map_less_list [OF to_digits_less [OF assms]])
  fix x y
  assume "x \<in> set (to_digits 256 w m)" "y \<in> set (to_digits 256 w n)" "x < y"
  then show "(word_of_nat x :: byte) < word_of_nat y"
    using to_digits_lt [of 256 _ w n] by (auto simp: word_less_nat_alt)
qed simp

lemma be_nat_less:
  assumes "length xs = length ys" "be_nat xs < be_nat ys"
  shows "xs < ys"
  using be_bytes_less [OF assms(2) be_nat_lt] assms(1) by (metis be_bytes_be_nat)

lemma be_nat_less_iff:
  assumes "length xs = length ys"
  shows "be_nat xs < be_nat ys \<longleftrightarrow> xs < ys"
proof
  assume "xs < ys"
  then have "\<not> be_nat ys < be_nat xs" "be_nat xs \<noteq> be_nat ys"
    using be_nat_less [of ys xs] be_bytes_be_nat assms by (auto, metis less_irrefl)
  then show "be_nat xs < be_nat ys" by simp
qed (rule be_nat_less [OF assms])

section \<open>Integer text of the standard library\<close>

text \<open>\<open>char::to_digit\<close>: digits first, then letters of either case.\<close>

definition digit_value :: "nat \<Rightarrow> char \<Rightarrow> nat option" where
  "digit_value radix c =
     (let n = of_char c :: nat;
          d = if 48 \<le> n \<and> n \<le> 57 then n - 48
              else if 97 \<le> n \<and> n \<le> 122 then n - 87
              else if 65 \<le> n \<and> n \<le> 90 then n - 55 else radix in
      if d < radix then Some d else None)"

fun radix_fold :: "nat \<Rightarrow> nat \<Rightarrow> nat \<Rightarrow> string \<Rightarrow> nat option" where
  "radix_fold radix bound acc [] = Some acc"
| "radix_fold radix bound acc (c # cs) =
     (case digit_value radix c of
        None \<Rightarrow> None
      | Some d \<Rightarrow> if acc * radix + d < bound then radix_fold radix bound (acc * radix + d) cs else None)"

text \<open>
  \<open>from_str_radix\<close> of an unsigned type with values below \<open>bound\<close>: an empty text
  or a lone sign is an error, one leading plus sign is skipped.
\<close>

definition from_str_radix :: "nat \<Rightarrow> nat \<Rightarrow> string \<Rightarrow> nat option" where
  "from_str_radix radix bound s =
     (case s of
        [] \<Rightarrow> None
      | c # cs \<Rightarrow> if c = CHR ''+'' then (if cs = [] then None else radix_fold radix bound 0 cs)
                  else radix_fold radix bound 0 s)"

definition digit_char :: "nat \<Rightarrow> char" where
  "digit_char d = ''0123456789abcdef'' ! d"

definition hex_fixed :: "nat \<Rightarrow> nat \<Rightarrow> string" where
  "hex_fixed w n = map digit_char (to_digits 16 w n)"

fun show_nat :: "nat \<Rightarrow> string" where
  "show_nat n = (if n < 10 then [digit_char n] else show_nat (n div 10) @ [digit_char (n mod 10)])"

declare show_nat.simps [simp del]

lemma nat_lt_16_cases:
  "(d::nat) < 16 \<Longrightarrow> d = 0 \<or> d = 1 \<or> d = 2 \<or> d = 3 \<or> d = 4 \<or> d = 5 \<or> d = 6 \<or> d = 7 \<or>
     d = 8 \<or> d = 9 \<or> d = 10 \<or> d = 11 \<or> d = 12 \<or> d = 13 \<or> d = 14 \<or> d = 15"
  by presburger

lemma digit_value_digit_char: "d < 16 \<Longrightarrow> d < radix \<Longrightarrow> digit_value radix (digit_char d) = Some d"
  by (drule nat_lt_16_cases) (elim disjE; simp add: digit_value_def digit_char_def)

lemma digit_char_not_plus: "d < 16 \<Longrightarrow> digit_char d \<noteq> CHR ''+''"
  by (drule nat_lt_16_cases) (elim disjE; simp add: digit_char_def)

lemma digit_char_not_dot: "d < 16 \<Longrightarrow> digit_char d \<noteq> CHR ''.''"
  by (drule nat_lt_16_cases) (elim disjE; simp add: digit_char_def)

lemma radix_fold_append:
  "radix_fold r bd acc (xs @ ys) = (case radix_fold r bd acc xs of None \<Rightarrow> None | Some a \<Rightarrow> radix_fold r bd a ys)"
  by (induction xs arbitrary: acc) (auto split: option.splits)

lemma radix_fold_digits:
  assumes "\<forall>d\<in>set ds. d < r" "r \<le> 16" "of_digits r ds < bd"
  shows "radix_fold r bd 0 (map digit_char ds) = Some (of_digits r ds)"
  using assms
proof (induction ds rule: rev_induct)
  case (snoc d ds)
  have r: "0 < r" using snoc.prems by auto
  then have "of_digits r ds \<le> of_digits r ds * r" by simp
  moreover have "of_digits r ds * r + d < bd" using snoc.prems(3) by simp
  ultimately have "of_digits r ds < bd" by linarith
  then show ?case using snoc by (simp add: radix_fold_append digit_value_digit_char)
qed simp

lemma radix_fold_lt: "radix_fold r bd acc s = Some n \<Longrightarrow> acc < bd \<Longrightarrow> n < bd"
  by (induction s arbitrary: acc) (auto split: option.splits if_splits)

lemma from_str_radix_lt: "from_str_radix r bd s = Some n \<Longrightarrow> 0 < bd \<Longrightarrow> n < bd"
  by (auto simp: from_str_radix_def simp del: radix_fold.simps split: list.splits if_splits dest: radix_fold_lt)

lemma from_str_radix_digits:
  assumes "ds \<noteq> []" "\<forall>d\<in>set ds. d < r" "r \<le> 16" "of_digits r ds < bd"
  shows "from_str_radix r bd (map digit_char ds) = Some (of_digits r ds)"
proof -
  obtain d ds' where ds: "ds = d # ds'" using assms(1) by (cases ds) auto
  then have "digit_char d \<noteq> CHR ''+''" using assms(2,3) by (intro digit_char_not_plus) auto
  then show ?thesis using radix_fold_digits [OF assms(2-4)] by (simp add: from_str_radix_def ds)
qed

lemma length_hex_fixed [simp]: "length (hex_fixed w n) = w"
  by (simp add: hex_fixed_def)

lemma from_hex_fixed:
  assumes "0 < w" "n < bd" "n < 16 ^ w"
  shows "from_str_radix 16 bd (hex_fixed w n) = Some n"
proof -
  have "from_str_radix 16 bd (map digit_char (to_digits 16 w n)) = Some (of_digits 16 (to_digits 16 w n))"
  proof (rule from_str_radix_digits)
    show "to_digits 16 w n \<noteq> []" using assms(1) by (metis length_to_digits list.size(3) not_less_zero)
  qed (use assms to_digits_lt [of 16 _ w n] in \<open>auto simp: of_digits_to_digits\<close>)
  then show ?thesis using assms by (simp add: hex_fixed_def of_digits_to_digits)
qed

text \<open>Decimal text is the digits without leading zeros.\<close>

fun dec_digits :: "nat \<Rightarrow> nat list" where
  "dec_digits n = (if n < 10 then [n] else dec_digits (n div 10) @ [n mod 10])"

declare dec_digits.simps [simp del]

lemma show_nat_digits: "show_nat n = map digit_char (dec_digits n)"
  by (induction n rule: show_nat.induct) (subst show_nat.simps, subst dec_digits.simps, auto)

lemma dec_digits_props: "dec_digits n \<noteq> [] \<and> (\<forall>d\<in>set (dec_digits n). d < 10) \<and> of_digits 10 (dec_digits n) = n"
proof (induction n rule: dec_digits.induct)
  case (1 n)
  then show ?case by (subst (1 2 3) dec_digits.simps) (auto simp: of_digits_def)
qed

lemma parse_show_nat: "n < bd \<Longrightarrow> from_str_radix 10 bd (show_nat n) = Some n"
  using from_str_radix_digits [of "dec_digits n" 10 bd] dec_digits_props [of n] by (simp add: show_nat_digits)

lemma show_nat_no_dot: "CHR ''.'' \<notin> set (show_nat n)"
proof
  assume "CHR ''.'' \<in> set (show_nat n)"
  then obtain d where "d \<in> set (dec_digits n)" "digit_char d = CHR ''.''" by (auto simp: show_nat_digits)
  then show False using dec_digits_props [of n] digit_char_not_dot [of d] by force
qed

end
