(* ===== verification/Checksum.thy ===== *)
theory Checksum
  imports Codec
begin

text \<open>
  Block checksums and key hashes (\<open>djbod-core/src/checksum.rs\<close> and
  \<open>keyhash.rs\<close>): the 64-bit checksum every block carries, the SHA-256 of a key,
  and the hex text of both.  XXH3 and SHA-256 are the parameters of \<^typ>\<open>libs\<close>.
\<close>

section \<open>Block checksums\<close>

type_synonym block_checksum = checksum64

definition checksum_block :: "libs \<Rightarrow> bytes \<Rightarrow> block_checksum" where
  "checksum_block L block = xxh3_64 L block"

definition block_matches_checksum :: "libs \<Rightarrow> bytes \<Rightarrow> block_checksum \<Rightarrow> bool" where
  "block_matches_checksum L block stored = (checksum_block L block = stored)"

definition checksum_to_hex :: "block_checksum \<Rightarrow> string" where
  "checksum_to_hex c = hex_fixed 16 (unat c)"

definition checksum_from_hex :: "string \<Rightarrow> block_checksum option" where
  "checksum_from_hex hex =
     (if length hex \<noteq> 16 then None
      else map_option word_of_nat (from_str_radix 16 u64_modulus hex))"

interpretation checksum_text: codec "\<lambda>_. True" checksum_to_hex checksum_from_hex
  by unfold_locales (auto simp: checksum_to_hex_def checksum_from_hex_def from_hex_fixed)

section \<open>Key hashes\<close>

type_synonym key_hash = bytes

definition key_hash_wf :: "key_hash \<Rightarrow> bool" where
  "key_hash_wf h = (length h = 32)"

definition hash_key :: "libs \<Rightarrow> bytes \<Rightarrow> key_hash" where
  "hash_key L key = sha256 L key"

definition keyhash_to_hex :: "key_hash \<Rightarrow> string" where
  "keyhash_to_hex h = concat (map (\<lambda>b. hex_fixed 2 (unat b)) h)"

text \<open>\<open>str::is_char_boundary\<close> on UTF-8: a continuation byte is 128 to 191.\<close>

definition is_char_boundary :: "string \<Rightarrow> nat \<Rightarrow> bool" where
  "is_char_boundary s i \<longleftrightarrow> i = 0 \<or> i = length s \<or>
     (i < length s \<and> \<not> (128 \<le> (of_char (s ! i) :: nat) \<and> (of_char (s ! i) :: nat) < 192))"

text \<open>Slicing a string off a character boundary panics; an \<open>Err\<close> is the source's \<open>None\<close>.\<close>

definition hex_byte :: "string \<Rightarrow> nat \<Rightarrow> bytes \<Rightarrow> (unit, bytes) res" where
  "hex_byte hex i bs =
     (if is_char_boundary hex (2 * i) \<and> is_char_boundary hex (2 * i + 2)
      then case from_str_radix 16 256 (slice hex (2 * i) 2) of
             None \<Rightarrow> Err ()
           | Some n \<Rightarrow> Ok (bs[i := word_of_nat n])
      else Panic)"

definition keyhash_from_hex :: "string \<Rightarrow> (unit, key_hash) res" where
  "keyhash_from_hex hex =
     (if length hex \<noteq> 64 then Err ()
      else fold_res (hex_byte hex) [0..<32] (replicate 32 0))"

definition directory_components :: "key_hash \<Rightarrow> string list" where
  "directory_components h =
     (let hex = keyhash_to_hex h in [slice hex 0 2, slice hex 2 2, hex])"

section \<open>Round trip of the key hash\<close>

lemma length_keyhash_to_hex: "length (keyhash_to_hex h) = 2 * length h"
  by (induction h) (auto simp: keyhash_to_hex_def)

lemma digit_char_ascii: "d < 16 \<Longrightarrow> of_char (digit_char d) < (128::nat)"
  by (drule nat_lt_16_cases) (elim disjE; simp add: digit_char_def)

lemma keyhash_to_hex_ascii: "c \<in> set (keyhash_to_hex h) \<Longrightarrow> of_char c < (128::nat)"
  using to_digits_lt [of 16] by (fastforce simp: keyhash_to_hex_def hex_fixed_def intro: digit_char_ascii)

lemma keyhash_to_hex_boundary: "i \<le> length (keyhash_to_hex h) \<Longrightarrow> is_char_boundary (keyhash_to_hex h) i"
  using keyhash_to_hex_ascii [OF nth_mem, of i h] by (auto simp: is_char_boundary_def)

lemma keyhash_to_hex_slice:
  "i < length h \<Longrightarrow> slice (keyhash_to_hex h) (2 * i) 2 = hex_fixed 2 (unat (h ! i))"
  using slice_concat_const [of "map (\<lambda>b. hex_fixed 2 (unat b)) h" 2 i]
  by (simp add: keyhash_to_hex_def mult.commute)

lemma hex_byte_to_hex:
  assumes "i < length h" "length bs = length h"
  shows "hex_byte (keyhash_to_hex h) i bs = Ok (bs[i := h ! i])"
proof -
  have "2 * i + 2 \<le> length (keyhash_to_hex h)" using assms by (simp add: length_keyhash_to_hex)
  then show ?thesis using assms
    by (simp add: hex_byte_def keyhash_to_hex_boundary keyhash_to_hex_slice from_hex_fixed)
qed

lemma hex_bytes_prefix:
  "n \<le> length h \<Longrightarrow> fold_res (hex_byte (keyhash_to_hex h)) [0..<n] (replicate (length h) 0) =
     Ok (take n h @ replicate (length h - n) 0)"
proof (induction n)
  case (Suc n)
  let ?bs = "take n h @ replicate (length h - n) 0"
  have "?bs[n := h ! n] = take (Suc n) h @ replicate (length h - Suc n) 0"
    using Suc.prems by (simp add: list_update_append take_Suc_conv_app_nth Suc_diff_Suc [symmetric])
  moreover have "hex_byte (keyhash_to_hex h) n ?bs = Ok (?bs[n := h ! n])"
    using Suc.prems by (intro hex_byte_to_hex) auto
  ultimately show ?case using Suc by (simp add: res_simps)
qed simp

lemma keyhash_from_to_hex: "key_hash_wf h \<Longrightarrow> keyhash_from_hex (keyhash_to_hex h) = Ok h"
  using hex_bytes_prefix [of 32 h]
  by (simp add: key_hash_wf_def keyhash_from_hex_def length_keyhash_to_hex)

lemma keyhash_from_hex_wf: "keyhash_from_hex s = Ok h \<Longrightarrow> key_hash_wf h"
  unfolding keyhash_from_hex_def key_hash_wf_def
  by (auto split: if_splits elim!: fold_res_invariant [where P = "\<lambda>bs. length bs = 32"]
      simp: hex_byte_def split: option.splits)

fun ok_option :: "('e, 'a) res \<Rightarrow> 'a option" where
  "ok_option (Ok x) = Some x"
| "ok_option _ = None"

lemma ok_option_Some [simp]: "ok_option r = Some x \<longleftrightarrow> r = Ok x"
  by (cases r) auto

interpretation keyhash_text: codec key_hash_wf keyhash_to_hex "\<lambda>s. ok_option (keyhash_from_hex s)"
  by unfold_locales (auto simp: keyhash_from_to_hex keyhash_from_hex_wf)

section \<open>What the texts of hashes promise\<close>

text \<open>C16: A key hash written in hexadecimal reads back, and the directory of a key determines it.\<close>

theorem keyhash_hex_round_trip:
  assumes "key_hash_wf h"
  shows "keyhash_from_hex (keyhash_to_hex h) = Ok h \<and>
    (key_hash_wf h' \<and> directory_components h = directory_components h' \<longleftrightarrow> h' = h)"
  using keyhash_from_to_hex [OF assms] assms keyhash_text.enc_inj [of h h']
  by (auto simp: directory_components_def Let_def)

theorem keyhash_hex_round_trip_witness:
  "keyhash_from_hex (keyhash_to_hex (replicate 32 171)) = Ok (replicate 32 171) \<and>
   (key_hash_wf (replicate 32 1) \<and>
    directory_components (replicate 32 171) = directory_components (replicate 32 1) \<longleftrightarrow>
    replicate 32 (1 :: 8 word) = replicate 32 171)"
  by (rule keyhash_hex_round_trip) (simp add: key_hash_wf_def)

text \<open>C17: Reading a key hash from text is not total: a text of 64 bytes in which a character lies
  across the end of the first pair makes it panic instead of giving an error.\<close>

theorem keyhash_from_hex_can_panic:
  assumes "length s = 64" "\<not> is_char_boundary s 2"
  shows "keyhash_from_hex s = Panic"
proof -
  have "hex_byte s 0 (replicate 32 0) = Panic" using assms(2) by (simp add: hex_byte_def numeral_2_eq_2)
  moreover have "[0..<32] = 0 # [1..<32 :: nat]" by (simp add: upt_rec)
  ultimately show ?thesis using assms(1) by (simp add: keyhash_from_hex_def)
qed

theorem keyhash_from_hex_can_panic_witness:
  "keyhash_from_hex (CHR ''0'' # CHR 0xC3 # CHR 0xA9 # replicate 61 (CHR ''0'')) = Panic"
  by (rule keyhash_from_hex_can_panic) (simp_all add: is_char_boundary_def)

end
