(* ===== verification/Version.thy ===== *)
theory Version
  imports Codec
begin

text \<open>
  Version identifiers (\<open>djbod-core/src/version.rs\<close>) and their generation
  (\<open>djbod-node/src/ulid.rs\<close>): the 16-byte ULID, its 26-character Crockford
  base 32 text, and the generator a coordinator draws identifiers from.  The
  clock and the random bytes are arguments of a generator step.
\<close>

section \<open>Text form\<close>

type_synonym version_id = bytes

definition version_wf :: "version_id \<Rightarrow> bool" where
  "version_wf v = (length v = 16)"

definition ALPHABET :: string where
  "ALPHABET = ''0123456789ABCDEFGHJKMNPQRSTVWXYZ''"

definition TEXT_LEN :: nat where
  "TEXT_LEN = 26"

definition to_ascii_uppercase :: "char \<Rightarrow> char" where
  "to_ascii_uppercase c =
     (let n = of_char c :: nat in if 97 \<le> n \<and> n \<le> 122 then char_of (n - 32) else c)"

fun position_from :: "nat \<Rightarrow> 'a \<Rightarrow> 'a list \<Rightarrow> nat option" where
  "position_from i x [] = None"
| "position_from i x (y # ys) = (if y = x then Some i else position_from (Suc i) x ys)"

definition decode_char :: "char \<Rightarrow> nat option" where
  "decode_char c = position_from 0 (to_ascii_uppercase c) ALPHABET"

definition version_to_text :: "version_id \<Rightarrow> string" where
  "version_to_text v =
     (let value = be_nat v in
      map (\<lambda>i. ALPHABET ! (value div 2 ^ (5 * (TEXT_LEN - 1 - i)) mod 32)) [0..<TEXT_LEN])"

text \<open>The accumulator is a \<open>u128\<close>: a left shift drops the bits above it.\<close>

fun decode_chars :: "nat \<Rightarrow> string \<Rightarrow> nat option" where
  "decode_chars value [] = Some value"
| "decode_chars value (c # cs) =
     (case decode_char c of
        None \<Rightarrow> None
      | Some d \<Rightarrow> decode_chars (value * 32 mod 2 ^ 128 + d) cs)"

definition version_from_text :: "string \<Rightarrow> version_id option" where
  "version_from_text text =
     (if length text \<noteq> TEXT_LEN then None
      else if \<not> (48 \<le> (of_char (text ! 0) :: nat) \<and> (of_char (text ! 0) :: nat) \<le> 55) then None
      else map_option (be_bytes 16) (decode_chars 0 text))"

section \<open>Lemmas on the text form\<close>

lemma nat_lt_32_cases:
  "(d::nat) < 32 \<Longrightarrow> d < 16 \<or> d = 16 \<or> d = 17 \<or> d = 18 \<or> d = 19 \<or> d = 20 \<or> d = 21 \<or> d = 22 \<or>
     d = 23 \<or> d = 24 \<or> d = 25 \<or> d = 26 \<or> d = 27 \<or> d = 28 \<or> d = 29 \<or> d = 30 \<or> d = 31"
  by presburger

lemma decode_char_ALPHABET_low: "d < 16 \<Longrightarrow> decode_char (ALPHABET ! d) = Some d"
  by (drule nat_lt_16_cases)
    (elim disjE; simp add: decode_char_def ALPHABET_def to_ascii_uppercase_def)

lemma decode_char_ALPHABET: "d < 32 \<Longrightarrow> decode_char (ALPHABET ! d) = Some d"
  by (drule nat_lt_32_cases)
    (elim disjE; simp add: decode_char_ALPHABET_low; simp add: decode_char_def ALPHABET_def to_ascii_uppercase_def)

lemma ALPHABET_sorted: "sorted_wrt (<) ALPHABET"
  by (simp add: ALPHABET_def less_char_def)

lemma ALPHABET_less: "i < j \<Longrightarrow> j < 32 \<Longrightarrow> ALPHABET ! i < ALPHABET ! j"
proof -
  assume "i < j" "j < 32"
  moreover have "length ALPHABET = 32" by (simp add: ALPHABET_def)
  ultimately show ?thesis using sorted_wrt_nth_less [OF ALPHABET_sorted] by simp
qed

lemma version_to_text_digits: "version_to_text v = map (\<lambda>d. ALPHABET ! d) (to_digits 32 26 (be_nat v))"
proof -
  have "(2::nat) ^ (5 * (26 - 1 - i)) = 32 ^ (26 - 1 - i)" for i
    by (simp add: power_mult)
  then show ?thesis by (simp add: version_to_text_def TEXT_LEN_def Let_def to_digits_shift o_def del: upt_Suc)
qed

lemma decode_chars_append:
  "decode_chars acc (xs @ ys) = (case decode_chars acc xs of None \<Rightarrow> None | Some a \<Rightarrow> decode_chars a ys)"
  by (induction xs arbitrary: acc) (auto split: option.splits)

lemma decode_chars_digits:
  assumes "\<forall>d\<in>set ds. d < 32" "of_digits 32 ds < 2 ^ 128"
  shows "decode_chars 0 (map (\<lambda>d. ALPHABET ! d) ds) = Some (of_digits 32 ds)"
  using assms
proof (induction ds rule: rev_induct)
  case (snoc d ds)
  have lt: "of_digits 32 ds * 32 < 2 ^ 128" using snoc.prems by simp
  then have "of_digits 32 ds < 2 ^ 128" by simp
  then show ?case using snoc lt by (simp add: decode_chars_append decode_char_ALPHABET)
qed simp

lemma be_nat_version_lt: "version_wf v \<Longrightarrow> be_nat v < 2 ^ 128"
  using be_nat_lt [of v] by (simp add: version_wf_def)

lemma version_first_char:
  assumes "version_wf v"
  shows "48 \<le> (of_char (version_to_text v ! 0) :: nat) \<and> (of_char (version_to_text v ! 0) :: nat) \<le> 55"
proof -
  let ?d = "be_nat v div 32 ^ 25"
  have "?d < 8" using be_nat_version_lt [OF assms] by (simp add: less_mult_imp_div_less)
  moreover from this have "version_to_text v ! 0 = ALPHABET ! ?d"
    by (simp add: version_to_text_digits to_digits_shift del: upt_Suc)
  moreover have "\<forall>d\<in>{0..<8::nat}. 48 \<le> (of_char (ALPHABET ! d) :: nat) \<and> (of_char (ALPHABET ! d) :: nat) \<le> 55"
    by (simp add: ALPHABET_def atLeast0LessThan lessThan_nat_numeral lessThan_Suc)
  ultimately show ?thesis by simp
qed

lemma version_from_to_text: "version_wf v \<Longrightarrow> version_from_text (version_to_text v) = Some v"
proof -
  assume v: "version_wf v"
  let ?ds = "to_digits 32 26 (be_nat v)"
  have val: "of_digits 32 ?ds = be_nat v"
    using be_nat_version_lt [OF v] by (simp add: of_digits_to_digits)
  have "decode_chars 0 (version_to_text v) = Some (be_nat v)"
    using decode_chars_digits [of ?ds] to_digits_lt [of 32 _ 26 "be_nat v"] be_nat_version_lt [OF v]
    unfolding version_to_text_digits val by simp
  moreover have "length (version_to_text v) = 26" by (simp add: version_to_text_digits)
  moreover have "be_bytes 16 (be_nat v) = v" using be_bytes_be_nat [of v] v by (simp add: version_wf_def)
  ultimately show ?thesis using version_first_char [OF v]
    by (simp add: version_from_text_def TEXT_LEN_def)
qed

lemma version_from_text_wf: "version_from_text t = Some v \<Longrightarrow> version_wf v"
  by (auto simp: version_from_text_def version_wf_def split: if_splits)

lemma version_to_text_mono:
  assumes "version_wf v" "version_wf w" "v < w"
  shows "version_to_text v < version_to_text w"
  unfolding version_to_text_digits
proof (rule map_less_list [OF to_digits_less])
  show "be_nat v < be_nat w" using assms by (simp add: be_nat_less_iff version_wf_def)
  show "be_nat w < 32 ^ 26" using be_nat_version_lt [OF assms(2)] by simp
qed (use to_digits_lt [of 32 _ 26 "be_nat w"] in \<open>auto intro: ALPHABET_less\<close>)

interpretation version_text: ordered_codec version_wf version_to_text version_from_text
  by unfold_locales (auto simp: version_from_to_text version_from_text_wf version_to_text_mono)

lemma version_to_text_no_dot: "CHR ''.'' \<notin> set (version_to_text v)"
proof
  assume "CHR ''.'' \<in> set (version_to_text v)"
  then obtain d where "d < 32" "ALPHABET ! d = CHR ''.''"
    using to_digits_lt [of 32] by (fastforce simp: version_to_text_digits)
  then have "decode_char CHR ''.'' = Some d" using decode_char_ALPHABET [of d] by simp
  then show False by (simp add: decode_char_def to_ascii_uppercase_def ALPHABET_def)
qed

section \<open>The generator\<close>

text \<open>The generator's state: the last millisecond and the last random part.\<close>

type_synonym generator = "nat \<times> nat"

definition generator_new :: generator where
  "generator_new = (0, 0)"

definition generator_next :: "generator \<Rightarrow> nat \<Rightarrow> bytes \<Rightarrow> version_id \<times> generator" where
  "generator_next g now random_bytes =
     (let now_ms = now mod 2 ^ 48;
          (last_ms, last_random) = g;
          random = (if now_ms > last_ms
                    then foldl (\<lambda>value b. (value * 256) mod 2 ^ 128 + unat b) 0 random_bytes
                    else (last_random + 1) mod 2 ^ 80);
          ms = max now_ms last_ms
      in (be_bytes 16 ((ms * 2 ^ 80) mod 2 ^ 128 + random), (ms, random)))"

fun generator_run :: "generator \<Rightarrow> (nat \<times> bytes) list \<Rightarrow> version_id list" where
  "generator_run g [] = []"
| "generator_run g ((now, rnd) # inputs) =
     (let (v, g') = generator_next g now rnd in v # generator_run g' inputs)"

definition generator_wf :: "generator \<Rightarrow> bool" where
  "generator_wf g = (fst g < 2 ^ 48 \<and> snd g < 2 ^ 80)"

definition generator_id :: "generator \<Rightarrow> version_id" where
  "generator_id g = be_bytes 16 (fst g * 2 ^ 80 + snd g)"

text \<open>A step wraps when the random part overflows within a millisecond.\<close>

definition generator_wraps :: "generator \<Rightarrow> nat \<Rightarrow> bool" where
  "generator_wraps g now = (now mod 2 ^ 48 \<le> fst g \<and> snd g + 1 = 2 ^ 80)"

fun run_wraps :: "generator \<Rightarrow> (nat \<times> bytes) list \<Rightarrow> bool" where
  "run_wraps g [] = False"
| "run_wraps g ((now, rnd) # inputs) =
     (generator_wraps g now \<or> run_wraps (snd (generator_next g now rnd)) inputs)"

lemma random_fold:
  assumes "length rnd \<le> 10"
  shows "foldl (\<lambda>value b. (value * 256) mod 2 ^ 128 + unat b) 0 rnd = be_nat rnd"
  using assms
proof (induction rnd rule: rev_induct)
  case (snoc b rnd)
  have "be_nat rnd < 256 ^ length rnd" by (rule be_nat_lt)
  also have "\<dots> \<le> 256 ^ 10" using snoc.prems by (intro power_increasing) auto
  finally have "be_nat rnd * 256 < 2 ^ 128" by simp
  then show ?case using snoc by (simp add: be_nat_def)
qed (simp add: be_nat_def)

lemma generator_next_wf:
  assumes "generator_wf g" "length rnd = 10"
  shows "generator_wf (snd (generator_next g now rnd))"
    and "fst (generator_next g now rnd) = generator_id (snd (generator_next g now rnd))"
proof -
  have rnd: "be_nat rnd < 2 ^ 80" using be_nat_lt [of rnd] assms(2) by simp
  have "fst g * 2 ^ 80 < 2 ^ 128" "(now mod 2 ^ 48) * 2 ^ 80 < (2 ^ 128 :: nat)"
    using assms(1) mod_less_divisor [of "2 ^ 48" now] by (auto simp: generator_wf_def)
  then show "generator_wf (snd (generator_next g now rnd))"
    and "fst (generator_next g now rnd) = generator_id (snd (generator_next g now rnd))"
    using assms rnd random_fold [of rnd]
    by (auto simp: generator_next_def generator_wf_def generator_id_def Let_def split: prod.splits)
qed

lemma generator_next_grows:
  assumes "generator_wf g" "length rnd = 10" "\<not> generator_wraps g now"
  shows "generator_id g < generator_id (snd (generator_next g now rnd))"
proof -
  obtain ms r where g: "g = (ms, r)" by (cases g)
  obtain ms' r' where g': "snd (generator_next g now rnd) = (ms', r')"
    by (cases "snd (generator_next g now rnd)")
  have wf': "ms' < 2 ^ 48" "r' < 2 ^ 80"
    using generator_next_wf(1) [OF assms(1,2), of now] g' by (auto simp: generator_wf_def)
  have "ms < ms' \<or> ms = ms' \<and> r < r'"
    using assms(1,3) g' g
    by (auto simp: generator_next_def Let_def generator_wraps_def generator_wf_def max_def mod_less split: if_splits)
  moreover have "r < 2 ^ 80" using assms(1) g by (simp add: generator_wf_def)
  ultimately have less: "ms * 2 ^ 80 + r < ms' * 2 ^ 80 + r'" by auto
  moreover have "ms' * 2 ^ 80 + r' < 256 ^ 16"
    using wf' by simp
  ultimately show ?thesis using be_bytes_less g g' by (simp add: generator_id_def)
qed

lemma generator_run_sorted_from:
  assumes "generator_wf g" "\<forall>(now, rnd) \<in> set inputs. length rnd = 10" "\<not> run_wraps g inputs"
  shows "sorted_wrt (<) (generator_id g # generator_run g inputs)"
  using assms
proof (induction inputs arbitrary: g)
  case (Cons x inputs)
  obtain now rnd where x: "x = (now, rnd)" by (cases x)
  let ?g = "snd (generator_next g now rnd)"
  have len: "length rnd = 10" using Cons.prems(2) x by simp
  have sorted: "sorted_wrt (<) (generator_id ?g # generator_run ?g inputs)"
    using Cons.prems x len by (intro Cons.IH generator_next_wf) auto
  have "generator_id g < generator_id ?g"
    using Cons.prems x len by (intro generator_next_grows) auto
  then show ?case using sorted generator_next_wf(2) [OF Cons.prems(1) len, of now] x
    by (auto simp: Let_def split: prod.splits intro: less_trans)
qed simp

lemma generator_wrap_decreases:
  assumes "generator_wf g" "length rnd = 10" "generator_wraps g now" "0 < snd g"
  shows "fst (generator_next g now rnd) < generator_id g"
proof -
  have st: "snd (generator_next g now rnd) = (fst g, 0)"
    using assms(3) by (auto simp: generator_next_def Let_def generator_wraps_def max_def split: prod.splits)
  have "fst (generator_next g now rnd) = be_bytes 16 (fst g * 2 ^ 80)"
    using generator_next_wf(2) [OF assms(1,2), of now] by (simp add: st generator_id_def)
  moreover have "fst g * 2 ^ 80 < fst g * 2 ^ 80 + snd g" using assms(4) by simp
  moreover have "fst g * 2 ^ 80 + snd g < 256 ^ 16" using assms(1) by (simp add: generator_wf_def)
  ultimately show ?thesis using be_bytes_less by (simp add: generator_id_def)
qed

section \<open>What version identifiers promise\<close>

text \<open>C13: Version identifiers survive being written as text, and the texts sort exactly as the
  identifiers do, so sorting file names sorts versions.\<close>

theorem version_text_faithful:
  assumes "version_wf v" "version_wf w"
  shows "version_from_text (version_to_text v) = Some v \<and>
    (version_to_text v < version_to_text w \<longleftrightarrow> v < w)"
  using assms version_text.dec_enc version_text.enc_less_iff by blast

theorem version_text_faithful_witness:
  "version_from_text (version_to_text (replicate 16 1)) = Some (replicate 16 1) \<and>
   (version_to_text (replicate 16 1) < version_to_text (replicate 16 2) \<longleftrightarrow>
    replicate 16 (1 :: 8 word) < replicate 16 2)"
  by (rule version_text_faithful) (simp_all add: version_wf_def)

text \<open>C14: The identifiers one process hands out strictly increase, whatever the clock does, as long
  as the 80-bit counter within one millisecond does not run over.\<close>

theorem generator_ids_increase:
  assumes "\<forall>(now, rnd) \<in> set inputs. length rnd = 10" "\<not> run_wraps generator_new inputs"
  shows "sorted_wrt (<) (generator_run generator_new inputs)"
proof -
  have "generator_wf generator_new" by (simp add: generator_wf_def generator_new_def)
  from generator_run_sorted_from [OF this assms] show ?thesis by simp
qed

theorem generator_ids_increase_witness:
  "sorted_wrt (<) (generator_run generator_new 
     [(5, [1, 2, 3, 4, 5, 6, 7, 8, 9, 10]), (5, [0, 0, 0, 0, 0, 0, 0, 0, 0, 0]), (3, [0, 0, 0, 0, 0, 0, 0, 0, 0, 0])])"
  by (rule generator_ids_increase)
    (simp_all add: generator_wraps_def generator_new_def generator_next_def Let_def)

text \<open>C15: When the counter within one millisecond does run over, the next identifier is smaller than
  the one before it.\<close>

theorem generator_wrap_goes_back:
  assumes "generator_wf g" "length rnd = 10" "now mod 2 ^ 48 \<le> fst g" "snd g + 1 = 2 ^ 80"
  shows "fst (generator_next g now rnd) < be_bytes 16 (fst g * 2 ^ 80 + snd g)"
  using generator_wrap_decreases [OF assms(1,2)] assms(3,4) unfolding generator_wraps_def generator_id_def
  by simp

theorem generator_wrap_goes_back_witness:
  "fst (generator_next (5, 2 ^ 80 - 1) 5 (replicate 10 0)) <
   be_bytes 16 (fst (5 :: nat, 2 ^ 80 - 1 :: nat) * 2 ^ 80 + snd (5 :: nat, 2 ^ 80 - 1 :: nat))"
  by (rule generator_wrap_goes_back) (simp_all add: generator_wf_def)

end
