(* ===== verification/Erasure.thy ===== *)
theory Erasure
  imports Prelude
begin

text \<open>
  Schemes and the Reed-Solomon wrapper (\<open>djbod-core/src/erasure.rs\<close>): the
  validated pair of k data and m parity shards, shard indices, and the code
  object that computes parity and reconstructs missing blocks.  The crate
  \<open>reed-solomon-erasure\<close> is the parameter \<^typ>\<open>libs\<close>; what its documentation
  promises for a fixed k and m is \<open>rs_lawful\<close>.  Unsigned bytes are natural
  numbers here, a cast \<open>as u8\<close> is \<open>mod 256\<close>.
\<close>

section \<open>Schemes\<close>

definition MAX_DATA_SHARDS :: nat where "MAX_DATA_SHARDS = 32"
definition MAX_PARITY_SHARDS :: nat where "MAX_PARITY_SHARDS = 8"
definition MAX_TOTAL_SHARDS :: nat where "MAX_TOTAL_SHARDS = 64"

type_synonym shard_index = nat

record scheme =
  scheme_data_shards :: nat
  scheme_parity_shards :: nat

datatype scheme_error =
    NoDataShards
  | TooManyDataShards nat
  | TooManyParityShards nat
  | TooManyShards nat

definition scheme_new :: "nat \<Rightarrow> nat \<Rightarrow> (scheme_error, scheme) res" where
  "scheme_new data_shards parity_shards =
     (if data_shards = 0 then Err NoDataShards
      else if data_shards > MAX_DATA_SHARDS then Err (TooManyDataShards data_shards)
      else if parity_shards > MAX_PARITY_SHARDS then Err (TooManyParityShards parity_shards)
      else let total = data_shards + parity_shards in
        if total > MAX_TOTAL_SHARDS then Err (TooManyShards total)
        else Ok \<lparr>scheme_data_shards = data_shards, scheme_parity_shards = parity_shards\<rparr>)"

abbreviation data_shards :: "scheme \<Rightarrow> nat" where
  "data_shards \<equiv> scheme_data_shards"

abbreviation parity_shards :: "scheme \<Rightarrow> nat" where
  "parity_shards \<equiv> scheme_parity_shards"

definition total_shards :: "scheme \<Rightarrow> nat" where
  "total_shards s = data_shards s + parity_shards s"

definition scheme_contains :: "scheme \<Rightarrow> shard_index \<Rightarrow> bool" where
  "scheme_contains s index = (index < total_shards s)"

definition is_data :: "scheme \<Rightarrow> shard_index \<Rightarrow> bool" where
  "is_data s index = (index < data_shards s)"

definition is_parity :: "scheme \<Rightarrow> shard_index \<Rightarrow> bool" where
  "is_parity s index = (scheme_contains s index \<and> \<not> is_data s index)"

definition shard_indices :: "scheme \<Rightarrow> shard_index list" where
  "shard_indices s = map (\<lambda>i. i mod 256) [0..<total_shards s]"

definition data_shard_indices :: "scheme \<Rightarrow> shard_index list" where
  "data_shard_indices s = map (\<lambda>i. i mod 256) [0..<data_shards s]"

text \<open>The fields are private, so every scheme of the program comes from \<^const>\<open>scheme_new\<close>.\<close>

definition scheme_valid :: "scheme \<Rightarrow> bool" where
  "scheme_valid s = (scheme_new (data_shards s) (parity_shards s) = Ok s)"

section \<open>The code object\<close>

datatype coding_error =
    WrongDataBlockCount nat nat
  | UnequalBlockLengths
  | EmptyBlocks
  | IndexOutOfRange shard_index
  | DuplicateIndex shard_index
  | TooFewShardsPresent nat nat

text \<open>The library object is determined by the k and m it was made for.\<close>

record rs_code =
  code_scheme :: scheme
  code_reed_solomon :: "(nat \<times> nat) option"

definition rs_code_new :: "libs \<Rightarrow> scheme \<Rightarrow> (coding_error, rs_code) res" where
  "rs_code_new L s =
     (if parity_shards s = 0
      then Ok \<lparr>code_scheme = s, code_reed_solomon = None\<rparr>
      else if rs_new L (data_shards s) (parity_shards s)
      then Ok \<lparr>code_scheme = s, code_reed_solomon = Some (data_shards s, parity_shards s)\<rparr>
      else Panic)"

definition compute_parity :: "libs \<Rightarrow> rs_code \<Rightarrow> bytes list \<Rightarrow> (coding_error, bytes list) res" where
  "compute_parity L code data_blocks =
     (let s = code_scheme code in
      if length data_blocks \<noteq> data_shards s
      then Err (WrongDataBlockCount (data_shards s) (length data_blocks))
      else case data_blocks of
        [] \<Rightarrow> Panic
      | first # _ \<Rightarrow>
        let block_len = length first in
        if block_len = 0 then Err EmptyBlocks
        else if \<exists>block \<in> set data_blocks. length block \<noteq> block_len then Err UnequalBlockLengths
        else case code_reed_solomon code of
          None \<Rightarrow> Ok (replicate (parity_shards s) (replicate block_len 0))
        | Some (k, m) \<Rightarrow> expect (rs_encode_sep L k m data_blocks))"

text \<open>One round of the loop that lays the present blocks out by position.\<close>

definition lay_out_step ::
  "scheme \<Rightarrow> shard_index \<times> bytes \<Rightarrow> bytes option list \<times> nat option
   \<Rightarrow> (coding_error, bytes option list \<times> nat option) res" where
  "lay_out_step s = (\<lambda>(index, bs) (slots, block_len).
     if \<not> scheme_contains s index then Err (IndexOutOfRange index)
     else if slots ! index \<noteq> None then Err (DuplicateIndex index)
     else case block_len of
       None \<Rightarrow> Ok (slots[index := Some bs], Some (length bs))
     | Some len \<Rightarrow>
         if len \<noteq> length bs then Err UnequalBlockLengths
         else Ok (slots[index := Some bs], block_len))"

definition lay_out ::
  "scheme \<Rightarrow> (shard_index \<times> bytes) list \<Rightarrow> (coding_error, bytes option list \<times> nat option) res" where
  "lay_out s present = fold_res (lay_out_step s) present (replicate (total_shards s) None, None)"

definition check_wanted :: "scheme \<Rightarrow> shard_index list \<Rightarrow> (coding_error, unit) res" where
  "check_wanted s wanted =
     fold_res (\<lambda>index _. if scheme_contains s index then Ok () else Err (IndexOutOfRange index)) wanted ()"

definition collect_wanted :: "bytes option list \<Rightarrow> shard_index list \<Rightarrow> (coding_error, bytes list) res" where
  "collect_wanted slots wanted =
     (if list_all (\<lambda>index. slots ! index \<noteq> None) wanted
      then Ok (map (\<lambda>index. the (slots ! index)) wanted) else Panic)"

definition fill_missing ::
  "libs \<Rightarrow> rs_code \<Rightarrow> nat \<Rightarrow> nat option \<Rightarrow> bytes option list \<Rightarrow> shard_index list
   \<Rightarrow> (coding_error, bytes option list) res" where
  "fill_missing L code present_count block_len slots wanted =
     (let s = code_scheme code in
      if present_count < data_shards s
      then Err (TooFewShardsPresent present_count (data_shards s))
      else if block_len = Some 0 then Err EmptyBlocks
      else case code_reed_solomon code of
        None \<Rightarrow> Panic
      | Some (k, m) \<Rightarrow>
          if list_all (\<lambda>index. \<not> is_parity s index) wanted
          then expect (rs_reconstruct_data L k m slots)
          else expect (rs_reconstruct L k m slots))"

definition reconstruct ::
  "libs \<Rightarrow> rs_code \<Rightarrow> (shard_index \<times> bytes) list \<Rightarrow> shard_index list
   \<Rightarrow> (coding_error, bytes list) res" where
  "reconstruct L code present wanted =
     bind_res (lay_out (code_scheme code) present) (\<lambda>(slots, block_len).
     bind_res (check_wanted (code_scheme code) wanted) (\<lambda>_.
     bind_res
       (if list_ex (\<lambda>index. slots ! index = None) wanted
        then fill_missing L code (length present) block_len slots wanted
        else Ok slots)
       (\<lambda>slots. collect_wanted slots wanted)))"

section \<open>What the crate documents\<close>

definition count_some :: "'a option list \<Rightarrow> nat" where
  "count_some xs = length (filter (\<lambda>x. x \<noteq> None) xs)"

text \<open>Slots that hold some of the blocks of a stripe and nothing else.\<close>

definition slots_of :: "bytes option list \<Rightarrow> bytes list \<Rightarrow> bool" where
  "slots_of slots blocks \<longleftrightarrow> length slots = length blocks \<and>
     (\<forall>i < length blocks. slots ! i = None \<or> slots ! i = Some (blocks ! i))"

text \<open>
  For a k and m: a code object exists; encoding gives m parity blocks of the
  data's length; reconstruction succeeds on k or more blocks of one length,
  and from k or more blocks of an encoded stripe it gives the stripe's blocks
  (all of them, or the data blocks for the data-only variant).
\<close>

definition rs_encodes :: "libs \<Rightarrow> nat \<Rightarrow> nat \<Rightarrow> bytes list \<Rightarrow> bytes list \<Rightarrow> nat \<Rightarrow> bool" where
  "rs_encodes L k m data parity n \<longleftrightarrow>
     rs_encode_sep L k m data = Some parity \<and> length parity = m \<and> (\<forall>b\<in>set parity. length b = n) \<and>
     (\<forall>slots. slots_of slots (data @ parity) \<and> k \<le> count_some slots \<longrightarrow>
        rs_reconstruct L k m slots = Some (map Some (data @ parity)) \<and>
        (\<exists>rest. rs_reconstruct_data L k m slots = Some (map Some data @ rest) \<and> length rest = m))"

definition rs_total :: "libs \<Rightarrow> nat \<Rightarrow> nat \<Rightarrow> bool" where
  "rs_total L k m \<longleftrightarrow>
     (\<forall>slots n. length slots = k + m \<and> 0 < n \<and> (\<forall>b. Some b \<in> set slots \<longrightarrow> length b = n) \<and>
        k \<le> count_some slots \<longrightarrow>
        (\<exists>blocks. rs_reconstruct L k m slots = Some (map Some blocks) \<and> length blocks = k + m) \<and>
        (\<exists>data rest. rs_reconstruct_data L k m slots = Some (map Some data @ rest) \<and>
           length data = k \<and> length rest = m))"

definition rs_lawful :: "libs \<Rightarrow> nat \<Rightarrow> nat \<Rightarrow> bool" where
  "rs_lawful L k m \<longleftrightarrow> rs_new L k m \<and>
     (\<forall>data n. length data = k \<and> 0 < n \<and> (\<forall>b\<in>set data. length b = n) \<longrightarrow>
        (\<exists>parity. rs_encodes L k m data parity n)) \<and>
     rs_total L k m"

text \<open>A code object of the program: made by \<^const>\<open>rs_code_new\<close> from a valid scheme.\<close>

definition code_valid :: "libs \<Rightarrow> rs_code \<Rightarrow> bool" where
  "code_valid L code \<longleftrightarrow>
     scheme_valid (code_scheme code) \<and> rs_code_new L (code_scheme code) = Ok code \<and>
     (0 < parity_shards (code_scheme code) \<longrightarrow>
        rs_lawful L (data_shards (code_scheme code)) (parity_shards (code_scheme code)))"

section \<open>Schemes: lemmas\<close>

lemma scheme_new_Ok_iff:
  "scheme_new d p = Ok s \<longleftrightarrow>
     1 \<le> d \<and> d \<le> 32 \<and> p \<le> 8 \<and> s = \<lparr>scheme_data_shards = d, scheme_parity_shards = p\<rparr>"
  by (auto simp: scheme_new_def MAX_DATA_SHARDS_def MAX_PARITY_SHARDS_def MAX_TOTAL_SHARDS_def Let_def)

lemma scheme_valid_iff:
  "scheme_valid s \<longleftrightarrow> 1 \<le> data_shards s \<and> data_shards s \<le> 32 \<and> parity_shards s \<le> 8"
  by (cases s) (auto simp: scheme_valid_def scheme_new_Ok_iff)

lemma scheme_valid_total: "scheme_valid s \<Longrightarrow> total_shards s \<le> 40 \<and> 0 < total_shards s"
  by (auto simp: scheme_valid_iff total_shards_def)

lemma scheme_new_valid: "scheme_new d p = Ok s \<Longrightarrow> scheme_valid s"
  by (auto simp: scheme_valid_iff scheme_new_Ok_iff)

lemma shard_indices_valid: "scheme_valid s \<Longrightarrow> shard_indices s = [0..<total_shards s]"
proof -
  assume s: "scheme_valid s"
  then have "total_shards s \<le> 256" using scheme_valid_total by fastforce
  then have "\<forall>i\<in>set [0..<total_shards s]. i mod 256 = i" by auto
  then show ?thesis unfolding shard_indices_def by (intro map_idI) auto
qed

lemma data_shard_indices_valid: "scheme_valid s \<Longrightarrow> data_shard_indices s = [0..<data_shards s]"
proof -
  assume "scheme_valid s"
  then have "data_shards s \<le> 256" by (simp add: scheme_valid_iff)
  then have "\<forall>i\<in>set [0..<data_shards s]. i mod 256 = i" by auto
  then show ?thesis unfolding data_shard_indices_def by (intro map_idI) auto
qed

section \<open>Laying blocks out by position\<close>

lemma lay_out_from:
  assumes "length slots = total_shards s" "distinct (map fst present)"
    and "\<forall>(i, b) \<in> set present. i < total_shards s \<and> slots ! i = None \<and> length b = n"
    and "block_len = None \<or> block_len = Some n"
  shows "fold_res (lay_out_step s) present (slots, block_len) =
    Ok (map (\<lambda>i. case map_of present i of Some b \<Rightarrow> Some b | None \<Rightarrow> slots ! i) [0..<total_shards s],
        if present = [] then block_len else Some n)"
  using assms
proof (induction present arbitrary: slots block_len)
  case Nil
  then show ?case using map_nth [of slots] by simp
next
  case (Cons x present)
  obtain i b where x: "x = (i, b)" by (cases x)
  let ?slots = "slots[i := Some b]"
  have step: "lay_out_step s x (slots, block_len) = Ok (?slots, Some n)"
    using Cons.prems by (auto simp: x lay_out_step_def scheme_contains_def)
  have fresh: "\<forall>(j, c) \<in> set present. j < total_shards s \<and> ?slots ! j = None \<and> length c = n"
    using Cons.prems x by (force simp: nth_list_update)
  have i: "i < length slots" using Cons.prems x by auto
  have "map_of present i = None"
    using Cons.prems(2) x by (simp add: map_of_eq_None_iff)
  moreover have "fold_res (lay_out_step s) (x # present) (slots, block_len) =
    Ok (map (\<lambda>j. case map_of present j of Some c \<Rightarrow> Some c | None \<Rightarrow> ?slots ! j) [0..<total_shards s],
        Some n)"
    using Cons.IH [of ?slots "Some n"] Cons.prems fresh by (auto simp: step)
  ultimately show ?case using i Cons.prems(1)
    by (auto simp: x nth_list_update simp del: fold_res.simps split: option.splits)
qed

lemma lay_out_distinct:
  assumes "distinct (map fst present)" "\<forall>(i, b) \<in> set present. i < total_shards s \<and> length b = n"
  shows "lay_out s present =
    Ok (map (map_of present) [0..<total_shards s], if present = [] then None else Some n)"
proof -
  let ?empty = "replicate (total_shards s) (None :: bytes option)"
  have "fold_res (lay_out_step s) present (?empty, None) =
    Ok (map (\<lambda>i. case map_of present i of Some b \<Rightarrow> Some b | None \<Rightarrow> ?empty ! i) [0..<total_shards s],
        if present = [] then None else Some n)"
    by (rule lay_out_from) (use assms in auto)
  moreover have "map (\<lambda>i. case map_of present i of Some b \<Rightarrow> Some b | None \<Rightarrow> ?empty ! i) [0..<total_shards s]
    = map (map_of present) [0..<total_shards s]"
    by (rule map_cong) (auto split: option.splits)
  ultimately show ?thesis by (simp only: lay_out_def)
qed

lemma count_some_update:
  "i < length slots \<Longrightarrow> slots ! i = None \<Longrightarrow> count_some (slots[i := Some b]) = Suc (count_some slots)"
proof (induction slots arbitrary: i)
  case (Cons x slots)
  then show ?case by (cases i) (auto simp: count_some_def)
qed simp

lemma lay_out_step_Ok:
  assumes "lay_out_step s x (slots, bl) = Ok (slots', bl')" "length slots = total_shards s"
    and "\<forall>b. Some b \<in> set slots \<longrightarrow> bl = Some (length b)"
  shows "length slots' = total_shards s \<and> count_some slots' = Suc (count_some slots) \<and>
    (\<forall>b. Some b \<in> set slots' \<longrightarrow> bl' = Some (length b)) \<and> bl' \<noteq> None"
proof -
  obtain i b where x: "x = (i, b)" by (cases x)
  have i: "i < length slots" "slots ! i = None" "slots' = slots[i := Some b]" "bl' = Some (length b)"
    using assms by (auto simp: x lay_out_step_def scheme_contains_def split: if_splits option.splits)
  have "bl' = Some (length c)" if "Some c \<in> set slots'" for c
  proof -
    have "c = b \<or> Some c \<in> set slots"
      using that i set_update_subset_insert [of slots i "Some b"] by auto
    moreover have "bl = bl'" if "Some c \<in> set slots"
      using that assms by (auto simp: x lay_out_step_def i(4) split: if_splits option.splits)
    ultimately show ?thesis using assms(3) i(4) by auto
  qed
  then show ?thesis using i assms(2) count_some_update [of i slots b] by simp
qed

lemma lay_out_fold_Ok:
  assumes "fold_res (lay_out_step s) present (slots, bl) = Ok (slots', bl')"
    and "length slots = total_shards s" "\<forall>b. Some b \<in> set slots \<longrightarrow> bl = Some (length b)"
  shows "length slots' = total_shards s \<and> count_some slots' = count_some slots + length present \<and>
    (\<forall>b. Some b \<in> set slots' \<longrightarrow> bl' = Some (length b)) \<and> (bl' = None \<longrightarrow> bl = None \<and> present = [])"
  using assms
proof (induction present arbitrary: slots bl)
  case (Cons x present)
  from Cons.prems(1) obtain slots1 bl1
    where step: "lay_out_step s x (slots, bl) = Ok (slots1, bl1)"
      and rest: "fold_res (lay_out_step s) present (slots1, bl1) = Ok (slots', bl')"
    by (auto simp: res_simps)
  note one = lay_out_step_Ok [OF step Cons.prems(2,3)]
  have "length slots' = total_shards s \<and> count_some slots' = count_some slots1 + length present \<and>
    (\<forall>b. Some b \<in> set slots' \<longrightarrow> bl' = Some (length b)) \<and> (bl' = None \<longrightarrow> bl1 = None \<and> present = [])"
    by (rule Cons.IH [OF rest]) (use one in auto)
  then show ?case using one by auto
qed simp

lemma lay_out_Ok:
  assumes "lay_out s present = Ok (slots, bl)"
  shows "length slots = total_shards s" "count_some slots = length present"
    "\<And>b. Some b \<in> set slots \<Longrightarrow> bl = Some (length b)" "bl = None \<Longrightarrow> present = []"
  using lay_out_fold_Ok [OF assms [unfolded lay_out_def]] by (auto simp: count_some_def)

lemma check_wanted_Ok [res_simps]:
  "check_wanted s wanted = Ok u \<longleftrightarrow> (\<forall>i\<in>set wanted. i < total_shards s)"
  unfolding check_wanted_def
  by (induction wanted) (auto simp: scheme_contains_def)

lemma check_wanted_not_Panic [simp]: "check_wanted s wanted \<noteq> Panic"
  unfolding check_wanted_def by (induction wanted) auto

lemma lay_out_not_Panic [simp]: "lay_out s present \<noteq> Panic"
proof -
  have "fold_res (lay_out_step s) present st \<noteq> Panic" for st
  proof (induction present arbitrary: st)
    case (Cons x present)
    have "lay_out_step s x st \<noteq> Panic"
      by (cases x; cases st) (auto simp: lay_out_step_def split: option.splits)
    then show ?case using Cons by (auto simp: bind_res_eq_Panic)
  qed simp
  then show ?thesis by (simp add: lay_out_def)
qed

section \<open>Counting present slots\<close>

lemma count_some_le: "count_some slots \<le> length slots"
  by (simp add: count_some_def)

lemma count_some_full: "count_some slots = length slots \<Longrightarrow> i < length slots \<Longrightarrow> slots ! i \<noteq> None"
  using length_filter_less [of "slots ! i" slots "\<lambda>x. x \<noteq> None"] by (auto simp: count_some_def)

lemma count_some_map_of:
  assumes "distinct (map fst xs)" "\<forall>i\<in>set (map fst xs). i < n"
  shows "count_some (map (map_of xs) [0..<n]) = length xs"
proof -
  have dom: "{i. i < n \<and> map_of xs i \<noteq> None} = set (map fst xs)"
    using assms(2) by (auto simp: map_of_eq_None_iff)
  have "count_some (map (map_of xs) [0..<n]) = card {i. i < n \<and> map_of xs i \<noteq> None}"
    by (simp add: count_some_def length_filter_conv_card cong: conj_cong)
  then show ?thesis using dom assms(1) distinct_card [of "map fst xs"] by simp
qed

section \<open>Parity\<close>

lemma code_valid_cases:
  assumes "code_valid L code"
  obtains (jbod) "parity_shards (code_scheme code) = 0" "code_reed_solomon code = None"
  | (coded) "0 < parity_shards (code_scheme code)"
      "code_reed_solomon code = Some (data_shards (code_scheme code), parity_shards (code_scheme code))"
      "rs_lawful L (data_shards (code_scheme code)) (parity_shards (code_scheme code))"
proof (cases "parity_shards (code_scheme code) = 0")
  case True
  then have "code_reed_solomon code = None"
    using assms by (auto simp: code_valid_def rs_code_new_def) (metis rs_code.select_convs(2))
  with True show ?thesis by (rule jbod)
next
  case False
  then have "code = \<lparr>code_scheme = code_scheme code,
      code_reed_solomon = Some (data_shards (code_scheme code), parity_shards (code_scheme code))\<rparr>"
    using assms by (auto simp: code_valid_def rs_code_new_def split: if_splits)
  then have "code_reed_solomon code = Some (data_shards (code_scheme code), parity_shards (code_scheme code))"
    by (metis rs_code.select_convs(2))
  with False show ?thesis using assms coded by (simp add: code_valid_def)
qed

lemma rs_code_new_total:
  assumes "scheme_valid s" "0 < parity_shards s \<longrightarrow> rs_lawful L (data_shards s) (parity_shards s)"
  shows "\<exists>code. rs_code_new L s = Ok code \<and> code_scheme code = s \<and> code_valid L code"
  using assms by (auto simp: rs_code_new_def code_valid_def rs_lawful_def)

lemma compute_parity_encodes:
  assumes code: "code_valid L code"
    and len: "length data = data_shards (code_scheme code)"
    and eq: "\<forall>b\<in>set data. length b = n" and n: "0 < n"
  shows "\<exists>parity. compute_parity L code data = Ok parity \<and>
    length parity = parity_shards (code_scheme code) \<and> (\<forall>b\<in>set parity. length b = n) \<and>
    (0 < parity_shards (code_scheme code) \<longrightarrow>
       rs_encodes L (data_shards (code_scheme code)) (parity_shards (code_scheme code)) data parity n)"
proof -
  have "data \<noteq> []" using code len by (auto simp: code_valid_def scheme_valid_iff)
  then obtain b bs where data: "data = b # bs" by (cases data) auto
  from code show ?thesis
  proof (cases rule: code_valid_cases)
    case jbod
    then show ?thesis using len eq n data by (auto simp: compute_parity_def Let_def)
  next
    case coded
    then obtain parity
      where "rs_encodes L (data_shards (code_scheme code)) (parity_shards (code_scheme code)) data parity n"
      using len eq n unfolding rs_lawful_def by blast
    then show ?thesis using coded len eq n data
      by (auto simp: compute_parity_def Let_def rs_encodes_def)
  qed
qed

section \<open>Reconstruction\<close>

lemma collect_wanted_all:
  "(\<And>i. i \<in> set wanted \<Longrightarrow> slots ! i = Some (f i)) \<Longrightarrow> collect_wanted slots wanted = Ok (map f wanted)"
  by (auto simp: collect_wanted_def list_all_iff)

lemma rs_encodes_reconstruct:
  assumes "rs_encodes L k m data parity n" "slots_of slots (data @ parity)" "k \<le> count_some slots"
  shows "rs_reconstruct L k m slots = Some (map Some (data @ parity))"
    and "\<exists>rest. rs_reconstruct_data L k m slots = Some (map Some data @ rest)"
  using assms unfolding rs_encodes_def by blast+

lemma reconstruct_encoded_full:
  assumes code: "code_valid L code"
    and len: "length data = data_shards (code_scheme code)"
    and eq: "\<forall>b\<in>set data. length b = n" and n: "0 < n"
    and parity: "compute_parity L code data = Ok parity"
    and present: "\<forall>(i, b) \<in> set present. i < total_shards (code_scheme code) \<and> b = (data @ parity) ! i"
    and dist: "distinct (map fst present)"
    and enough: "data_shards (code_scheme code) \<le> length present"
    and wanted: "\<forall>i\<in>set wanted. i < total_shards (code_scheme code)"
  shows "reconstruct L code present wanted = Ok (map (\<lambda>i. (data @ parity) ! i) wanted)"
proof -
  let ?s = "code_scheme code" and ?blocks = "data @ parity"
  let ?k = "data_shards ?s" and ?m = "parity_shards ?s"
  let ?slots = "map (map_of present) [0..<total_shards ?s]"
  note enc = compute_parity_encodes [OF code len eq n]
  have plen: "length ?blocks = total_shards ?s" and all_n: "\<forall>b\<in>set ?blocks. length b = n"
    using enc parity len eq by (auto simp: total_shards_def)
  have kpos: "0 < ?k" using code by (auto simp: code_valid_def scheme_valid_iff)
  have lay: "lay_out ?s present = Ok (?slots, if present = [] then None else Some n)"
  proof (rule lay_out_distinct [OF dist], clarify)
    fix i b
    assume "(i, b) \<in> set present"
    then have "i < total_shards ?s" "b = ?blocks ! i" using present by auto
    then show "i < total_shards ?s \<and> length b = n" using all_n plen by (metis nth_mem)
  qed
  have count: "count_some ?slots = length present"
    by (rule count_some_map_of [OF dist]) (use present in auto)
  have slot: "?slots ! i = None \<or> ?slots ! i = Some (?blocks ! i)" if "i < total_shards ?s" for i
    using that present by (cases "map_of present i") (auto dest!: map_of_SomeD)
  then have slots_of: "slots_of ?slots ?blocks"
    unfolding slots_of_def plen by (simp del: nth_map)
  show ?thesis
  proof (cases "list_ex (\<lambda>i. ?slots ! i = None) wanted")
    case False
    then have "?slots ! i = Some (?blocks ! i)" if "i \<in> set wanted" for i
      using that slot [of i] wanted unfolding list_ex_iff by blast
    then have "collect_wanted ?slots wanted = Ok (map (\<lambda>i. ?blocks ! i) wanted)"
      by (rule collect_wanted_all)
    moreover have "check_wanted ?s wanted = Ok ()" using wanted by (simp add: res_simps)
    ultimately show ?thesis using False lay by (simp add: reconstruct_def del: nth_map)
  next
    case True
    from code show ?thesis
    proof (cases rule: code_valid_cases)
      case jbod
      then have "count_some ?slots = length ?slots"
        using count enough count_some_le [of ?slots] by (simp add: total_shards_def)
      then have False using True wanted count_some_full [of ?slots]
        by (auto simp: list_ex_iff simp del: nth_map)
      then show ?thesis ..
    next
      case coded
      have encodes: "rs_encodes L ?k ?m data parity n" using enc parity coded by auto
      have rec: "rs_reconstruct L ?k ?m ?slots = Some (map Some ?blocks)"
        using encodes slots_of by (rule rs_encodes_reconstruct) (simp only: count enough)
      obtain rest where rest: "rs_reconstruct_data L ?k ?m ?slots = Some (map Some data @ rest)"
        using rs_encodes_reconstruct(2) [OF encodes slots_of] count enough by auto
      let ?out = "if list_all (\<lambda>i. \<not> is_parity ?s i) wanted then map Some data @ rest else map Some ?blocks"
      have fill: "fill_missing L code (length present) (if present = [] then None else Some n) ?slots wanted
        = Ok ?out"
        using coded rec rest enough n by (auto simp: fill_missing_def Let_def)
      have "?out ! i = Some (?blocks ! i)" if "i \<in> set wanted" for i
        using that wanted plen len
        by (auto simp: nth_append is_parity_def is_data_def scheme_contains_def list_all_iff)
      then have "collect_wanted ?out wanted = Ok (map (\<lambda>i. ?blocks ! i) wanted)"
        by (rule collect_wanted_all)
      moreover have "check_wanted ?s wanted = Ok ()" using wanted by (simp add: res_simps)
      ultimately show ?thesis using True lay fill by (simp add: reconstruct_def del: nth_map)
    qed
  qed
qed

lemma fill_missing_not_Panic:
  assumes code: "code_valid L code" and lay: "lay_out (code_scheme code) present = Ok (slots, bl)"
    and wanted: "\<forall>i\<in>set wanted. i < total_shards (code_scheme code)"
    and missing: "list_ex (\<lambda>i. slots ! i = None) wanted"
  shows "bind_res (fill_missing L code (length present) bl slots wanted)
    (\<lambda>slots. collect_wanted slots wanted) \<noteq> Panic"
proof -
  let ?s = "code_scheme code"
  let ?k = "data_shards ?s" and ?m = "parity_shards ?s"
  note out = lay_out_Ok [OF lay]
  have kpos: "0 < ?k" using code by (auto simp: code_valid_def scheme_valid_iff)
  show ?thesis
  proof (cases "length present < ?k \<or> bl = Some 0")
    case True
    then show ?thesis by (auto simp: fill_missing_def Let_def)
  next
    case False
    then have enough: "?k \<le> count_some slots" using out(2) by simp
    from False out(4) kpos obtain n where n: "bl = Some n" "0 < n" by (cases bl) auto
    from code show ?thesis
    proof (cases rule: code_valid_cases)
      case jbod
      then have "count_some slots = length slots"
        using enough count_some_le [of slots] out(1) by (simp add: total_shards_def)
      then show ?thesis using missing wanted count_some_full [of slots] out(1)
        by (auto simp: list_ex_iff)
    next
      case coded
      have "length slots = ?k + ?m \<and> (\<forall>b. Some b \<in> set slots \<longrightarrow> length b = n)"
        using out(1,3) n by (auto simp: total_shards_def)
      with enough n coded(3) obtain blocks data rest
        where rec: "rs_reconstruct L ?k ?m slots = Some (map Some blocks)" "length blocks = ?k + ?m"
          and recd: "rs_reconstruct_data L ?k ?m slots = Some (map Some data @ rest)" "length data = ?k"
        unfolding rs_lawful_def rs_total_def by blast
      have "collect_wanted (map Some data @ rest) wanted \<noteq> Panic"
        if "list_all (\<lambda>i. \<not> is_parity ?s i) wanted"
        using that wanted recd(2)
        by (auto simp: collect_wanted_def list_all_iff nth_append is_parity_def is_data_def scheme_contains_def)
      moreover have "collect_wanted (map Some blocks) wanted \<noteq> Panic"
        using wanted rec(2) by (auto simp: collect_wanted_def list_all_iff total_shards_def)
      ultimately show ?thesis using False coded(2) rec(1) recd(1)
        by (auto simp: fill_missing_def Let_def)
    qed
  qed
qed

lemma reconstruct_not_Panic:
  assumes code: "code_valid L code"
  shows "reconstruct L code present wanted \<noteq> Panic"
proof (cases "lay_out (code_scheme code) present")
  case (Ok st)
  obtain slots bl where st: "st = (slots, bl)" by (cases st)
  show ?thesis
  proof (cases "check_wanted (code_scheme code) wanted")
    case [simp]: (Ok u)
    then have wanted: "\<forall>i\<in>set wanted. i < total_shards (code_scheme code)"
      by (simp add: res_simps del: Ok)
    have "collect_wanted slots wanted \<noteq> Panic" if "\<not> list_ex (\<lambda>i. slots ! i = None) wanted"
      using that by (auto simp: collect_wanted_def list_all_iff list_ex_iff)
    then show ?thesis
      using fill_missing_not_Panic [OF code, of present slots bl wanted] wanted
        \<open>lay_out (code_scheme code) present = Ok st\<close>
      by (auto simp: reconstruct_def st)
  qed (use \<open>lay_out (code_scheme code) present = Ok st\<close> st in \<open>auto simp: reconstruct_def\<close>)
qed (auto simp: reconstruct_def)

lemma reconstruct_total:
  assumes code: "code_valid L code" and dist: "distinct (map fst present)"
    and present: "\<forall>(i, b) \<in> set present. i < total_shards (code_scheme code) \<and> length b = n" and n: "0 < n"
    and enough: "data_shards (code_scheme code) \<le> length present"
    and wanted: "\<forall>i\<in>set wanted. i < total_shards (code_scheme code)"
  shows "\<exists>blocks. reconstruct L code present wanted = Ok blocks \<and> length blocks = length wanted"
proof -
  have lay: "lay_out (code_scheme code) present =
      Ok (map (map_of present) [0..<total_shards (code_scheme code)], if present = [] then None else Some n)"
    by (rule lay_out_distinct [OF dist present])
  have check: "check_wanted (code_scheme code) wanted = Ok ()" using wanted by (simp add: res_simps)
  have "reconstruct L code present wanted \<noteq> Err e" for e
    using enough n unfolding reconstruct_def lay check
    by (auto simp: bind_res_eq_Err fill_missing_def collect_wanted_def Let_def split: option.splits if_splits)
  then obtain blocks where blocks: "reconstruct L code present wanted = Ok blocks"
    using reconstruct_not_Panic [OF code] by (cases "reconstruct L code present wanted") auto
  then have "length blocks = length wanted"
    by (auto simp: reconstruct_def res_simps collect_wanted_def split: if_splits prod.splits)
  with blocks show ?thesis by blast
qed

section \<open>A concrete code\<close>

text \<open>
  Two codes small enough to compute by hand satisfy the laws: one data shard
  with m copies, and two data shards with their exclusive or as the parity.
  They instantiate the crate's parameters in the examples of the development,
  with an arithmetic checksum and digest in place of XXH3 and SHA-256.
\<close>

definition xor_block :: "bytes \<Rightarrow> bytes \<Rightarrow> bytes" where
  "xor_block a b = map2 xor a b"

fun xor_fill :: "bytes option list \<Rightarrow> bytes option list" where
  "xor_fill [None, Some b, Some p] = [Some (xor_block b p), Some b, Some p]"
| "xor_fill [Some a, None, Some p] = [Some a, Some (xor_block a p), Some p]"
| "xor_fill [Some a, Some b, None] = [Some a, Some b, Some (xor_block a b)]"
| "xor_fill slots = slots"

definition copy_fill :: "bytes option list \<Rightarrow> bytes option list" where
  "copy_fill slots = (case filter (\<lambda>x. x \<noteq> None) slots of
     [] \<Rightarrow> slots | x # _ \<Rightarrow> replicate (length slots) x)"

definition demo_checksum :: "bytes \<Rightarrow> checksum64" where
  "demo_checksum bs = word_of_nat (foldr (\<lambda>b acc. unat b + 257 * acc + 1) bs 0)"

definition demo_libs :: libs where
  "demo_libs = \<lparr>
     xxh3_64 = demo_checksum,
     sha256 = (\<lambda>bs. le_bytes 32 (foldr (\<lambda>b acc. unat b + 257 * acc + 1) bs 0)),
     rs_new = (\<lambda>k m. True),
     rs_encode_sep = (\<lambda>k m data. case data of
         [a] \<Rightarrow> Some (replicate m a) | [a, b] \<Rightarrow> Some [xor_block a b] | _ \<Rightarrow> None),
     rs_reconstruct = (\<lambda>k m slots. Some (if k = 1 then copy_fill slots else xor_fill slots)),
     rs_reconstruct_data = (\<lambda>k m slots. Some (if k = 1 then copy_fill slots else xor_fill slots))\<rparr>"

lemma xor_block_cancel:
  "length a = length b \<Longrightarrow> xor_block b (xor_block a b) = a"
  "length a = length b \<Longrightarrow> xor_block a (xor_block a b) = b"
  unfolding xor_block_def
  by (induction a b rule: list_induct2; simp add: xor.left_commute)+

lemma length_xor_block [simp]: "length (xor_block a b) = min (length a) (length b)"
  by (simp add: xor_block_def)

lemma length3_cases: "length xs = 3 \<Longrightarrow> \<exists>a b c. xs = [a, b, c]"
  by (auto simp: numeral_3_eq_3 length_Suc_conv)

lemma xor_fill_total:
  assumes "length slots = 3" "2 \<le> count_some slots"
  shows "\<exists>a b c. xor_fill slots = [Some a, Some b, Some c]"
proof -
  from length3_cases [OF assms(1)] obtain x y z where "slots = [x, y, z]" by blast
  then show ?thesis using assms(2)
    by (cases x; cases y; cases z) (auto simp: count_some_def)
qed

lemma xor_fill_encoded:
  assumes "slots_of slots [a, b, xor_block a b]" "2 \<le> count_some slots" "length a = length b"
  shows "xor_fill slots = [Some a, Some b, Some (xor_block a b)]"
proof -
  have "length slots = 3" using assms(1) by (simp add: slots_of_def)
  from length3_cases [OF this] obtain x y z where xyz: "slots = [x, y, z]" by blast
  have "x = None \<or> x = Some a" "y = None \<or> y = Some b" "z = None \<or> z = Some (xor_block a b)"
    using assms(1) unfolding xyz slots_of_def by (force simp: less_Suc_eq)+
  then show ?thesis using assms(2,3) xyz
    by (elim disjE) (auto simp: count_some_def xor_block_cancel)
qed

lemma rs_totalI:
  assumes "\<And>slots. length slots = k + m \<Longrightarrow> k \<le> count_some slots \<Longrightarrow>
    \<exists>blocks. rs_reconstruct L k m slots = Some (map Some blocks) \<and>
      rs_reconstruct_data L k m slots = Some (map Some blocks) \<and> length blocks = k + m"
  shows "rs_total L k m"
  unfolding rs_total_def
proof (intro allI impI)
  fix slots :: "bytes option list" and n
  assume "length slots = k + m \<and> 0 < n \<and> (\<forall>b. Some b \<in> set slots \<longrightarrow> length b = n) \<and> k \<le> count_some slots"
  then obtain blocks where b: "rs_reconstruct L k m slots = Some (map Some blocks)"
    "rs_reconstruct_data L k m slots = Some (map Some blocks)" "length blocks = k + m"
    using assms by blast
  moreover have "map Some blocks = map Some (take k blocks) @ map Some (drop k blocks)"
    by (metis append_take_drop_id map_append)
  ultimately show "(\<exists>blocks. rs_reconstruct L k m slots = Some (map Some blocks) \<and> length blocks = k + m) \<and>
    (\<exists>data rest. rs_reconstruct_data L k m slots = Some (map Some data @ rest) \<and>
       length data = k \<and> length rest = m)"
    by (intro conjI exI [of _ blocks] exI [of _ "take k blocks"] exI [of _ "map Some (drop k blocks)"]) auto
qed

lemma demo_lawful_2_1: "rs_lawful demo_libs 2 1"
  unfolding rs_lawful_def
proof (intro conjI allI impI)
  fix data :: "bytes list" and n
  assume data: "length data = 2 \<and> 0 < n \<and> (\<forall>b\<in>set data. length b = n)"
  then obtain a b where ab: "data = [a, b]" "length a = length b" "length b = n"
    by (auto simp: numeral_2_eq_2 length_Suc_conv)
  have "rs_encodes demo_libs 2 1 data [xor_block a b] n"
    unfolding rs_encodes_def using ab by (auto simp: demo_libs_def xor_fill_encoded)
  then show "\<exists>parity. rs_encodes demo_libs 2 1 data parity n" ..
next
  show "rs_total demo_libs 2 1"
  proof (rule rs_totalI)
    fix slots :: "bytes option list"
    assume "length slots = 2 + 1" "2 \<le> count_some slots"
    then obtain a b c where "xor_fill slots = [Some a, Some b, Some c]"
      using xor_fill_total [of slots] by auto
    then show "\<exists>blocks. rs_reconstruct demo_libs 2 1 slots = Some (map Some blocks) \<and>
        rs_reconstruct_data demo_libs 2 1 slots = Some (map Some blocks) \<and> length blocks = 2 + 1"
      by (intro exI [of _ "[a, b, c]"]) (simp add: demo_libs_def)
  qed
qed (simp add: demo_libs_def)

lemma copy_fill_first:
  assumes "1 \<le> count_some slots"
  obtains b where "Some b \<in> set slots" "copy_fill slots = replicate (length slots) (Some b)"
proof (cases "filter (\<lambda>x. x \<noteq> None) slots")
  case Nil
  then show ?thesis using assms by (simp add: count_some_def)
next
  case (Cons x xs)
  then have "x \<in> set (filter (\<lambda>x. x \<noteq> None) slots)" by simp
  then obtain b where "Some b \<in> set slots" "x = Some b" by auto
  then show ?thesis using Cons by (auto simp: copy_fill_def intro: that)
qed

lemma slots_of_set: "slots_of slots blocks \<Longrightarrow> Some b \<in> set slots \<Longrightarrow> b \<in> set blocks"
  by (force simp: slots_of_def in_set_conv_nth)

lemma demo_lawful_1_2: "rs_lawful demo_libs 1 2"
  unfolding rs_lawful_def
proof (intro conjI allI impI)
  fix data :: "bytes list" and n
  assume data: "length data = 1 \<and> 0 < n \<and> (\<forall>b\<in>set data. length b = n)"
  then obtain a where a: "data = [a]" "length a = n" by (auto simp: length_Suc_conv)
  have copies: "copy_fill slots = [Some a, Some a, Some a]"
    if slots: "slots_of slots [a, a, a]" and count: "1 \<le> count_some slots" for slots
  proof -
    obtain b where "Some b \<in> set slots" "copy_fill slots = replicate (length slots) (Some b)"
      using copy_fill_first [OF count] .
    moreover have "length slots = 3" using slots by (simp add: slots_of_def)
    ultimately show ?thesis using slots_of_set [OF slots] by (simp add: numeral_3_eq_3)
  qed
  have "rs_encodes demo_libs 1 2 data [a, a] n"
    unfolding rs_encodes_def using a copies by (auto simp: demo_libs_def numeral_2_eq_2)
  then show "\<exists>parity. rs_encodes demo_libs 1 2 data parity n" ..
next
  show "rs_total demo_libs 1 2"
  proof (rule rs_totalI)
    fix slots :: "bytes option list"
    assume len: "length slots = 1 + 2" and count: "1 \<le> count_some slots"
    obtain b where "copy_fill slots = replicate (length slots) (Some b)"
      using copy_fill_first [OF count] .
    then show "\<exists>blocks. rs_reconstruct demo_libs 1 2 slots = Some (map Some blocks) \<and>
        rs_reconstruct_data demo_libs 1 2 slots = Some (map Some blocks) \<and> length blocks = 1 + 2"
      using len by (intro exI [of _ "[b, b, b]"]) (simp add: demo_libs_def numeral_3_eq_3)
  qed
qed (simp add: demo_libs_def)

definition demo_scheme :: scheme where
  "demo_scheme = \<lparr>scheme_data_shards = 2, scheme_parity_shards = 1\<rparr>"

definition demo_code :: rs_code where
  "demo_code = \<lparr>code_scheme = demo_scheme, code_reed_solomon = Some (2, 1)\<rparr>"

lemma demo_scheme_valid [simp]: "scheme_valid demo_scheme"
  by (simp add: demo_scheme_def scheme_valid_iff)

lemma demo_code_valid [simp]: "code_valid demo_libs demo_code"
  using demo_lawful_2_1
  by (simp add: code_valid_def demo_code_def demo_scheme_def scheme_valid_iff rs_code_new_def demo_libs_def)

lemma demo_code_sizes [simp]:
  "code_scheme demo_code = demo_scheme" "data_shards demo_scheme = 2"
  "parity_shards demo_scheme = 1" "total_shards demo_scheme = 3"
  by (simp_all add: demo_code_def demo_scheme_def total_shards_def)

lemma demo_libs_simps:
  "xxh3_64 demo_libs = demo_checksum" "rs_new demo_libs k m"
  "rs_encode_sep demo_libs k m [a] = Some (replicate m a)"
  "rs_encode_sep demo_libs k m [a, b] = Some [xor_block a b]"
  by (simp_all add: demo_libs_def)

end
