(* ===== verification/Layout.thy ===== *)
theory Layout
  imports Checksum Version Erasure
begin

text \<open>
  Names under a device root (\<open>djbod-core/src/layout.rs\<close>): the directory of a
  key, the names of its record and shard files, and reading those names back.
  A path is the list of its components.
\<close>

definition OBJECTS_DIR :: string where "OBJECTS_DIR = ''objects''"
definition DEFAULT_BUCKET :: string where "DEFAULT_BUCKET = ''default''"
definition RECORD_SUFFIX :: string where "RECORD_SUFFIX = ''.meta.json''"
definition SHARD_SUFFIX :: string where "SHARD_SUFFIX = ''.shard''"

type_synonym path = "string list"

definition object_directory :: "path \<Rightarrow> string \<Rightarrow> key_hash \<Rightarrow> path" where
  "object_directory device_root bucket key_hash =
     device_root @ [OBJECTS_DIR, bucket] @ directory_components key_hash"

definition record_file_name :: "version_id \<Rightarrow> string" where
  "record_file_name version = version_to_text version @ RECORD_SUFFIX"

definition shard_file_name :: "version_id \<Rightarrow> shard_index \<Rightarrow> string" where
  "shard_file_name version index = version_to_text version @ ''.'' @ show_nat index @ SHARD_SUFFIX"

definition strip_suffix :: "string \<Rightarrow> string \<Rightarrow> string option" where
  "strip_suffix suf s =
     (if length suf \<le> length s \<and> drop (length s - length suf) s = suf
      then Some (take (length s - length suf) s) else None)"

definition split_once :: "char \<Rightarrow> string \<Rightarrow> (string \<times> string) option" where
  "split_once c s = (if c \<in> set s then Some (takeWhile (\<lambda>x. x \<noteq> c) s, tl (dropWhile (\<lambda>x. x \<noteq> c) s)) else None)"

definition parse_shard_file_name :: "string \<Rightarrow> (version_id \<times> shard_index) option" where
  "parse_shard_file_name name =
     (case strip_suffix SHARD_SUFFIX name of
        None \<Rightarrow> None
      | Some stem \<Rightarrow>
     (case split_once CHR ''.'' stem of
        None \<Rightarrow> None
      | Some (version_text, index_text) \<Rightarrow>
     (case version_from_text version_text of
        None \<Rightarrow> None
      | Some version \<Rightarrow>
     (case from_str_radix 10 256 index_text of
        None \<Rightarrow> None
      | Some index \<Rightarrow> Some (version, index)))))"

definition parse_record_file_name :: "string \<Rightarrow> version_id option" where
  "parse_record_file_name name =
     (case strip_suffix RECORD_SUFFIX name of
        None \<Rightarrow> None
      | Some version_text \<Rightarrow> version_from_text version_text)"

section \<open>Round trips\<close>

lemma strip_suffix_append [simp]: "strip_suffix suf (s @ suf) = Some s"
  by (simp add: strip_suffix_def)

lemma split_once_first: "c \<notin> set a \<Longrightarrow> split_once c (a @ c # b) = Some (a, b)"
  unfolding split_once_def by (induction a) auto

definition shard_name_wf :: "version_id \<times> shard_index \<Rightarrow> bool" where
  "shard_name_wf = (\<lambda>(version, index). version_wf version \<and> index < 256)"

lemma parse_shard_file_name_print:
  assumes "version_wf v" "i < 256"
  shows "parse_shard_file_name (shard_file_name v i) = Some (v, i)"
proof -
  have "strip_suffix SHARD_SUFFIX (shard_file_name v i) = Some (version_to_text v @ CHR ''.'' # show_nat i)"
    using strip_suffix_append [of SHARD_SUFFIX "version_to_text v @ CHR ''.'' # show_nat i"]
    by (simp add: shard_file_name_def)
  then show ?thesis using assms
    by (simp add: parse_shard_file_name_def split_once_first version_to_text_no_dot
        version_from_to_text parse_show_nat)
qed

interpretation record_name: codec version_wf record_file_name parse_record_file_name
  by unfold_locales
    (auto simp: record_file_name_def parse_record_file_name_def version_from_to_text
      dest: version_from_text_wf split: option.splits)

interpretation shard_name: codec shard_name_wf "\<lambda>(v, i). shard_file_name v i" parse_shard_file_name
proof unfold_locales
  show "shard_name_wf x \<Longrightarrow> parse_shard_file_name (case x of (v, i) \<Rightarrow> shard_file_name v i) = Some x" for x
    by (auto simp: shard_name_wf_def parse_shard_file_name_print)
  show "parse_shard_file_name t = Some x \<Longrightarrow> shard_name_wf x" for t x
    by (auto simp: shard_name_wf_def parse_shard_file_name_def
        dest: version_from_text_wf from_str_radix_lt [of 10 256, simplified] split: option.splits)
qed

text \<open>A name is never read as both a record and a shard.\<close>

lemma record_name_not_shard: "parse_shard_file_name (record_file_name v) = None"
  by (simp add: parse_shard_file_name_def strip_suffix_def record_file_name_def SHARD_SUFFIX_def RECORD_SUFFIX_def)

lemma strip_suffix_Some: "strip_suffix suf s = Some t \<longleftrightarrow> s = t @ suf"
  by (auto simp: strip_suffix_def) (metis append_take_drop_id)

lemma shard_name_not_record: "parse_record_file_name (shard_file_name v i) = None"
proof (cases "strip_suffix RECORD_SUFFIX (shard_file_name v i)")
  case (Some t)
  then have "last (shard_file_name v i) = last (t @ RECORD_SUFFIX)" by (simp add: strip_suffix_Some)
  then show ?thesis by (simp add: shard_file_name_def SHARD_SUFFIX_def RECORD_SUFFIX_def)
qed (simp add: parse_record_file_name_def)

lemma object_directory_inj:
  assumes "key_hash_wf h" "key_hash_wf h'" "object_directory r b h = object_directory r b h'"
  shows "h = h'"
  using assms keyhash_text.enc_inj by (auto simp: object_directory_def directory_components_def Let_def)

text \<open>C18: The names of records and of shards in a key's directory read back as what they were made
  from, and no record name reads as a shard name or the other way round.\<close>

theorem file_names_faithful:
  assumes "version_wf v" "i < 256"
  shows "parse_record_file_name (record_file_name v) = Some v \<and>
    parse_shard_file_name (shard_file_name v i) = Some (v, i) \<and>
    parse_shard_file_name (record_file_name v) = None \<and>
    parse_record_file_name (shard_file_name v i) = None"
  using assms record_name.dec_enc parse_shard_file_name_print record_name_not_shard shard_name_not_record
  by blast

theorem file_names_faithful_witness:
  "parse_record_file_name (record_file_name (replicate 16 3)) = Some (replicate 16 3) \<and>
   parse_shard_file_name (shard_file_name (replicate 16 3) 12) = Some (replicate 16 3, 12) \<and>
   parse_shard_file_name (record_file_name (replicate 16 3)) = None \<and>
   parse_record_file_name (shard_file_name (replicate 16 3) 12) = None"
  by (rule file_names_faithful) (simp_all add: version_wf_def)

end
