(* ===== verification/MetaRecord.thy ===== *)
theory MetaRecord
  imports Layout
begin

text \<open>
  The metadata record (\<open>djbod-core/src/record.rs\<close>): one JSON document per
  version, its canonical form and checksum, its on-disk text and its
  invariants.  \<open>serde_json\<close>, \<open>uuid\<close> and \<open>time\<close> are the parameter \<open>json_lib\<close>:
  reading JSON text into a value, printing an object, the text of one string
  or number, and the text forms of identifiers and times.  The derived
  \<open>Serialize\<close> and \<open>Deserialize\<close> of the record are \<open>record_fields\<close> and
  \<open>record_from_value\<close>.
\<close>

section \<open>JSON values\<close>

datatype json =
    JNull
  | JBool bool
  | JNum int
  | JStr string
  | JArr "json list"
  | JObj "(string \<times> json) list"

type_synonym uuid = nat
type_synonym device_id = uuid
type_synonym timestamp = int

record json_lib =
  js_parse :: "string \<Rightarrow> json option"
  js_pretty :: "(string \<times> json) list \<Rightarrow> string"
  js_string :: "string \<Rightarrow> string"
  js_scalar :: "json \<Rightarrow> string"
  uuid_text :: "uuid \<Rightarrow> string"
  uuid_parse :: "string \<Rightarrow> uuid option"
  time_text :: "timestamp \<Rightarrow> string"
  time_parse :: "string \<Rightarrow> timestamp option"

fun join :: "string \<Rightarrow> string list \<Rightarrow> string" where
  "join sep [] = []"
| "join sep [x] = x"
| "join sep (x # y # ys) = x @ sep @ join sep (y # ys)"

text \<open>Objects are written with their keys in byte order, whatever order they came in.\<close>

fun write_canonical :: "json_lib \<Rightarrow> json \<Rightarrow> string" where
  "write_canonical J (JObj members) =
     ''{'' @ join '','' (map (\<lambda>(key, text). js_string J key @ '':'' @ text)
       (sort_key fst (map (\<lambda>(key, v). (key, write_canonical J v)) members))) @ ''}''"
| "write_canonical J (JArr items) = ''['' @ join '','' (map (write_canonical J) items) @ '']''"
| "write_canonical J other = js_scalar J other"

section \<open>The record\<close>

definition RECORD_FORMAT_VERSION :: nat where "RECORD_FORMAT_VERSION = 1"
definition SYSTEM_NAME :: string where "SYSTEM_NAME = ''distributed-jbod''"
definition MAX_CONTENT_TYPE_BYTES :: nat where "MAX_CONTENT_TYPE_BYTES = 1024"
definition CHECKSUM_FIELD :: string where "CHECKSUM_FIELD = ''checksum''"

record shard_location =
  loc_index :: nat
  loc_device :: device_id

record metadata_record =
  rec_format_version :: nat
  rec_system :: string
  rec_bucket :: string
  rec_key :: string
  rec_key_hash :: key_hash
  rec_version :: version_id
  rec_created :: timestamp
  rec_size :: nat
  rec_object_checksum :: block_checksum
  rec_k :: nat
  rec_m :: nat
  rec_block_size :: nat
  rec_shards :: "shard_location list"
  rec_revision :: nat
  rec_content_type :: "string option"
  rec_user_metadata :: "(string \<times> string) list"

datatype record_error =
    RecJson
  | RecContentTypeTooLong nat
  | RecChecksumMismatch block_checksum block_checksum
  | RecWrongSystem string
  | RecUnsupportedFormatVersion nat
  | RecKeyHashMismatch key_hash key_hash
  | RecInvalidScheme scheme_error
  | RecBadBlockSize nat
  | RecWrongShardCount nat nat
  | RecMissingShardIndex nat
  | RecDuplicateShardIndex nat
  | RecDuplicateDevice device_id

definition same_body :: "metadata_record \<Rightarrow> metadata_record \<Rightarrow> bool" where
  "same_body r other \<longleftrightarrow>
     rec_version r = rec_version other \<and> rec_key r = rec_key other \<and>
     rec_key_hash r = rec_key_hash other \<and> rec_size r = rec_size other \<and>
     rec_object_checksum r = rec_object_checksum other \<and> rec_k r = rec_k other \<and>
     rec_m r = rec_m other \<and> rec_block_size r = rec_block_size other"

section \<open>Serialization\<close>

definition location_value :: "json_lib \<Rightarrow> shard_location \<Rightarrow> json" where
  "location_value J l = JObj [(''index'', JNum (int (loc_index l))), (''device'', JStr (uuid_text J (loc_device l)))]"

text \<open>The fields in declaration order; the two optional ones are left out when empty.\<close>

definition record_fields :: "json_lib \<Rightarrow> metadata_record \<Rightarrow> (string \<times> json) list" where
  "record_fields J r =
     [(''format_version'', JNum (int (rec_format_version r))),
      (''system'', JStr (rec_system r)),
      (''bucket'', JStr (rec_bucket r)),
      (''key'', JStr (rec_key r)),
      (''key_hash'', JStr (keyhash_to_hex (rec_key_hash r))),
      (''version'', JStr (version_to_text (rec_version r))),
      (''created'', JStr (time_text J (rec_created r))),
      (''size'', JNum (int (rec_size r))),
      (''object_checksum'', JStr (checksum_to_hex (rec_object_checksum r))),
      (''k'', JNum (int (rec_k r))),
      (''m'', JNum (int (rec_m r))),
      (''block_size'', JNum (int (rec_block_size r))),
      (''shards'', JArr (map (location_value J) (rec_shards r))),
      (''revision'', JNum (int (rec_revision r)))]
     @ (case rec_content_type r of None \<Rightarrow> [] | Some t \<Rightarrow> [(''content_type'', JStr t)])
     @ (if rec_user_metadata r = [] then []
        else [(''user_metadata'', JObj (map (\<lambda>(k, v). (k, JStr v)) (rec_user_metadata r)))])"

definition canonical_bytes :: "json_lib \<Rightarrow> metadata_record \<Rightarrow> bytes" where
  "canonical_bytes J r = as_bytes (write_canonical J (JObj (record_fields J r)))"

definition record_checksum :: "libs \<Rightarrow> json_lib \<Rightarrow> metadata_record \<Rightarrow> block_checksum" where
  "record_checksum L J r = checksum_block L (canonical_bytes J r)"

text \<open>The printed object loses its closing brace and gains the checksum as its last field.\<close>

definition is_ascii_space :: "char \<Rightarrow> bool" where
  "is_ascii_space c = (let n = of_char c :: nat in n = 32 \<or> 9 \<le> n \<and> n \<le> 13)"

definition trim_end :: "string \<Rightarrow> string" where
  "trim_end s = rev (dropWhile is_ascii_space (rev s))"

definition to_json :: "libs \<Rightarrow> json_lib \<Rightarrow> metadata_record \<Rightarrow> (record_error, string) res" where
  "to_json L J r =
     (let json = js_pretty J (record_fields J r) in
      bind_res (expect (strip_suffix ''}'' (trim_end json))) (\<lambda>stripped.
      Ok (take (length stripped) json @ '',\<newline>  \"'' @ CHECKSUM_FIELD @ ''\": \"''
          @ checksum_to_hex (record_checksum L J r) @ ''\"\<newline>}'')))"

section \<open>Deserialization\<close>

fun json_str :: "json \<Rightarrow> string option" where
  "json_str (JStr s) = Some s"
| "json_str _ = None"

fun json_uint :: "nat \<Rightarrow> json \<Rightarrow> nat option" where
  "json_uint bound (JNum n) = (if 0 \<le> n \<and> n < int bound then Some (nat n) else None)"
| "json_uint bound _ = None"

fun option_all :: "'a option list \<Rightarrow> 'a list option" where
  "option_all [] = Some []"
| "option_all (x # xs) = (case x of None \<Rightarrow> None | Some y \<Rightarrow> map_option ((#) y) (option_all xs))"

definition field :: "(string \<times> json) list \<Rightarrow> string \<Rightarrow> (json \<Rightarrow> 'a option) \<Rightarrow> 'a option" where
  "field members name conv = Option.bind (map_of members name) conv"

fun location_from_value :: "json_lib \<Rightarrow> json \<Rightarrow> shard_location option" where
  "location_from_value J (JObj members) =
     (case (field members ''index'' (json_uint 256),
            field members ''device'' (\<lambda>v. Option.bind (json_str v) (uuid_parse J))) of
        (Some i, Some d) \<Rightarrow> Some \<lparr>loc_index = i, loc_device = d\<rparr>
      | _ \<Rightarrow> None)"
| "location_from_value J _ = None"

fun locations_from_value :: "json_lib \<Rightarrow> json \<Rightarrow> shard_location list option" where
  "locations_from_value J (JArr items) = option_all (map (location_from_value J) items)"
| "locations_from_value J _ = None"

text \<open>An optional field: absent or null gives the default.\<close>

fun content_type_from :: "json option \<Rightarrow> string option option" where
  "content_type_from None = Some None"
| "content_type_from (Some JNull) = Some None"
| "content_type_from (Some v) = map_option Some (json_str v)"

fun btree_insert :: "string \<Rightarrow> 'v \<Rightarrow> (string \<times> 'v) list \<Rightarrow> (string \<times> 'v) list" where
  "btree_insert k v [] = [(k, v)]"
| "btree_insert k v ((k', v') # rest) =
     (if k < k' then (k, v) # (k', v') # rest
      else if k = k' then (k, v) # rest
      else (k', v') # btree_insert k v rest)"

definition btree_of :: "(string \<times> 'v) list \<Rightarrow> (string \<times> 'v) list" where
  "btree_of entries = foldl (\<lambda>m (k, v). btree_insert k v m) [] entries"

fun metadata_from :: "json option \<Rightarrow> (string \<times> string) list option" where
  "metadata_from None = Some []"
| "metadata_from (Some (JObj entries)) =
     map_option btree_of (option_all (map (\<lambda>(k, v). map_option (Pair k) (json_str v)) entries))"
| "metadata_from (Some _) = None"

definition keyhash_value :: "json \<Rightarrow> key_hash option" where
  "keyhash_value v = Option.bind (json_str v) (\<lambda>s. ok_option (keyhash_from_hex s))"

definition record_from_value :: "json_lib \<Rightarrow> (string \<times> json) list \<Rightarrow> metadata_record option" where
  "record_from_value J fs =
     Option.bind (field fs ''format_version'' (json_uint 4294967296)) (\<lambda>fv.
     Option.bind (field fs ''system'' json_str) (\<lambda>system.
     Option.bind (field fs ''bucket'' json_str) (\<lambda>bucket.
     Option.bind (field fs ''key'' json_str) (\<lambda>key.
     Option.bind (field fs ''key_hash'' keyhash_value) (\<lambda>key_hash.
     Option.bind (field fs ''version'' (\<lambda>v. Option.bind (json_str v) version_from_text)) (\<lambda>version.
     Option.bind (field fs ''created'' (\<lambda>v. Option.bind (json_str v) (time_parse J))) (\<lambda>created.
     Option.bind (field fs ''size'' (json_uint u64_modulus)) (\<lambda>osize.
     Option.bind (field fs ''object_checksum'' (\<lambda>v. Option.bind (json_str v) checksum_from_hex)) (\<lambda>osum.
     Option.bind (field fs ''k'' (json_uint 256)) (\<lambda>k.
     Option.bind (field fs ''m'' (json_uint 256)) (\<lambda>m.
     Option.bind (field fs ''block_size'' (json_uint u64_modulus)) (\<lambda>block_size.
     Option.bind (field fs ''shards'' (locations_from_value J)) (\<lambda>shards.
     Option.bind (field fs ''revision'' (json_uint u64_modulus)) (\<lambda>revision.
     Option.bind (content_type_from (map_of fs ''content_type'')) (\<lambda>content_type.
     Option.bind (metadata_from (map_of fs ''user_metadata'')) (\<lambda>user_metadata.
     Some \<lparr>rec_format_version = fv, rec_system = system, rec_bucket = bucket, rec_key = key,
           rec_key_hash = key_hash, rec_version = version, rec_created = created, rec_size = osize,
           rec_object_checksum = osum, rec_k = k, rec_m = m, rec_block_size = block_size,
           rec_shards = shards, rec_revision = revision, rec_content_type = content_type,
           rec_user_metadata = user_metadata\<rparr>))))))))))))))))"

text \<open>
  Reading the key hash can panic (see \<^const>\<open>keyhash_from_hex\<close>).  Members are
  read in the byte order of their names, so it does so unless a member before
  it is already of the wrong type.
\<close>

definition well_typed :: "(string \<times> json) list \<Rightarrow> string \<Rightarrow> (json \<Rightarrow> 'a option) \<Rightarrow> bool" where
  "well_typed fs name conv = (case map_of fs name of None \<Rightarrow> True | Some v \<Rightarrow> conv v \<noteq> None)"

definition key_hash_panics :: "json_lib \<Rightarrow> (string \<times> json) list \<Rightarrow> bool" where
  "key_hash_panics J fs =
     (well_typed fs ''block_size'' (json_uint u64_modulus) \<and> well_typed fs ''bucket'' json_str \<and>
      content_type_from (map_of fs ''content_type'') \<noteq> None \<and>
      well_typed fs ''created'' (\<lambda>v. Option.bind (json_str v) (time_parse J)) \<and>
      well_typed fs ''format_version'' (json_uint 4294967296) \<and> well_typed fs ''k'' (json_uint 256) \<and>
      well_typed fs ''key'' json_str \<and>
      (case Option.bind (map_of fs ''key_hash'') json_str of
         Some hex \<Rightarrow> keyhash_from_hex hex = Panic | None \<Rightarrow> False))"

definition record_deserialize :: "json_lib \<Rightarrow> (string \<times> json) list \<Rightarrow> (record_error, metadata_record) res" where
  "record_deserialize J fs =
     (if key_hash_panics J fs then Panic else ok_or RecJson (record_from_value J fs))"

section \<open>Validation\<close>

definition user_metadata_bytes :: "metadata_record \<Rightarrow> nat" where
  "user_metadata_bytes r = sum_list (map (\<lambda>(k, v). length k + length v) (rec_user_metadata r))"

definition validate_shard ::
  "scheme \<Rightarrow> shard_location \<Rightarrow> bool list \<times> device_id list \<Rightarrow> (record_error, bool list \<times> device_id list) res" where
  "validate_shard s shard = (\<lambda>(seen_index, seen_devices).
     if \<not> scheme_contains s (loc_index shard) then Err (RecMissingShardIndex (loc_index shard))
     else if seen_index ! loc_index shard then Err (RecDuplicateShardIndex (loc_index shard))
     else if loc_device shard \<in> set seen_devices then Err (RecDuplicateDevice (loc_device shard))
     else Ok (seen_index[loc_index shard := True], seen_devices @ [loc_device shard]))"

definition check_all_seen :: "bool list \<Rightarrow> (record_error, unit) res" where
  "check_all_seen seen_index =
     fold_res (\<lambda>(index, seen) _. if \<not> seen then Err (RecMissingShardIndex (index mod 256)) else Ok ())
       (enumerate 0 seen_index) ()"

definition validate_shards :: "scheme \<Rightarrow> shard_location list \<Rightarrow> (record_error, unit) res" where
  "validate_shards s shards =
     (if length shards \<noteq> total_shards s then Err (RecWrongShardCount (total_shards s) (length shards))
      else bind_res (fold_res (validate_shard s) shards (replicate (total_shards s) False, []))
             (\<lambda>(seen_index, _). check_all_seen seen_index))"

definition record_validate :: "libs \<Rightarrow> metadata_record \<Rightarrow> (record_error, unit) res" where
  "record_validate L r =
     (if rec_system r \<noteq> SYSTEM_NAME then Err (RecWrongSystem (rec_system r))
      else bind_res (case rec_content_type r of
          None \<Rightarrow> Ok ()
        | Some t \<Rightarrow> if length t > MAX_CONTENT_TYPE_BYTES then Err (RecContentTypeTooLong (length t)) else Ok ()) (\<lambda>_.
      if rec_format_version r \<noteq> RECORD_FORMAT_VERSION
      then Err (RecUnsupportedFormatVersion (rec_format_version r))
      else let computed = hash_key L (as_bytes (rec_key r)) in
      if computed \<noteq> rec_key_hash r then Err (RecKeyHashMismatch (rec_key_hash r) computed)
      else bind_res (map_err RecInvalidScheme (scheme_new (rec_k r) (rec_m r))) (\<lambda>s.
      if rec_block_size r = 0 \<or> rec_block_size r mod 4096 \<noteq> 0 then Err (RecBadBlockSize (rec_block_size r))
      else validate_shards s (rec_shards r))))"

definition from_json :: "libs \<Rightarrow> json_lib \<Rightarrow> string \<Rightarrow> (record_error, metadata_record) res" where
  "from_json L J text =
     (case js_parse J text of
        Some (JObj members) \<Rightarrow>
          (case map_of members CHECKSUM_FIELD of
             Some (JStr hex) \<Rightarrow>
               bind_res (ok_or RecJson (checksum_from_hex hex)) (\<lambda>stored.
               bind_res (record_deserialize J (filter (\<lambda>(k, _). k \<noteq> CHECKSUM_FIELD) members)) (\<lambda>r.
               let computed = record_checksum L J r in
               if computed \<noteq> stored then Err (RecChecksumMismatch stored computed)
               else bind_res (record_validate L r) (\<lambda>_. Ok r)))
           | _ \<Rightarrow> Err RecJson)
      | _ \<Rightarrow> Err RecJson)"

section \<open>Lookups\<close>

definition record_scheme :: "metadata_record \<Rightarrow> (scheme_error, scheme) res" where
  "record_scheme r = scheme_new (rec_k r) (rec_m r)"

definition device_for :: "metadata_record \<Rightarrow> shard_index \<Rightarrow> device_id option" where
  "device_for r index = map_option loc_device (find (\<lambda>shard. loc_index shard = index) (rec_shards r))"

definition shard_on :: "metadata_record \<Rightarrow> device_id \<Rightarrow> shard_index option" where
  "shard_on r device = map_option loc_index (find (\<lambda>shard. loc_device shard = device) (rec_shards r))"

section \<open>Canonical form\<close>

lemma sort_key_distinct_unique:
  assumes "mset xs = mset ys" "distinct (map f xs)"
  shows "sort_key f xs = sort_key f ys"
proof (rule properties_for_sort_key)
  show "mset (sort_key f ys) = mset xs" using assms(1) by simp
  show "sorted (map f (sort_key f ys))" by simp
  have inj: "inj_on f (set xs)" using assms(2) by (simp add: distinct_map)
  have "filter (\<lambda>x. f k = f x) (sort_key f ys) = filter (\<lambda>x. f k = f x) xs" if k: "k \<in> set (sort_key f ys)" for k
  proof -
    have kx: "k \<in> set xs" using k assms(1) by (metis set_sort set_mset_mset)
    have "filter (\<lambda>x. f k = f x) zs = [k]" if "mset zs = mset xs" for zs
    proof -
      have d: "distinct zs" "set zs = set xs"
        using that assms(2) by (metis distinct_map mset_eq_imp_distinct_iff, metis set_mset_mset)
      then have "filter (\<lambda>x. f k = f x) zs = filter (\<lambda>x. k = x) zs"
        using inj kx by (intro filter_cong) (auto simp: inj_on_def)
      also have "\<dots> = [k]" using d kx by (intro filter_eq_single) auto
      finally show ?thesis .
    qed
    then show ?thesis using assms(1) by simp
  qed
  then show "\<And>k. k \<in> set (sort_key f ys) \<Longrightarrow> filter (\<lambda>x. f k = f x) (sort_key f ys) = filter (\<lambda>x. f k = f x) xs" .
qed

lemma canonical_member_order:
  assumes "mset ms = mset ms'" "distinct (map fst ms)"
  shows "write_canonical J (JObj ms) = write_canonical J (JObj ms')"
proof -
  let ?f = "\<lambda>(key, v). (key, write_canonical J v)"
  have "sort_key fst (map ?f ms) = sort_key fst (map ?f ms')"
  proof (rule sort_key_distinct_unique)
    show "mset (map ?f ms) = mset (map ?f ms')" using assms(1) by simp
    show "distinct (map fst (map ?f ms))" using assms(2) by (simp add: o_def case_prod_beta)
  qed
  then show ?thesis by simp
qed

section \<open>Valid records\<close>

text \<open>
  What validation promises: the record names this system and format, its hash
  is its key's, its scheme and block size are legal, and its shard list is a
  bijection between the scheme's indices and distinct devices.
\<close>

definition shards_bijective :: "scheme \<Rightarrow> shard_location list \<Rightarrow> bool" where
  "shards_bijective s shards \<longleftrightarrow>
     length shards = total_shards s \<and> distinct (map loc_device shards) \<and>
     distinct (map loc_index shards) \<and> set (map loc_index shards) = {..<total_shards s}"

definition record_valid :: "libs \<Rightarrow> metadata_record \<Rightarrow> bool" where
  "record_valid L r \<longleftrightarrow>
     rec_system r = SYSTEM_NAME \<and> rec_format_version r = RECORD_FORMAT_VERSION \<and>
     (\<forall>t. rec_content_type r = Some t \<longrightarrow> length t \<le> 1024) \<and>
     rec_key_hash r = hash_key L (as_bytes (rec_key r)) \<and>
     (\<exists>s. scheme_new (rec_k r) (rec_m r) = Ok s \<and> shards_bijective s (rec_shards r)) \<and>
     0 < rec_block_size r \<and> 4096 dvd rec_block_size r"

lemma validate_shard_fold:
  "fold_res (validate_shard s) shards (map P [0..<total_shards s], ds) = Ok (seen, ds') \<longleftrightarrow>
     distinct (map loc_index shards) \<and> distinct (map loc_device shards) \<and>
     (\<forall>l\<in>set shards. loc_index l < total_shards s \<and> \<not> P (loc_index l) \<and> loc_device l \<notin> set ds) \<and>
     seen = map (\<lambda>i. P i \<or> i \<in> loc_index ` set shards) [0..<total_shards s] \<and>
     ds' = ds @ map loc_device shards"
proof (induction shards arbitrary: P ds)
  case (Cons l shards)
  let ?i = "loc_index l"
  show ?case
  proof (cases "?i < total_shards s \<and> \<not> P ?i \<and> loc_device l \<notin> set ds")
    case True
    then have "validate_shard s l (map P [0..<total_shards s], ds) =
        Ok (map (P(?i := True)) [0..<total_shards s], ds @ [loc_device l])"
      by (simp add: validate_shard_def scheme_contains_def map_upt_update del: upt_Suc)
    then have "fold_res (validate_shard s) (l # shards) (map P [0..<total_shards s], ds) = Ok (seen, ds') \<longleftrightarrow>
        fold_res (validate_shard s) shards (map (P(?i := True)) [0..<total_shards s], ds @ [loc_device l]) = Ok (seen, ds')"
      by (simp only: fold_res.simps bind_res.simps)
    also have "\<dots> \<longleftrightarrow> distinct (map loc_index shards) \<and> distinct (map loc_device shards) \<and>
       (\<forall>x\<in>set shards. loc_index x < total_shards s \<and> \<not> (P(?i := True)) (loc_index x) \<and>
          loc_device x \<notin> set (ds @ [loc_device l])) \<and>
       seen = map (\<lambda>i. (P(?i := True)) i \<or> i \<in> loc_index ` set shards) [0..<total_shards s] \<and>
       ds' = (ds @ [loc_device l]) @ map loc_device shards"
      by (rule Cons.IH)
    also have "(\<lambda>i. (P(?i := True)) i \<or> i \<in> loc_index ` set shards) = (\<lambda>i. P i \<or> i \<in> loc_index ` set (l # shards))"
      by auto
    also have "(\<forall>x\<in>set shards. loc_index x < total_shards s \<and> \<not> (P(?i := True)) (loc_index x) \<and>
          loc_device x \<notin> set (ds @ [loc_device l])) \<longleftrightarrow>
        ?i \<notin> loc_index ` set shards \<and> loc_device l \<notin> loc_device ` set shards \<and>
        (\<forall>x\<in>set shards. loc_index x < total_shards s \<and> \<not> P (loc_index x) \<and> loc_device x \<notin> set ds)"
      by (auto simp: image_iff)
    finally show ?thesis using True by auto
  next
    case False
    then have "\<exists>e. validate_shard s l (map P [0..<total_shards s], ds) = Err e"
      by (auto simp: validate_shard_def scheme_contains_def)
    then show ?thesis using False by auto
  qed
qed auto

lemma check_all_seen_Ok: "check_all_seen seen = Ok u \<longleftrightarrow> (\<forall>b\<in>set seen. b)"
proof -
  have "fold_res (\<lambda>(index, seen) _. if \<not> seen then Err (RecMissingShardIndex (index mod 256)) else Ok ())
      (enumerate n seen) () = Ok u \<longleftrightarrow> (\<forall>b\<in>set seen. b)" for n
    by (induction seen arbitrary: n) auto
  then show ?thesis by (simp add: check_all_seen_def)
qed

lemma validate_shards_Ok: "validate_shards s shards = Ok u \<longleftrightarrow> shards_bijective s shards"
proof -
  have false: "replicate (total_shards s) False = map (\<lambda>_. False) [0..<total_shards s]"
    by (simp add: map_replicate_const)
  have "validate_shards s shards = Ok u \<longleftrightarrow> length shards = total_shards s \<and>
      (\<exists>seen ds. fold_res (validate_shard s) shards (map (\<lambda>_. False) [0..<total_shards s], []) = Ok (seen, ds) \<and>
        (\<forall>b\<in>set seen. b))"
    unfolding validate_shards_def false by (auto simp: res_simps check_all_seen_Ok)
  also have "\<dots> \<longleftrightarrow> length shards = total_shards s \<and> distinct (map loc_index shards) \<and>
      distinct (map loc_device shards) \<and> (\<forall>l\<in>set shards. loc_index l < total_shards s) \<and>
      (\<forall>i<total_shards s. i \<in> loc_index ` set shards)"
    by (subst validate_shard_fold) auto
  also have "\<dots> \<longleftrightarrow> shards_bijective s shards" by (auto simp: shards_bijective_def)
  finally show ?thesis .
qed

lemma record_validate_iff: "record_validate L r = Ok () \<longleftrightarrow> record_valid L r"
  unfolding record_validate_def record_valid_def Let_def
  by (auto simp: res_simps validate_shards_Ok MAX_CONTENT_TYPE_BYTES_def mod_eq_0_iff_dvd
      split: option.splits if_splits)

text \<open>The last loop of the validation never rejects: by then every index was seen.\<close>

lemma validate_shards_complete:
  assumes "length shards = total_shards s"
    "fold_res (validate_shard s) shards (replicate (total_shards s) False, []) = Ok (seen, ds)"
  shows "check_all_seen seen = Ok ()"
proof -
  have false: "replicate (total_shards s) False = map (\<lambda>_. False) [0..<total_shards s]"
    by (simp add: map_replicate_const)
  note fold = assms(2) [unfolded false validate_shard_fold]
  have "card (loc_index ` set shards) = total_shards s"
    using fold assms(1) distinct_card [of "map loc_index shards"] by simp
  moreover have "loc_index ` set shards \<subseteq> {..<total_shards s}" using fold by auto
  ultimately have "loc_index ` set shards = {..<total_shards s}"
    by (metis card_lessThan card_subset_eq finite_lessThan)
  then show ?thesis using fold by (auto simp: check_all_seen_Ok)
qed

section \<open>Lookups in a valid record\<close>

lemma device_for_Some:
  assumes "shards_bijective s (rec_shards r)"
  shows "device_for r i = Some d \<longleftrightarrow> \<lparr>loc_index = i, loc_device = d\<rparr> \<in> set (rec_shards r)"
proof -
  have inj: "inj_on loc_index (set (rec_shards r))"
    using assms by (simp add: shards_bijective_def distinct_map)
  show ?thesis
  proof
    assume "device_for r i = Some d"
    then obtain l where "find (\<lambda>shard. loc_index shard = i) (rec_shards r) = Some l" "loc_device l = d"
      by (auto simp: device_for_def)
    moreover from this have "l \<in> set (rec_shards r)" "loc_index l = i" by (auto simp: find_Some_iff)
    ultimately show "\<lparr>loc_index = i, loc_device = d\<rparr> \<in> set (rec_shards r)" by (cases l) auto
  next
    assume l: "\<lparr>loc_index = i, loc_device = d\<rparr> \<in> set (rec_shards r)"
    then obtain l' where l': "find (\<lambda>shard. loc_index shard = i) (rec_shards r) = Some l'"
      by (cases "find (\<lambda>shard. loc_index shard = i) (rec_shards r)") (auto simp: find_None_iff)
    then have "l' \<in> set (rec_shards r)" "loc_index l' = i" by (auto simp: find_Some_iff)
    then have "l' = \<lparr>loc_index = i, loc_device = d\<rparr>" using inj l by (auto simp: inj_on_def)
    then show "device_for r i = Some d" using l' by (simp add: device_for_def)
  qed
qed

lemma shard_on_Some:
  assumes "shards_bijective s (rec_shards r)"
  shows "shard_on r d = Some i \<longleftrightarrow> \<lparr>loc_index = i, loc_device = d\<rparr> \<in> set (rec_shards r)"
proof -
  have inj: "inj_on loc_device (set (rec_shards r))"
    using assms by (simp add: shards_bijective_def distinct_map)
  show ?thesis
  proof
    assume "shard_on r d = Some i"
    then obtain l where "find (\<lambda>shard. loc_device shard = d) (rec_shards r) = Some l" "loc_index l = i"
      by (auto simp: shard_on_def)
    moreover from this have "l \<in> set (rec_shards r)" "loc_device l = d" by (auto simp: find_Some_iff)
    ultimately show "\<lparr>loc_index = i, loc_device = d\<rparr> \<in> set (rec_shards r)" by (cases l) auto
  next
    assume l: "\<lparr>loc_index = i, loc_device = d\<rparr> \<in> set (rec_shards r)"
    then obtain l' where l': "find (\<lambda>shard. loc_device shard = d) (rec_shards r) = Some l'"
      by (cases "find (\<lambda>shard. loc_device shard = d) (rec_shards r)") (auto simp: find_None_iff)
    then have "l' \<in> set (rec_shards r)" "loc_device l' = d" by (auto simp: find_Some_iff)
    then have "l' = \<lparr>loc_index = i, loc_device = d\<rparr>" using inj l by (auto simp: inj_on_def)
    then show "shard_on r d = Some i" using l' by (simp add: shard_on_def)
  qed
qed

lemma device_for_total:
  assumes "shards_bijective s (rec_shards r)"
  shows "(\<exists>d. device_for r i = Some d) \<longleftrightarrow> i < total_shards s"
proof -
  have "i < total_shards s \<longleftrightarrow> i \<in> loc_index ` set (rec_shards r)"
    using assms unfolding shards_bijective_def by (metis lessThan_iff list.set_map)
  also have "\<dots> \<longleftrightarrow> (\<exists>d. \<lparr>loc_index = i, loc_device = d\<rparr> \<in> set (rec_shards r))"
  proof
    assume "i \<in> loc_index ` set (rec_shards r)"
    then obtain l where "l \<in> set (rec_shards r)" "loc_index l = i" by auto
    moreover have "l = \<lparr>loc_index = loc_index l, loc_device = loc_device l\<rparr>" by simp
    ultimately show "\<exists>d. \<lparr>loc_index = i, loc_device = d\<rparr> \<in> set (rec_shards r)" by metis
  qed force
  finally show ?thesis by (simp add: device_for_Some [OF assms])
qed

section \<open>Reading a record back\<close>

text \<open>The values of the Rust types a record holds.\<close>

definition record_typed :: "metadata_record \<Rightarrow> bool" where
  "record_typed r \<longleftrightarrow>
     rec_format_version r < 4294967296 \<and> key_hash_wf (rec_key_hash r) \<and> version_wf (rec_version r) \<and>
     rec_size r < u64_modulus \<and> rec_k r < 256 \<and> rec_m r < 256 \<and> rec_block_size r < u64_modulus \<and>
     (\<forall>l\<in>set (rec_shards r). loc_index l < 256) \<and> rec_revision r < u64_modulus \<and>
     sorted_wrt (\<lambda>x y. fst x < fst y) (rec_user_metadata r)"

text \<open>The text forms of the identifiers and the time in this record read back.\<close>

definition record_texts :: "json_lib \<Rightarrow> metadata_record \<Rightarrow> bool" where
  "record_texts J r \<longleftrightarrow> time_parse J (time_text J (rec_created r)) = Some (rec_created r) \<and>
     (\<forall>l\<in>set (rec_shards r). uuid_parse J (uuid_text J (loc_device l)) = Some (loc_device l))"

lemma option_all_map:
  "(\<And>x. x \<in> set xs \<Longrightarrow> f (g x) = Some x) \<Longrightarrow> option_all (map f (map g xs)) = Some xs"
  by (induction xs) auto

lemma locations_round_trip:
  assumes "\<forall>l\<in>set ls. loc_index l < 256 \<and> uuid_parse J (uuid_text J (loc_device l)) = Some (loc_device l)"
  shows "locations_from_value J (JArr (map (location_value J) ls)) = Some ls"
proof -
  have "location_from_value J (location_value J l) = Some l" if "l \<in> set ls" for l
    using assms that by (simp add: location_value_def field_def)
  then show ?thesis by (simp only: locations_from_value.simps option_all_map)
qed

lemma btree_insert_greater:
  "\<forall>x\<in>set m. fst x < k \<Longrightarrow> btree_insert k v m = m @ [(k, v)]"
  by (induction m) auto

lemma btree_of_sorted: "sorted_wrt (\<lambda>x y. fst x < fst y) m \<Longrightarrow> btree_of m = m"
proof (induction m rule: rev_induct)
  case (snoc x m)
  then have "btree_of m = m" "\<forall>y\<in>set m. fst y < fst x" by (auto simp: sorted_wrt_append)
  then show ?case by (cases x) (simp add: btree_of_def btree_insert_greater)
qed (simp add: btree_of_def)

lemma metadata_round_trip:
  assumes "sorted_wrt (\<lambda>x y. fst x < fst y) m"
  shows "metadata_from (Some (JObj (map (\<lambda>(k, v). (k, JStr v)) m))) = Some m"
proof -
  have "option_all (map (\<lambda>(k, v). map_option (Pair k) (json_str v)) (map (\<lambda>(k, v). (k, JStr v)) m)) = Some m"
    by (rule option_all_map) auto
  then show ?thesis using assms by (simp add: btree_of_sorted)
qed

lemma record_fields_lookup:
  "map_of (record_fields J r) ''content_type'' = map_option JStr (rec_content_type r)"
  "map_of (record_fields J r) ''user_metadata'' =
     (if rec_user_metadata r = [] then None
      else Some (JObj (map (\<lambda>(k, v). (k, JStr v)) (rec_user_metadata r))))"
  by (simp_all add: record_fields_def split: option.splits)

lemma record_from_fields:
  assumes "record_typed r" "record_texts J r"
  shows "record_from_value J (record_fields J r) = Some r"
proof -
  have ct: "content_type_from (map_of (record_fields J r) ''content_type'') = Some (rec_content_type r)"
    by (cases "rec_content_type r") (simp_all add: record_fields_lookup)
  have um: "metadata_from (map_of (record_fields J r) ''user_metadata'') = Some (rec_user_metadata r)"
    using assms(1) metadata_round_trip by (simp add: record_fields_lookup record_typed_def)
  have sh: "locations_from_value J (JArr (map (location_value J) (rec_shards r))) = Some (rec_shards r)"
    using assms by (intro locations_round_trip) (auto simp: record_typed_def record_texts_def)
  show ?thesis
    unfolding record_from_value_def ct um using assms sh
    by (simp add: field_def record_fields_def record_typed_def record_texts_def keyhash_value_def
        keyhash_from_to_hex version_from_to_text checksum_text.dec_enc del: locations_from_value.simps)
qed

lemma record_fields_no_panic:
  assumes "record_typed r"
  shows "\<not> key_hash_panics J (record_fields J r)"
proof -
  have "map_of (record_fields J r) ''key_hash'' = Some (JStr (keyhash_to_hex (rec_key_hash r)))"
    by (simp add: record_fields_def)
  then show ?thesis using assms by (simp add: key_hash_panics_def record_typed_def keyhash_from_to_hex)
qed

text \<open>
  What \<open>serde_json\<close> does with the written text, for one record: the printed
  object ends in its brace, and the text with one more member before that
  brace reads as the printed members followed by that member.
\<close>

definition json_reads_written :: "libs \<Rightarrow> json_lib \<Rightarrow> metadata_record \<Rightarrow> bool" where
  "json_reads_written L J r \<longleftrightarrow>
     (\<exists>body. js_pretty J (record_fields J r) = body @ ''}'' \<and>
        (\<forall>hex. js_parse J (body @ '',\<newline>  \"'' @ CHECKSUM_FIELD @ ''\": \"'' @ hex @ ''\"\<newline>}'') =
           Some (JObj (record_fields J r @ [(CHECKSUM_FIELD, JStr hex)]))))"

lemma record_fields_no_checksum:
  "filter (\<lambda>(k, _). k \<noteq> CHECKSUM_FIELD) (record_fields J r) = record_fields J r"
  "map_of (record_fields J r) CHECKSUM_FIELD = None"
  by (simp_all add: record_fields_def CHECKSUM_FIELD_def split: option.splits)

lemma from_json_to_json:
  assumes typed: "record_typed r" and texts: "record_texts J r" and valid: "record_valid L r"
    and reads: "json_reads_written L J r"
  shows "\<exists>text. to_json L J r = Ok text \<and> from_json L J text = Ok r"
proof -
  obtain body where body: "js_pretty J (record_fields J r) = body @ ''}''"
    and parse: "\<And>hex. js_parse J (body @ '',\<newline>  \"'' @ CHECKSUM_FIELD @ ''\": \"'' @ hex @ ''\"\<newline>}'') =
       Some (JObj (record_fields J r @ [(CHECKSUM_FIELD, JStr hex)]))"
    using reads by (auto simp: json_reads_written_def)
  let ?hex = "checksum_to_hex (record_checksum L J r)"
  let ?text = "body @ '',\<newline>  \"'' @ CHECKSUM_FIELD @ ''\": \"'' @ ?hex @ ''\"\<newline>}''"
  have "trim_end (body @ ''}'') = body @ ''}''" by (simp add: trim_end_def is_ascii_space_def)
  then have printed: "to_json L J r = Ok ?text"
    using strip_suffix_append [of "''}''" body] by (simp add: to_json_def body)
  have "map_of (record_fields J r @ [(CHECKSUM_FIELD, JStr ?hex)]) CHECKSUM_FIELD = Some (JStr ?hex)"
    by (simp add: map_add_def record_fields_no_checksum)
  moreover have "filter (\<lambda>(k, _). k \<noteq> CHECKSUM_FIELD) (record_fields J r @ [(CHECKSUM_FIELD, JStr ?hex)])
      = record_fields J r"
    by (simp add: record_fields_no_checksum)
  moreover have "record_deserialize J (record_fields J r) = Ok r"
    using record_from_fields [OF typed texts] record_fields_no_panic [OF typed]
    by (simp add: record_deserialize_def)
  ultimately have "from_json L J ?text = Ok r"
    unfolding from_json_def parse using record_validate_iff [of L r] valid
    by (simp add: checksum_text.dec_enc)
  with printed show ?thesis by blast
qed

lemma from_json_checked:
  assumes "from_json L J text = Ok r"
  shows "record_valid L r \<and> (\<exists>members hex. js_parse J text = Some (JObj members) \<and>
    map_of members CHECKSUM_FIELD = Some (JStr hex) \<and> checksum_from_hex hex = Some (record_checksum L J r))"
  using assms unfolding from_json_def
  by (auto simp: res_simps record_validate_iff Let_def split: option.splits json.splits if_splits)

section \<open>What a record promises\<close>

text \<open>
  A small JSON library that keeps the laws above for the objects of a given
  list: it prints an object as its position and reads that position back.
\<close>

definition unary :: "char \<Rightarrow> string \<Rightarrow> nat option" where
  "unary c s = (if s \<noteq> [] \<and> s = replicate (length s) c then Some (length s - 1) else None)"

definition demo_json :: "(string \<times> json) list list \<Rightarrow> json_lib" where
  "demo_json objects = \<lparr>
     js_parse = (\<lambda>text.
       let i = length (takeWhile (\<lambda>c. c = CHR ''x'') text); rest = drop i text in
       if i < length objects
       then if rest = ''}'' then Some (JObj (objects ! i))
            else Some (JObj (objects ! i @ [(CHECKSUM_FIELD, JStr (take (length rest - 20) (drop 17 rest)))]))
       else None),
     js_pretty = (\<lambda>fs. replicate (length (takeWhile (\<lambda>g. g \<noteq> fs) objects)) (CHR ''x'') @ ''}''),
     js_string = (\<lambda>s. s), js_scalar = (\<lambda>v. ''0''),
     uuid_text = (\<lambda>n. replicate (Suc n) (CHR ''u'')), uuid_parse = unary (CHR ''u''),
     time_text = (\<lambda>t. replicate (Suc (nat t)) (CHR ''t'')), time_parse = (\<lambda>s. map_option int (unary (CHR ''t'') s))\<rparr>"

definition demo_records :: "metadata_record list \<Rightarrow> json_lib" where
  "demo_records rs = demo_json (map (record_fields (demo_json [])) rs)"

definition demo_record :: metadata_record where
  "demo_record = \<lparr>rec_format_version = 1, rec_system = SYSTEM_NAME, rec_bucket = ''default'', rec_key = ''a'',
     rec_key_hash = hash_key demo_libs (as_bytes ''a''), rec_version = replicate 16 9, rec_created = 0,
     rec_size = 3, rec_object_checksum = 77, rec_k = 2, rec_m = 1, rec_block_size = 4096,
     rec_shards = [\<lparr>loc_index = 0, loc_device = 10\<rparr>, \<lparr>loc_index = 1, loc_device = 11\<rparr>, \<lparr>loc_index = 2, loc_device = 12\<rparr>],
     rec_revision = 1, rec_content_type = None, rec_user_metadata = [(''u'', ''v'')]\<rparr>"

lemma unary_replicate: "unary c (replicate (Suc n) c) = Some n"
  by (simp add: unary_def)

lemma demo_json_uuid: "uuid_parse (demo_json os) (uuid_text (demo_json os) n) = Some n"
  unfolding demo_json_def by (simp only: json_lib.simps unary_replicate)

lemma demo_json_time: "0 \<le> t \<Longrightarrow> time_parse (demo_json os) (time_text (demo_json os) t) = Some t"
  unfolding demo_json_def by (simp only: json_lib.simps unary_replicate) simp

lemma demo_record_texts: "0 \<le> rec_created r \<Longrightarrow> record_texts (demo_records rs) r"
  by (simp add: record_texts_def demo_records_def demo_json_uuid demo_json_time)

lemma demo_fields: "record_fields (demo_json os) r = record_fields (demo_json []) r"
  by (simp add: record_fields_def location_value_def demo_json_def)

lemma takeWhile_position:
  "x \<in> set xs \<Longrightarrow> length (takeWhile (\<lambda>y. y \<noteq> x) xs) < length xs \<and> xs ! length (takeWhile (\<lambda>y. y \<noteq> x) xs) = x"
  by (induction xs) auto

lemma demo_json_pretty:
  assumes "fs \<in> set os"
  obtains i where "i < length os" "os ! i = fs" "js_pretty (demo_json os) fs = replicate i (CHR ''x'') @ ''}''"
proof
  show "length (takeWhile (\<lambda>g. g \<noteq> fs) os) < length os" "os ! length (takeWhile (\<lambda>g. g \<noteq> fs) os) = fs"
    using takeWhile_position [OF assms] by auto
qed (simp add: demo_json_def)

lemma takeWhile_replicate_append:
  "\<not> P y \<Longrightarrow> P x \<Longrightarrow> takeWhile P (replicate i x @ y # ys) = replicate i x"
  by (induction i) auto

lemma demo_json_reads:
  assumes "r \<in> set rs"
  shows "json_reads_written L (demo_records rs) r"
proof -
  let ?os = "map (record_fields (demo_json [])) rs" and ?fs = "record_fields (demo_json []) r"
  obtain i where i: "i < length ?os" "?os ! i = ?fs" "js_pretty (demo_json ?os) ?fs = replicate i (CHR ''x'') @ ''}''"
    using demo_json_pretty [of ?fs ?os] assms by auto
  have parse: "js_parse (demo_json ?os)
      (replicate i (CHR ''x'') @ '',\<newline>  \"'' @ CHECKSUM_FIELD @ ''\": \"'' @ hex @ ''\"\<newline>}'') =
    Some (JObj (?fs @ [(CHECKSUM_FIELD, JStr hex)]))" for hex
    using i(1,2) by (simp add: demo_json_def takeWhile_replicate_append CHECKSUM_FIELD_def Let_def)
  show ?thesis unfolding json_reads_written_def demo_records_def demo_fields [of ?os r]
    using i(3) parse by blast
qed

lemma demo_record_typed: "record_typed demo_record"
  by (simp add: record_typed_def demo_record_def hash_key_def demo_libs_def key_hash_wf_def version_wf_def)

lemma demo_record_valid: "record_valid demo_libs demo_record"
proof -
  have "scheme_new 2 1 = Ok demo_scheme" by (simp add: scheme_new_Ok_iff demo_scheme_def)
  moreover have "shards_bijective demo_scheme (rec_shards demo_record)"
    by (auto simp: shards_bijective_def demo_record_def)
  ultimately show ?thesis
    by (auto simp: record_valid_def demo_record_def RECORD_FORMAT_VERSION_def)
qed

text \<open>C9: A record is accepted exactly when it is well formed: the system name and format version
  are this program's, the key hash is the hash of the key, the scheme is allowed, the block size is
  a positive multiple of 4096, the content type is short, and the shard list gives every shard
  index of the scheme exactly one device and no device two shards.\<close>

theorem record_validate_meaning:
  "record_validate L r = Ok () \<longleftrightarrow>
     rec_system r = SYSTEM_NAME \<and> rec_format_version r = RECORD_FORMAT_VERSION \<and>
     (case rec_content_type r of Some t \<Rightarrow> length t \<le> MAX_CONTENT_TYPE_BYTES | None \<Rightarrow> True) \<and>
     rec_key_hash r = hash_key L (as_bytes (rec_key r)) \<and>
     (\<exists>s. record_scheme r = Ok s \<and> length (rec_shards r) = total_shards s \<and>
        distinct (map loc_device (rec_shards r)) \<and> distinct (map loc_index (rec_shards r)) \<and>
        set (map loc_index (rec_shards r)) = {..<total_shards s}) \<and>
     0 < rec_block_size r \<and> 4096 dvd rec_block_size r"
  by (auto simp: record_validate_iff record_valid_def shards_bijective_def record_scheme_def
      MAX_CONTENT_TYPE_BYTES_def split: option.splits)

text \<open>C10: A valid record survives being written as text: printing it gives a text, and reading
  that text, checksum included, gives the same record.\<close>

theorem record_json_round_trip:
  assumes "record_typed r" "record_texts J r" "record_validate L r = Ok ()" "json_reads_written L J r"
  shows "\<exists>text. to_json L J r = Ok text \<and> from_json L J text = Ok r"
  using from_json_to_json [OF assms(1,2) _ assms(4)] assms(3) by (simp add: record_validate_iff)

theorem record_json_round_trip_witness:
  "\<exists>text. to_json demo_libs (demo_records [demo_record]) demo_record = Ok text \<and>
     from_json demo_libs (demo_records [demo_record]) text = Ok demo_record"
  by (rule record_json_round_trip)
    (simp_all add: demo_record_typed demo_record_texts demo_json_reads demo_record_valid record_validate_iff,
     simp add: demo_record_texts demo_record_def)

text \<open>C11: No record is accepted from a text whose stored checksum is not the checksum of the record
  it holds, and every record read is a valid one.\<close>

theorem from_json_only_checked:
  assumes "from_json L J text = Ok r"
  shows "record_validate L r = Ok () \<and> (\<exists>members hex. js_parse J text = Some (JObj members) \<and>
    map_of members CHECKSUM_FIELD = Some (JStr hex) \<and> checksum_from_hex hex = Some (record_checksum L J r))"
  using from_json_checked [OF assms] by (simp add: record_validate_iff)

theorem from_json_only_checked_witness:
  "\<exists>text. record_validate demo_libs demo_record = Ok () \<and>
    (\<exists>members hex. js_parse (demo_records [demo_record]) text = Some (JObj members) \<and>
      map_of members CHECKSUM_FIELD = Some (JStr hex) \<and>
      checksum_from_hex hex = Some (record_checksum demo_libs (demo_records [demo_record]) demo_record))"
proof -
  have "record_texts (demo_records [demo_record]) demo_record" by (simp add: demo_record_texts demo_record_def)
  then obtain t where "from_json demo_libs (demo_records [demo_record]) t = Ok demo_record"
    using from_json_to_json [OF demo_record_typed _ demo_record_valid demo_json_reads] by fastforce
  from from_json_only_checked [OF this] show ?thesis by (intro exI [of _ t])
qed

text \<open>C12: In a valid record the two lookups are inverse: a device is found for an index exactly
  when the index is one of the scheme's, and a device holds a shard index exactly when that
  index is placed on it.\<close>

theorem placement_lookups_inverse:
  assumes "record_validate L r = Ok ()" "record_scheme r = Ok s"
  shows "(device_for r i = Some d \<longleftrightarrow> shard_on r d = Some i) \<and>
    ((\<exists>d. device_for r i = Some d) \<longleftrightarrow> i < total_shards s)"
proof -
  have b: "shards_bijective s (rec_shards r)"
    using assms by (auto simp: record_validate_iff record_valid_def record_scheme_def)
  show ?thesis using device_for_Some [OF b] shard_on_Some [OF b] device_for_total [OF b] by simp
qed

theorem placement_lookups_inverse_witness:
  "(device_for demo_record 1 = Some 11 \<longleftrightarrow> shard_on demo_record 11 = Some 1) \<and>
   ((\<exists>d. device_for demo_record 1 = Some d) \<longleftrightarrow> 1 < total_shards demo_scheme)"
proof (rule placement_lookups_inverse)
  show "record_validate demo_libs demo_record = Ok ()" by (simp add: record_validate_iff demo_record_valid)
qed (simp add: record_scheme_def demo_record_def scheme_new_Ok_iff demo_scheme_def)

end
