(* ===== verification/SocketAddr.thy ===== *)
theory SocketAddr
  imports Codec
begin

text \<open>
  Text of the standard library the cluster document checks: the characters of
  a UTF-8 string with their white space and control classes, and whether a
  text parses as a \<open>SocketAddr\<close>.  The address grammar follows the standard
  library's parser: a reader takes the text and gives what is left.
\<close>

section \<open>Characters\<close>

text \<open>The scalar values of a UTF-8 string, one per character.\<close>

function utf8_chars :: "string \<Rightarrow> nat list" where
  "utf8_chars [] = []"
| "utf8_chars (c # cs) =
     (let n = of_char c :: nat;
          extra = (if n < 192 then 0 else if n < 224 then 1 else if n < 240 then 2 else 3);
          lead = (if n < 192 then n else if n < 224 then n - 192 else if n < 240 then n - 224 else n - 240);
          tail = take extra cs
      in foldl (\<lambda>acc t. acc * 64 + of_char t mod 64) lead tail # utf8_chars (drop extra cs))"
  by pat_completeness auto
termination
  by (relation "measure length") (auto simp: Let_def)

definition is_control :: "nat \<Rightarrow> bool" where
  "is_control c = (c < 32 \<or> 127 \<le> c \<and> c < 160)"

definition is_whitespace :: "nat \<Rightarrow> bool" where
  "is_whitespace c = (9 \<le> c \<and> c \<le> 13 \<or> c = 32 \<or> c = 133 \<or> c = 160 \<or> c = 5760 \<or>
     8192 \<le> c \<and> c \<le> 8202 \<or> c = 8232 \<or> c = 8233 \<or> c = 8239 \<or> c = 8287 \<or> c = 12288)"

text \<open>\<open>str::trim\<close>, on the characters.\<close>

definition trim_chars :: "nat list \<Rightarrow> nat list" where
  "trim_chars cs = rev (dropWhile is_whitespace (rev (dropWhile is_whitespace cs)))"

section \<open>Socket addresses\<close>

type_synonym 'a reader = "string \<Rightarrow> ('a \<times> string) option"

definition read_given_char :: "char \<Rightarrow> unit reader" where
  "read_given_char c s = (case s of x # xs \<Rightarrow> if x = c then Some ((), xs) else None | [] \<Rightarrow> None)"

text \<open>Digits of a number below \<open>bound\<close>, at most \<open>max_digits\<close> of them.\<close>

fun read_digits :: "nat \<Rightarrow> nat \<Rightarrow> nat option \<Rightarrow> nat \<Rightarrow> nat \<Rightarrow> (nat \<times> nat) reader" where
  "read_digits radix bound max_digits acc digits [] = Some ((acc, digits), [])"
| "read_digits radix bound max_digits acc digits (c # cs) =
     (case digit_value radix c of
        None \<Rightarrow> Some ((acc, digits), c # cs)
      | Some d \<Rightarrow>
          if acc * radix + d \<ge> bound then None
          else if (case max_digits of None \<Rightarrow> False | Some n \<Rightarrow> digits + 1 > n) then None
          else read_digits radix bound max_digits (acc * radix + d) (digits + 1) cs)"

definition read_number :: "nat \<Rightarrow> nat \<Rightarrow> nat option \<Rightarrow> bool \<Rightarrow> nat reader" where
  "read_number radix bound max_digits allow_zero_prefix s =
     (case read_digits radix bound max_digits 0 0 s of
        None \<Rightarrow> None
      | Some ((n, digits), rest) \<Rightarrow>
          if digits = 0 then None
          else if \<not> allow_zero_prefix \<and> hd s = CHR ''0'' \<and> digits > 1 then None
          else Some (n, rest))"

definition read_then :: "'a reader \<Rightarrow> ('a \<Rightarrow> 'b reader) \<Rightarrow> 'b reader" where
  "read_then p f s = (case p s of None \<Rightarrow> None | Some (x, rest) \<Rightarrow> f x rest)"

definition read_separator :: "char \<Rightarrow> nat \<Rightarrow> 'a reader \<Rightarrow> 'a reader" where
  "read_separator sep index p =
     (if index > 0 then read_then (read_given_char sep) (\<lambda>_. p) else p)"

definition read_ipv4_addr :: "unit reader" where
  "read_ipv4_addr =
     read_then (read_number 10 256 (Some 3) False) (\<lambda>_.
     read_then (read_separator CHR ''.'' 1 (read_number 10 256 (Some 3) False)) (\<lambda>_.
     read_then (read_separator CHR ''.'' 2 (read_number 10 256 (Some 3) False)) (\<lambda>_.
     read_then (read_separator CHR ''.'' 3 (read_number 10 256 (Some 3) False)) (\<lambda>_ s. Some ((), s)))))"

text \<open>
  Up to \<open>limit\<close> groups of an IPv6 address from group \<open>i\<close> on: how many were
  read, whether an embedded IPv4 address ended them, and the rest of the text.
\<close>

function read_groups :: "nat \<Rightarrow> nat \<Rightarrow> string \<Rightarrow> nat \<times> bool \<times> string" where
  "read_groups limit i s =
     (if i \<ge> limit then (limit, False, s)
      else case (if i + 1 < limit then read_separator CHR '':'' i read_ipv4_addr s else None) of
        Some (_, rest) \<Rightarrow> (i + 2, True, rest)
      | None \<Rightarrow>
          (case read_separator CHR '':'' i (read_number 16 65536 (Some 4) True) s of
             Some (_, rest) \<Rightarrow> read_groups limit (Suc i) rest
           | None \<Rightarrow> (i, False, s)))"
  by pat_completeness auto
termination
  by (relation "measure (\<lambda>(limit, i, s). limit - i)") auto

declare read_groups.simps [simp del]

definition read_ipv6_addr :: "unit reader" where
  "read_ipv6_addr s =
     (let (head_size, head_ipv4, rest) = read_groups 8 0 s in
      if head_size = 8 then Some ((), rest)
      else if head_ipv4 then None
      else read_then (read_given_char CHR '':'') (\<lambda>_.
           read_then (read_given_char CHR '':'') (\<lambda>_ t.
             let (_, _, rest) = read_groups (8 - (head_size + 1)) 0 t in Some ((), rest))) rest)"

definition read_port :: "unit reader" where
  "read_port =
     read_then (read_given_char CHR '':'') (\<lambda>_.
     read_then (read_number 10 65536 None True) (\<lambda>_ s. Some ((), s)))"

definition read_scope_id :: "unit reader" where
  "read_scope_id =
     read_then (read_given_char CHR ''%'') (\<lambda>_.
     read_then (read_number 10 4294967296 None True) (\<lambda>_ s. Some ((), s)))"

definition read_socket_addr_v4 :: "unit reader" where
  "read_socket_addr_v4 = read_then read_ipv4_addr (\<lambda>_. read_port)"

definition read_socket_addr_v6 :: "unit reader" where
  "read_socket_addr_v6 =
     read_then (read_given_char CHR ''['') (\<lambda>_.
     read_then read_ipv6_addr (\<lambda>_ s.
       let rest = (case read_scope_id s of Some (_, r) \<Rightarrow> r | None \<Rightarrow> s) in
       read_then (read_given_char CHR '']'') (\<lambda>_. read_port) rest))"

definition socket_addr_ok :: "string \<Rightarrow> bool" where
  "socket_addr_ok s =
     (case read_socket_addr_v4 s of
        Some (_, []) \<Rightarrow> True
      | Some (_, _) \<Rightarrow> False
      | None \<Rightarrow> (case read_socket_addr_v6 s of Some (_, []) \<Rightarrow> True | _ \<Rightarrow> False))"

lemmas socket_addr_defs = socket_addr_ok_def read_socket_addr_v4_def read_socket_addr_v6_def read_port_def
  read_ipv4_addr_def read_separator_def read_then_def read_given_char_def read_number_def digit_value_def

lemma demo_address_ok: "socket_addr_ok ''10.0.0.1:7000''"
  by (simp add: socket_addr_defs)

end
