(* ===== verification/Cluster.thy ===== *)
theory Cluster
  imports Complex_Main MetaRecord SocketAddr
begin

text \<open>
  The cluster document (\<open>djbod-core/src/cluster.rs\<close>): nodes, devices, the
  scheme and the limits every node holds an identical copy of, the checks
  applied whenever a document is created or received, and looking nodes and
  devices up by identifier, label or name.
\<close>

section \<open>The document\<close>

definition MIN_BLOCK_SIZE_BYTES :: nat where "MIN_BLOCK_SIZE_BYTES = 64 * 1024"
definition MAX_BLOCK_SIZE_BYTES :: nat where "MAX_BLOCK_SIZE_BYTES = 64 * 1024 * 1024"
definition LIMIT_MAX_KEY_BYTES :: nat where "LIMIT_MAX_KEY_BYTES = 1024 * 1024"
definition LIMIT_MAX_USER_METADATA_BYTES :: nat where "LIMIT_MAX_USER_METADATA_BYTES = 48 * 1024 * 1024"
definition MAX_LABEL_BYTES :: nat where "MAX_LABEL_BYTES = 128"

type_synonym node_id = uuid

datatype node_state = NodeActive | NodeRemoved

record node_entry =
  ne_id :: node_id
  ne_addresses :: "string list"
  ne_label :: "string option"
  ne_state :: node_state

datatype transport = Plain | TlsOptional | Tls

fun transport_text :: "transport \<Rightarrow> string" where
  "transport_text Plain = ''plain''"
| "transport_text TlsOptional = ''tls-optional''"
| "transport_text Tls = ''tls''"

definition transport_from_str :: "string \<Rightarrow> transport option" where
  "transport_from_str text =
     (if text = ''plain'' then Some Plain
      else if text = ''tls-optional'' then Some TlsOptional
      else if text = ''tls'' then Some Tls else None)"

datatype device_state = DevActive | DevDraining | DevRemoved

record device_entry =
  de_id :: device_id
  de_node :: node_id
  de_state :: device_state
  de_label :: "string option"

text \<open>A 64-bit float as the document holds one: a finite value or not a usable number.\<close>

datatype float64 = Finite rat | Infinite | NegInfinite | NaN

fun in_headroom_range :: "float64 \<Rightarrow> bool" where
  "in_headroom_range (Finite q) = (0 \<le> q \<and> q \<le> 1 / 2)"
| "in_headroom_range _ = False"

record cluster_document =
  doc_version :: nat
  doc_cluster_id :: uuid
  doc_name :: "string option"
  doc_k :: nat
  doc_m :: nat
  doc_block_size :: nat
  doc_headroom :: float64
  doc_max_key_bytes :: nat
  doc_max_object_bytes :: nat
  doc_max_user_metadata_bytes :: nat
  doc_transport :: transport
  doc_nodes :: "node_entry list"
  doc_devices :: "device_entry list"

datatype cluster_document_error =
    CdInvalidScheme scheme_error
  | CdBadBlockSize nat
  | CdBadHeadroom
  | CdBadKeyLimit nat
  | CdBadObjectLimit
  | CdBadMetadataLimit nat
  | CdDuplicateNode node_id
  | CdNoAddresses node_id
  | CdBadAddress node_id string
  | CdDuplicateAddress string
  | CdDuplicateDevice device_id
  | CdBadLabel string
  | CdNilClusterId
  | CdBadClusterName string
  | CdDuplicateLabel string
  | CdUnknownNode device_id node_id

section \<open>Checks\<close>

definition validate_label :: "json_lib \<Rightarrow> string \<Rightarrow> (cluster_document_error, unit) res" where
  "validate_label J label =
     (if label = [] \<or> length label > MAX_LABEL_BYTES then Err (CdBadLabel label)
      else if list_ex (\<lambda>c. is_whitespace c \<or> is_control c) (utf8_chars label) then Err (CdBadLabel label)
      else if uuid_parse J label \<noteq> None then Err (CdBadLabel label)
      else Ok ())"

definition validate_cluster_name :: "string \<Rightarrow> (cluster_document_error, unit) res" where
  "validate_cluster_name name =
     (if name = [] \<or> length name > MAX_LABEL_BYTES then Err (CdBadClusterName name)
      else if list_ex is_control (utf8_chars name) then Err (CdBadClusterName name)
      else if trim_chars (utf8_chars name) \<noteq> utf8_chars name then Err (CdBadClusterName name)
      else Ok ())"

definition check_node_ids :: "node_entry list \<Rightarrow> (cluster_document_error, node_id list) res" where
  "check_node_ids nodes =
     fold_res (\<lambda>n ids. if ne_id n \<in> set ids then Err (CdDuplicateNode (ne_id n)) else Ok (ids @ [ne_id n])) nodes []"

definition check_address ::
  "node_entry \<Rightarrow> string \<Rightarrow> string list \<Rightarrow> (cluster_document_error, string list) res" where
  "check_address n address addresses =
     (if \<not> socket_addr_ok address then Err (CdBadAddress (ne_id n) address)
      else if ne_state n = NodeRemoved then Ok addresses
      else if address \<in> set addresses then Err (CdDuplicateAddress address)
      else Ok (addresses @ [address]))"

definition check_addresses :: "node_entry list \<Rightarrow> (cluster_document_error, string list) res" where
  "check_addresses nodes =
     fold_res (\<lambda>n addresses.
       if ne_addresses n = [] then Err (CdNoAddresses (ne_id n))
       else fold_res (check_address n) (ne_addresses n) addresses) nodes []"

definition check_devices ::
  "node_id list \<Rightarrow> device_entry list \<Rightarrow> (cluster_document_error, device_id list) res" where
  "check_devices node_ids devices =
     fold_res (\<lambda>d ids.
       if de_id d \<in> set ids then Err (CdDuplicateDevice (de_id d))
       else if de_node d \<notin> set node_ids then Err (CdUnknownNode (de_id d) (de_node d))
       else Ok (ids @ [de_id d])) devices []"

definition check_label ::
  "json_lib \<Rightarrow> string option \<times> bool \<Rightarrow> string list \<Rightarrow> (cluster_document_error, string list) res" where
  "check_label J = (\<lambda>(label, removed) labels.
     case label of
       None \<Rightarrow> Ok labels
     | Some l \<Rightarrow>
         bind_res (validate_label J l) (\<lambda>_.
         if removed then Ok labels
         else if l \<in> set labels then Err (CdDuplicateLabel l)
         else Ok (labels @ [l])))"

definition document_validate :: "json_lib \<Rightarrow> cluster_document \<Rightarrow> (cluster_document_error, unit) res" where
  "document_validate J d =
     (if doc_cluster_id d = 0 then Err CdNilClusterId
      else bind_res (map_err CdInvalidScheme (scheme_new (doc_k d) (doc_m d))) (\<lambda>_.
      if doc_block_size d mod 4096 \<noteq> 0 \<or> doc_block_size d < MIN_BLOCK_SIZE_BYTES
         \<or> doc_block_size d > MAX_BLOCK_SIZE_BYTES then Err (CdBadBlockSize (doc_block_size d))
      else if \<not> in_headroom_range (doc_headroom d) then Err CdBadHeadroom
      else if \<not> (1 \<le> doc_max_key_bytes d \<and> doc_max_key_bytes d \<le> LIMIT_MAX_KEY_BYTES)
      then Err (CdBadKeyLimit (doc_max_key_bytes d))
      else if doc_max_object_bytes d = 0 then Err CdBadObjectLimit
      else if \<not> (1 \<le> doc_max_user_metadata_bytes d \<and>
                   doc_max_user_metadata_bytes d \<le> LIMIT_MAX_USER_METADATA_BYTES)
      then Err (CdBadMetadataLimit (doc_max_user_metadata_bytes d))
      else bind_res (check_node_ids (doc_nodes d)) (\<lambda>node_ids.
      bind_res (check_addresses (doc_nodes d)) (\<lambda>_.
      bind_res (check_devices node_ids (doc_devices d)) (\<lambda>_.
      bind_res (fold_res (check_label J) (map (\<lambda>e. (de_label e, False)) (doc_devices d)) []) (\<lambda>_.
      bind_res (case doc_name d of None \<Rightarrow> Ok () | Some name \<Rightarrow> validate_cluster_name name) (\<lambda>_.
      bind_res (fold_res (check_label J) (map (\<lambda>n. (ne_label n, ne_state n = NodeRemoved)) (doc_nodes d)) []) (\<lambda>_.
      Ok ()))))))))"

section \<open>Lookups\<close>

definition doc_title :: "json_lib \<Rightarrow> cluster_document \<Rightarrow> string" where
  "doc_title J d = (case doc_name d of
     Some name \<Rightarrow> name @ '' ('' @ uuid_text J (doc_cluster_id d) @ '')''
   | None \<Rightarrow> uuid_text J (doc_cluster_id d))"

definition doc_scheme :: "cluster_document \<Rightarrow> (scheme_error, scheme) res" where
  "doc_scheme d = scheme_new (doc_k d) (doc_m d)"

definition doc_node :: "cluster_document \<Rightarrow> node_id \<Rightarrow> node_entry option" where
  "doc_node d i = find (\<lambda>n. ne_id n = i) (doc_nodes d)"

definition active_nodes :: "cluster_document \<Rightarrow> node_entry list" where
  "active_nodes d = filter (\<lambda>n. ne_state n = NodeActive) (doc_nodes d)"

definition node_by_label :: "cluster_document \<Rightarrow> string \<Rightarrow> node_entry option" where
  "node_by_label d label = find (\<lambda>n. ne_label n = Some label) (active_nodes d)"

definition node_by_name :: "json_lib \<Rightarrow> cluster_document \<Rightarrow> string \<Rightarrow> node_entry option" where
  "node_by_name J d name = (case uuid_parse J name of
     Some u \<Rightarrow> doc_node d u | None \<Rightarrow> node_by_label d name)"

definition node_name :: "json_lib \<Rightarrow> cluster_document \<Rightarrow> node_id \<Rightarrow> string" where
  "node_name J d i = (case Option.bind (doc_node d i) ne_label of
     Some label \<Rightarrow> label | None \<Rightarrow> uuid_text J i)"

definition doc_device :: "cluster_document \<Rightarrow> device_id \<Rightarrow> device_entry option" where
  "doc_device d i = find (\<lambda>e. de_id e = i) (doc_devices d)"

definition device_by_label :: "cluster_document \<Rightarrow> string \<Rightarrow> device_entry option" where
  "device_by_label d label = find (\<lambda>e. de_label e = Some label) (doc_devices d)"

definition device_by_name :: "json_lib \<Rightarrow> cluster_document \<Rightarrow> string \<Rightarrow> device_entry option" where
  "device_by_name J d name = (case uuid_parse J name of
     Some u \<Rightarrow> doc_device d u | None \<Rightarrow> device_by_label d name)"

definition device_name :: "json_lib \<Rightarrow> cluster_document \<Rightarrow> device_id \<Rightarrow> string" where
  "device_name J d i = (case Option.bind (doc_device d i) de_label of
     Some label \<Rightarrow> label | None \<Rightarrow> uuid_text J i)"

section \<open>What a valid document is\<close>

definition labels_of :: "(string option \<times> bool) list \<Rightarrow> string list" where
  "labels_of ls = List.map_filter (\<lambda>(l, removed). if removed then None else l) ls"

definition label_ok :: "json_lib \<Rightarrow> string \<Rightarrow> bool" where
  "label_ok J l \<longleftrightarrow> l \<noteq> [] \<and> length l \<le> 128 \<and> uuid_parse J l = None \<and>
     (\<forall>c\<in>set (utf8_chars l). \<not> is_whitespace c \<and> \<not> is_control c)"

definition name_ok :: "string \<Rightarrow> bool" where
  "name_ok n \<longleftrightarrow> n \<noteq> [] \<and> length n \<le> 128 \<and> (\<forall>c\<in>set (utf8_chars n). \<not> is_control c) \<and>
     \<not> is_whitespace (hd (utf8_chars n)) \<and> \<not> is_whitespace (last (utf8_chars n))"

definition document_valid :: "json_lib \<Rightarrow> cluster_document \<Rightarrow> bool" where
  "document_valid J d \<longleftrightarrow>
     doc_cluster_id d \<noteq> 0 \<and> (\<exists>s. doc_scheme d = Ok s) \<and>
     4096 dvd doc_block_size d \<and> 65536 \<le> doc_block_size d \<and> doc_block_size d \<le> 67108864 \<and>
     in_headroom_range (doc_headroom d) \<and>
     1 \<le> doc_max_key_bytes d \<and> doc_max_key_bytes d \<le> 1048576 \<and> 0 < doc_max_object_bytes d \<and>
     1 \<le> doc_max_user_metadata_bytes d \<and> doc_max_user_metadata_bytes d \<le> 50331648 \<and>
     distinct (map ne_id (doc_nodes d)) \<and>
     (\<forall>n\<in>set (doc_nodes d). ne_addresses n \<noteq> [] \<and> (\<forall>a\<in>set (ne_addresses n). socket_addr_ok a)) \<and>
     distinct (concat (map ne_addresses (active_nodes d))) \<and>
     distinct (map de_id (doc_devices d)) \<and>
     (\<forall>e\<in>set (doc_devices d). de_node e \<in> ne_id ` set (doc_nodes d)) \<and>
     (\<forall>e\<in>set (doc_devices d). \<forall>l. de_label e = Some l \<longrightarrow> label_ok J l) \<and>
     distinct (labels_of (map (\<lambda>e. (de_label e, False)) (doc_devices d))) \<and>
     (\<forall>n. doc_name d = Some n \<longrightarrow> name_ok n) \<and>
     (\<forall>n\<in>set (doc_nodes d). \<forall>l. ne_label n = Some l \<longrightarrow> label_ok J l) \<and>
     distinct (labels_of (map (\<lambda>n. (ne_label n, ne_state n = NodeRemoved)) (doc_nodes d)))"

lemma validate_label_Ok: "validate_label J l = Ok u \<longleftrightarrow> label_ok J l"
  by (auto simp: validate_label_def label_ok_def MAX_LABEL_BYTES_def list_ex_iff)

lemma utf8_chars_Nil [simp]: "utf8_chars s = [] \<longleftrightarrow> s = []"
  by (cases s) (auto simp: Let_def)

lemma trim_chars_id:
  assumes "cs \<noteq> []"
  shows "trim_chars cs = cs \<longleftrightarrow> \<not> is_whitespace (hd cs) \<and> \<not> is_whitespace (last cs)"
proof
  assume trim: "trim_chars cs = cs"
  have "length (trim_chars cs) \<le> length (dropWhile is_whitespace cs)"
    unfolding trim_chars_def by (metis length_dropWhile_le length_rev)
  then have len: "length cs \<le> length (dropWhile is_whitespace cs)" using trim by simp
  have hd: "\<not> is_whitespace (hd cs)"
  proof
    assume ws: "is_whitespace (hd cs)"
    obtain c ds where cs: "cs = c # ds" using assms by (cases cs) auto
    then have "length (dropWhile is_whitespace cs) \<le> length ds" using ws by (simp add: length_dropWhile_le)
    then show False using len cs by simp
  qed
  then have "dropWhile is_whitespace cs = cs" by (simp add: dropWhile_eq_self_iff)
  have "rev (dropWhile is_whitespace (rev cs)) = cs"
    using trim \<open>dropWhile is_whitespace cs = cs\<close> by (simp add: trim_chars_def)
  then have "dropWhile is_whitespace (rev cs) = rev cs" by (metis rev_rev_ident)
  then have "\<not> is_whitespace (hd (rev cs))" using assms by (simp add: dropWhile_eq_self_iff)
  with hd show "\<not> is_whitespace (hd cs) \<and> \<not> is_whitespace (last cs)" by (simp add: hd_rev)
next
  assume ends: "\<not> is_whitespace (hd cs) \<and> \<not> is_whitespace (last cs)"
  then have "dropWhile is_whitespace cs = cs" by (simp add: dropWhile_eq_self_iff)
  moreover have "dropWhile is_whitespace (rev cs) = rev cs"
    using ends by (simp add: dropWhile_eq_self_iff hd_rev)
  ultimately show "trim_chars cs = cs" by (simp add: trim_chars_def)
qed

lemma validate_cluster_name_Ok: "validate_cluster_name n = Ok u \<longleftrightarrow> name_ok n"
  by (auto simp: validate_cluster_name_def name_ok_def MAX_LABEL_BYTES_def list_ex_iff trim_chars_id)

text \<open>The checks that collect what they have seen, each as what it accepts.\<close>

lemma collect_distinct:
  "fold_res (\<lambda>x seen. if f x \<in> set seen then Err (e x) else Ok (seen @ [f x])) xs seen = Ok out \<longleftrightarrow>
     distinct (map f xs) \<and> set (map f xs) \<inter> set seen = {} \<and> out = seen @ map f xs"
  by (induction xs arbitrary: seen) (auto split: if_splits)

lemma check_node_ids_Ok:
  "check_node_ids ns = Ok ids \<longleftrightarrow> distinct (map ne_id ns) \<and> ids = map ne_id ns"
  by (simp add: check_node_ids_def collect_distinct)

lemma check_address_fold:
  "fold_res (check_address n) as seen = Ok out \<longleftrightarrow>
     (\<forall>a\<in>set as. socket_addr_ok a) \<and>
     (if ne_state n = NodeRemoved then out = seen
      else distinct as \<and> set as \<inter> set seen = {} \<and> out = seen @ as)"
  by (induction as arbitrary: seen) (auto simp: check_address_def split: if_splits)

lemma check_addresses_from:
  "fold_res (\<lambda>n addresses. if ne_addresses n = [] then Err (CdNoAddresses (ne_id n))
       else fold_res (check_address n) (ne_addresses n) addresses) ns seen = Ok out \<longleftrightarrow>
     (\<forall>n\<in>set ns. ne_addresses n \<noteq> [] \<and> (\<forall>a\<in>set (ne_addresses n). socket_addr_ok a)) \<and>
     distinct (concat (map ne_addresses (filter (\<lambda>n. ne_state n = NodeActive) ns))) \<and>
     set (concat (map ne_addresses (filter (\<lambda>n. ne_state n = NodeActive) ns))) \<inter> set seen = {} \<and>
     out = seen @ concat (map ne_addresses (filter (\<lambda>n. ne_state n = NodeActive) ns))"
proof (induction ns arbitrary: seen)
  case (Cons n ns)
  show ?case
  proof (cases "ne_addresses n = []")
    case False
    show ?thesis
    proof (cases "ne_state n")
      case NodeActive
      then show ?thesis using False Cons.IH [of "seen @ ne_addresses n"]
        by (auto simp: res_simps check_address_fold)
    next
      case NodeRemoved
      then show ?thesis using False Cons.IH [of seen] by (auto simp: res_simps check_address_fold)
    qed
  qed auto
qed auto

lemma check_devices_Ok:
  "check_devices ids ds = Ok out \<longleftrightarrow>
     distinct (map de_id ds) \<and> (\<forall>e\<in>set ds. de_node e \<in> set ids) \<and> out = map de_id ds"
proof -
  have "fold_res (\<lambda>d seen. if de_id d \<in> set seen then Err (CdDuplicateDevice (de_id d))
       else if de_node d \<notin> set ids then Err (CdUnknownNode (de_id d) (de_node d))
       else Ok (seen @ [de_id d])) ds seen = Ok out \<longleftrightarrow>
     distinct (map de_id ds) \<and> set (map de_id ds) \<inter> set seen = {} \<and>
     (\<forall>e\<in>set ds. de_node e \<in> set ids) \<and> out = seen @ map de_id ds" for seen
    by (induction ds arbitrary: seen) (auto split: if_splits)
  then show ?thesis by (simp add: check_devices_def)
qed

lemma check_labels_from:
  "fold_res (check_label J) ls seen = Ok out \<longleftrightarrow>
     (\<forall>(l, removed)\<in>set ls. \<forall>t. l = Some t \<longrightarrow> label_ok J t) \<and>
     distinct (labels_of ls) \<and> set (labels_of ls) \<inter> set seen = {} \<and> out = seen @ labels_of ls"
proof (induction ls arbitrary: seen)
  case (Cons x ls)
  obtain l removed where x: "x = (l, removed)" by (cases x)
  show ?case
  proof (cases l)
    case None
    then show ?thesis using Cons.IH [of seen] by (simp add: x check_label_def labels_of_def List.map_filter_def)
  next
    case (Some t)
    have bad: "\<exists>e. validate_label J t = Err e" if "\<not> label_ok J t"
      using that by (auto simp: validate_label_def label_ok_def MAX_LABEL_BYTES_def list_ex_iff)
    have good: "validate_label J t = Ok ()" if "label_ok J t" using that by (simp add: validate_label_Ok)
    show ?thesis
    proof (cases "label_ok J t")
      case False
      then show ?thesis using bad by (auto simp: x Some check_label_def)
    next
      case True
      show ?thesis
      proof (cases removed)
        case True
        then show ?thesis using Cons.IH [of seen] \<open>label_ok J t\<close>
          by (simp add: x Some check_label_def good labels_of_def List.map_filter_def)
      next
        case False
        then have "labels_of (x # ls) = t # labels_of ls"
          by (simp add: x Some labels_of_def List.map_filter_def)
        then show ?thesis using Cons.IH [of "seen @ [t]"] \<open>label_ok J t\<close> False
          by (cases "t \<in> set seen") (auto simp: x Some check_label_def good)
      qed
    qed
  qed
qed (auto simp: labels_of_def List.map_filter_def)

lemma document_validate_iff: "document_validate J d = Ok () \<longleftrightarrow> document_valid J d"
proof -
  have name: "(case doc_name d of None \<Rightarrow> Ok () | Some name \<Rightarrow> validate_cluster_name name) = Ok u \<longleftrightarrow>
      (\<forall>n. doc_name d = Some n \<longrightarrow> name_ok n)" for u
    by (cases "doc_name d") (auto simp: validate_cluster_name_Ok)
  show ?thesis
    unfolding document_validate_def document_valid_def
    by (auto simp: res_simps name check_node_ids_Ok check_addresses_def check_addresses_from
        check_devices_Ok check_labels_from doc_scheme_def active_nodes_def mod_eq_0_iff_dvd
        MIN_BLOCK_SIZE_BYTES_def MAX_BLOCK_SIZE_BYTES_def LIMIT_MAX_KEY_BYTES_def
        LIMIT_MAX_USER_METADATA_BYTES_def split: if_splits)
qed

section \<open>Lookups in a valid document\<close>

lemma labels_of_devices: "labels_of (map (\<lambda>e. (de_label e, False)) ds) = List.map_filter de_label ds"
  by (induction ds) (auto simp: labels_of_def List.map_filter_def)

lemma labels_of_nodes:
  "labels_of (map (\<lambda>n. (ne_label n, ne_state n = NodeRemoved)) ns) =
     List.map_filter ne_label (filter (\<lambda>n. ne_state n = NodeActive) ns)"
proof (induction ns)
  case (Cons n ns)
  then show ?case by (cases "ne_state n") (auto simp: labels_of_def List.map_filter_def)
qed (simp add: labels_of_def List.map_filter_def)

lemma doc_node_Some:
  "document_valid J d \<Longrightarrow> doc_node d i = Some n \<longleftrightarrow> n \<in> set (doc_nodes d) \<and> ne_id n = i"
  by (simp add: doc_node_def find_unique document_valid_def)

lemma doc_device_Some:
  "document_valid J d \<Longrightarrow> doc_device d i = Some e \<longleftrightarrow> e \<in> set (doc_devices d) \<and> de_id e = i"
  by (simp add: doc_device_def find_unique document_valid_def)

lemma node_by_label_Some:
  "document_valid J d \<Longrightarrow>
   node_by_label d l = Some n \<longleftrightarrow> n \<in> set (active_nodes d) \<and> ne_label n = Some l"
  unfolding node_by_label_def active_nodes_def
  by (rule find_map_filter_unique) (simp add: document_valid_def labels_of_nodes)

lemma device_by_label_Some:
  "document_valid J d \<Longrightarrow>
   device_by_label d l = Some e \<longleftrightarrow> e \<in> set (doc_devices d) \<and> de_label e = Some l"
  unfolding device_by_label_def
  by (rule find_map_filter_unique) (simp add: document_valid_def labels_of_devices)

lemma device_node_known:
  assumes "document_valid J d" "doc_device d i = Some e"
  shows "\<exists>n. doc_node d (de_node e) = Some n"
proof -
  have "e \<in> set (doc_devices d)" using assms by (simp add: doc_device_Some)
  then have "de_node e \<in> ne_id ` set (doc_nodes d)" using assms(1) by (simp add: document_valid_def)
  then obtain n where "n \<in> set (doc_nodes d)" "ne_id n = de_node e" by auto
  then show ?thesis using doc_node_Some [OF assms(1)] by blast
qed

text \<open>A name shown for a device finds that device again, and likewise for members.\<close>

lemma device_by_name_device_name:
  assumes v: "document_valid J d" and e: "e \<in> set (doc_devices d)"
    and u: "uuid_parse J (uuid_text J (de_id e)) = Some (de_id e)"
  shows "device_by_name J d (device_name J d (de_id e)) = Some e"
proof -
  have dev: "doc_device d (de_id e) = Some e" using e doc_device_Some [OF v] by simp
  show ?thesis
  proof (cases "de_label e")
    case None
    then show ?thesis using dev u by (simp add: device_by_name_def device_name_def)
  next
    case (Some l)
    then have "uuid_parse J l = None" using v e by (auto simp: document_valid_def label_ok_def)
    moreover have "device_by_label d l = Some e" using Some e device_by_label_Some [OF v] by simp
    ultimately show ?thesis using dev Some by (simp add: device_by_name_def device_name_def)
  qed
qed

lemma node_by_name_node_name:
  assumes v: "document_valid J d" and n: "n \<in> set (active_nodes d)"
    and u: "uuid_parse J (uuid_text J (ne_id n)) = Some (ne_id n)"
  shows "node_by_name J d (node_name J d (ne_id n)) = Some n"
proof -
  have mem: "n \<in> set (doc_nodes d)" using n by (simp add: active_nodes_def)
  have node: "doc_node d (ne_id n) = Some n" using mem doc_node_Some [OF v] by simp
  show ?thesis
  proof (cases "ne_label n")
    case None
    then show ?thesis using node u by (simp add: node_by_name_def node_name_def)
  next
    case (Some l)
    then have "uuid_parse J l = None" using v mem by (auto simp: document_valid_def label_ok_def)
    moreover have "node_by_label d l = Some n" using Some n node_by_label_Some [OF v] by simp
    ultimately show ?thesis using node Some by (simp add: node_by_name_def node_name_def)
  qed
qed

interpretation transport_codec: codec "\<lambda>_. True" transport_text transport_from_str
proof unfold_locales
  show "transport_from_str (transport_text t) = Some t" for t
    by (cases t) (simp_all add: transport_from_str_def)
qed simp

text \<open>Legal block sizes keep every length of a shard file within \<open>u64\<close>.\<close>

lemma document_stripe_bound:
  assumes "document_valid J d" "doc_scheme d = Ok s"
  shows "data_shards s * doc_block_size d \<le> 2147483648" "0 < doc_block_size d" "scheme_valid s"
proof -
  have s: "data_shards s \<le> 32" "scheme_valid s"
    using assms(2) by (auto simp: doc_scheme_def scheme_new_Ok_iff scheme_valid_iff)
  have b: "doc_block_size d \<le> 67108864" "65536 \<le> doc_block_size d"
    using assms(1) by (auto simp: document_valid_def)
  have "data_shards s * doc_block_size d \<le> 32 * 67108864" by (rule mult_le_mono [OF s(1) b(1)])
  then show "data_shards s * doc_block_size d \<le> 2147483648" by simp
  show "0 < doc_block_size d" "scheme_valid s" using b s by auto
qed

section \<open>What an accepted document promises\<close>

definition demo_document :: cluster_document where
  "demo_document = \<lparr>doc_version = 3, doc_cluster_id = 9, doc_name = Some ''lab'', doc_k = 2, doc_m = 1,
     doc_block_size = 65536, doc_headroom = Finite (1 / 20), doc_max_key_bytes = 1024,
     doc_max_object_bytes = 1000000, doc_max_user_metadata_bytes = 1024, doc_transport = Plain,
     doc_nodes = [\<lparr>ne_id = 1, ne_addresses = [''10.0.0.1:7000''], ne_label = Some ''n1'', ne_state = NodeActive\<rparr>],
     doc_devices = map (\<lambda>(i, l). \<lparr>de_id = i, de_node = 1, de_state = DevActive, de_label = l\<rparr>)
       [(10, Some ''d1''), (11, None), (12, Some ''d3'')]\<rparr>"

lemma demo_document_valid: "document_valid (demo_json []) demo_document"
proof -
  have "doc_scheme demo_document = Ok demo_scheme"
    by (simp add: doc_scheme_def demo_document_def scheme_new_Ok_iff demo_scheme_def)
  then show ?thesis
    by (simp add: document_valid_def)
      (simp add: demo_document_def active_nodes_def labels_of_def List.map_filter_def label_ok_def name_ok_def
        demo_address_ok demo_json_def unary_def is_control_def is_whitespace_def)
qed


text \<open>C36: In an accepted document the name a device or an active node is shown under finds that same
  device or node again.\<close>

theorem names_resolve:
  assumes "document_validate J d = Ok ()" "e \<in> set (doc_devices d)" "n \<in> set (active_nodes d)"
    and "uuid_parse J (uuid_text J (de_id e)) = Some (de_id e)"
    and "uuid_parse J (uuid_text J (ne_id n)) = Some (ne_id n)"
  shows "device_by_name J d (device_name J d (de_id e)) = Some e \<and>
    node_by_name J d (node_name J d (ne_id n)) = Some n \<and>
    (\<exists>n. doc_node d (de_node e) = Some n)"
proof -
  have v: "document_valid J d" using assms(1) by (simp add: document_validate_iff)
  have "doc_device d (de_id e) = Some e" using doc_device_Some [OF v] assms(2) by simp
  then show ?thesis
    using device_by_name_device_name [OF v assms(2,4)] node_by_name_node_name [OF v assms(3,5)]
      device_node_known [OF v] by simp
qed

theorem names_resolve_witness:
  "device_by_name (demo_json []) demo_document (device_name (demo_json []) demo_document (de_id (doc_devices demo_document ! 1)))
     = Some (doc_devices demo_document ! 1) \<and>
   node_by_name (demo_json []) demo_document (node_name (demo_json []) demo_document (ne_id (doc_nodes demo_document ! 0)))
     = Some (doc_nodes demo_document ! 0) \<and>
   (\<exists>n. doc_node demo_document (de_node (doc_devices demo_document ! 1)) = Some n)"
  by (rule names_resolve)
    (simp_all add: document_validate_iff demo_document_valid demo_json_uuid,
     simp_all add: demo_document_def active_nodes_def)

end
