(* ===== verification/Filesystem.thy ===== *)
theory Filesystem
  imports Layout "HOL-Library.AList"
begin

text \<open>
  The part of \<open>std::fs\<close> the device layer uses: a tree of directories and files
  as an association list from paths, one function per call with the error
  kinds the source tells apart.  A file carries the time it was last written.
  Failures of the disk itself are not part of this model.
\<close>

datatype inode = Dir | File bytes nat

type_synonym fs = "(path \<times> inode) list"

datatype io_kind = IoNotFound | IoAlreadyExists | IoNotEmpty | IoNotADirectory | IoIsADirectory

definition is_dir :: "fs \<Rightarrow> path \<Rightarrow> bool" where
  "is_dir fs p = (map_of fs p = Some Dir)"

definition is_file :: "fs \<Rightarrow> path \<Rightarrow> bool" where
  "is_file fs p = (case map_of fs p of Some (File _ _) \<Rightarrow> True | _ \<Rightarrow> False)"

definition path_exists :: "fs \<Rightarrow> path \<Rightarrow> bool" where
  "path_exists fs p = (map_of fs p \<noteq> None)"

definition children :: "fs \<Rightarrow> path \<Rightarrow> string list" where
  "children fs p = map (\<lambda>(q, _). last q) (filter (\<lambda>(q, _). q \<noteq> [] \<and> butlast q = p) fs)"

definition fs_read_dir :: "fs \<Rightarrow> path \<Rightarrow> (io_kind, string list) res" where
  "fs_read_dir fs p = (case map_of fs p of
     None \<Rightarrow> Err IoNotFound | Some (File _ _) \<Rightarrow> Err IoNotADirectory | Some Dir \<Rightarrow> Ok (children fs p))"

definition fs_read :: "fs \<Rightarrow> path \<Rightarrow> (io_kind, bytes) res" where
  "fs_read fs p = (case map_of fs p of
     None \<Rightarrow> Err IoNotFound | Some Dir \<Rightarrow> Err IoIsADirectory | Some (File bs _) \<Rightarrow> Ok bs)"

definition fs_create_dir :: "fs \<Rightarrow> path \<Rightarrow> (io_kind, fs) res" where
  "fs_create_dir fs p =
     (if path_exists fs p then Err IoAlreadyExists
      else case map_of fs (butlast p) of
        None \<Rightarrow> Err IoNotFound
      | Some (File _ _) \<Rightarrow> Err IoNotADirectory
      | Some Dir \<Rightarrow> Ok (AList.update p Dir fs))"

text \<open>Creating or truncating a file and writing its whole content.\<close>

definition fs_write :: "nat \<Rightarrow> fs \<Rightarrow> path \<Rightarrow> bytes \<Rightarrow> (io_kind, fs) res" where
  "fs_write now fs p bs =
     (case map_of fs p of
        Some Dir \<Rightarrow> Err IoIsADirectory
      | Some (File _ _) \<Rightarrow> Ok (AList.update p (File bs now) fs)
      | None \<Rightarrow> (case map_of fs (butlast p) of
                   None \<Rightarrow> Err IoNotFound
                 | Some (File _ _) \<Rightarrow> Err IoNotADirectory
                 | Some Dir \<Rightarrow> Ok (AList.update p (File bs now) fs)))"

text \<open>Renaming a file within its directory, over a file that may be there.\<close>

definition fs_rename :: "fs \<Rightarrow> path \<Rightarrow> path \<Rightarrow> (io_kind, fs) res" where
  "fs_rename fs p q =
     (case map_of fs p of
        Some (File bs t) \<Rightarrow>
          if is_dir fs q then Err IoIsADirectory
          else Ok (AList.update q (File bs t) (AList.delete p fs))
      | _ \<Rightarrow> Err IoNotFound)"

definition fs_remove_file :: "fs \<Rightarrow> path \<Rightarrow> (io_kind, fs) res" where
  "fs_remove_file fs p = (case map_of fs p of
     None \<Rightarrow> Err IoNotFound | Some Dir \<Rightarrow> Err IoIsADirectory | Some (File _ _) \<Rightarrow> Ok (AList.delete p fs))"

definition fs_remove_dir :: "fs \<Rightarrow> path \<Rightarrow> (io_kind, fs) res" where
  "fs_remove_dir fs p = (case map_of fs p of
     None \<Rightarrow> Err IoNotFound
   | Some (File _ _) \<Rightarrow> Err IoNotADirectory
   | Some Dir \<Rightarrow> if children fs p = [] then Ok (AList.delete p fs) else Err IoNotEmpty)"

definition under :: "path \<Rightarrow> path \<Rightarrow> bool" where
  "under p q = (take (length p) q = p)"

definition fs_remove_dir_all :: "fs \<Rightarrow> path \<Rightarrow> fs" where
  "fs_remove_dir_all fs p = filter (\<lambda>(q, _). \<not> under p q) fs"

section \<open>Trees\<close>

text \<open>Every path is listed once, and everything but the top has a directory above it.\<close>

definition fs_wf :: "fs \<Rightarrow> bool" where
  "fs_wf fs \<longleftrightarrow> distinct (map fst fs) \<and>
     (\<forall>p \<in> fst ` set fs. p \<noteq> [] \<longrightarrow> is_dir fs (butlast p))"

lemma map_of_update [simp]: "map_of (AList.update p i fs) q = (if q = p then Some i else map_of fs q)"
  by (simp add: update_conv')

lemma map_of_delete [simp]: "map_of (AList.delete p fs) q = (if q = p then None else map_of fs q)"
  by (simp add: delete_conv')

lemma path_in_fs: "p \<in> fst ` set fs \<longleftrightarrow> map_of fs p \<noteq> None"
  by (simp add: map_of_eq_None_iff)

lemma fs_wf_parent: "fs_wf fs \<Longrightarrow> map_of fs p \<noteq> None \<Longrightarrow> p \<noteq> [] \<Longrightarrow> is_dir fs (butlast p)"
  by (auto simp: fs_wf_def path_in_fs)

lemma children_iff: "name \<in> set (children fs p) \<longleftrightarrow> map_of fs (p @ [name]) \<noteq> None"
proof
  assume "name \<in> set (children fs p)"
  then obtain q i where "(q, i) \<in> set fs" "q \<noteq> []" "butlast q = p" "last q = name"
    by (auto simp: children_def)
  moreover from this have "q = p @ [name]" by (metis append_butlast_last_id)
  ultimately show "map_of fs (p @ [name]) \<noteq> None" by (metis fst_conv image_eqI path_in_fs)
next
  assume "map_of fs (p @ [name]) \<noteq> None"
  then obtain i where "(p @ [name], i) \<in> set fs" by (auto dest: map_of_SomeD)
  then have "(p @ [name], i) \<in> set (filter (\<lambda>(q, _). q \<noteq> [] \<and> butlast q = p) fs)" by simp
  then show "name \<in> set (children fs p)" unfolding children_def by force
qed

lemma distinct_children: "fs_wf fs \<Longrightarrow> distinct (children fs p)"
proof -
  assume wf: "fs_wf fs"
  let ?ys = "map fst (filter (\<lambda>(q, _). q \<noteq> [] \<and> butlast q = p) fs)"
  have dist: "distinct ?ys" using wf by (simp add: fs_wf_def distinct_map_filter)
  have inj: "inj_on last (set ?ys)"
  proof (rule inj_onI)
    fix q r
    assume "q \<in> set ?ys" "r \<in> set ?ys" "last q = last r"
    then have "q \<noteq> []" "butlast q = p" "r \<noteq> []" "butlast r = p" by auto
    then show "q = r" using \<open>last q = last r\<close> by (metis append_butlast_last_id)
  qed
  have "children fs p = map last ?ys" by (auto simp: children_def)
  moreover have "distinct (map last ?ys)" using distinct_map [THEN iffD2, OF conjI, OF dist inj] .
  ultimately show ?thesis by simp
qed

lemma fs_wf_update_dir:
  assumes "fs_wf fs" "map_of fs p = None" "is_dir fs (butlast p)" "p \<noteq> []"
  shows "fs_wf (AList.update p Dir fs)"
  unfolding fs_wf_def
proof (intro conjI ballI impI)
  show "distinct (map fst (AList.update p Dir fs))" using assms(1) by (simp add: fs_wf_def distinct_update)
  fix q
  assume q: "q \<in> fst ` set (AList.update p Dir fs)" "q \<noteq> []"
  show "is_dir (AList.update p Dir fs) (butlast q)"
  proof (cases "q = p")
    case False
    then have "map_of fs q \<noteq> None" using q(1) by (simp add: path_in_fs)
    then show ?thesis using fs_wf_parent [OF assms(1) _ q(2)] by (simp add: is_dir_def)
  qed (use assms in \<open>simp add: is_dir_def\<close>)
qed

lemma fs_wf_update_file:
  assumes "fs_wf fs" "\<not> is_dir fs p" "is_dir fs (butlast p)" "p \<noteq> []"
  shows "fs_wf (AList.update p (File bs t) fs)"
  unfolding fs_wf_def
proof (intro conjI ballI impI)
  show "distinct (map fst (AList.update p (File bs t) fs))" using assms(1) by (simp add: fs_wf_def distinct_update)
  fix q
  assume q: "q \<in> fst ` set (AList.update p (File bs t) fs)" "q \<noteq> []"
  have "butlast q \<noteq> p \<and> is_dir fs (butlast q)"
  proof (cases "q = p")
    case True
    then show ?thesis using assms(2,3) q(2) by auto
  next
    case False
    then have "map_of fs q \<noteq> None" using q(1) by (simp add: path_in_fs)
    then show ?thesis using fs_wf_parent [OF assms(1) _ q(2)] assms(2) by auto
  qed
  then show "is_dir (AList.update p (File bs t) fs) (butlast q)" by (simp add: is_dir_def)
qed

lemma fs_wf_delete_file:
  assumes "fs_wf fs" "is_file fs p"
  shows "fs_wf (AList.delete p fs)"
  unfolding fs_wf_def
proof (intro conjI ballI impI)
  show "distinct (map fst (AList.delete p fs))" using assms(1) by (simp add: fs_wf_def distinct_delete)
  fix q
  assume q: "q \<in> fst ` set (AList.delete p fs)" "q \<noteq> []"
  then have "map_of fs q \<noteq> None" by (simp add: path_in_fs split: if_splits)
  then have "is_dir fs (butlast q)" by (rule fs_wf_parent [OF assms(1) _ q(2)])
  moreover from this have "butlast q \<noteq> p" using assms(2) by (auto simp: is_dir_def is_file_def)
  ultimately show "is_dir (AList.delete p fs) (butlast q)" by (simp add: is_dir_def)
qed

lemma fs_create_dir_Ok:
  assumes "fs_create_dir fs p = Ok fs'" "fs_wf fs" "p \<noteq> []"
  shows "fs_wf fs'" "map_of fs' = (map_of fs)(p \<mapsto> Dir)" "map_of fs p = None"
proof -
  have *: "map_of fs p = None" "is_dir fs (butlast p)" "fs' = AList.update p Dir fs"
    using assms(1) by (auto simp: fs_create_dir_def path_exists_def is_dir_def split: if_splits option.splits inode.splits)
  show "fs_wf fs'" using fs_wf_update_dir [OF assms(2) *(1,2) assms(3)] *(3) by simp
  show "map_of fs' = (map_of fs)(p \<mapsto> Dir)" "map_of fs p = None" using * by (auto simp: update_conv')
qed

lemma fs_write_Ok:
  assumes "fs_write now fs p bs = Ok fs'" "fs_wf fs" "p \<noteq> []"
  shows "fs_wf fs'" "map_of fs' = (map_of fs)(p \<mapsto> File bs now)" "\<not> is_dir fs p"
proof -
  have *: "\<not> is_dir fs p" "fs' = AList.update p (File bs now) fs"
    using assms(1) by (auto simp: fs_write_def is_dir_def split: option.splits inode.splits)
  have dir: "is_dir fs (butlast p)"
  proof (cases "map_of fs p")
    case None
    then show ?thesis using assms(1) by (auto simp: fs_write_def is_dir_def split: option.splits inode.splits)
  next
    case (Some i)
    then show ?thesis using fs_wf_parent [OF assms(2) _ assms(3)] by simp
  qed
  show "fs_wf fs'" using fs_wf_update_file [OF assms(2) *(1) dir assms(3)] *(2) by simp
  show "map_of fs' = (map_of fs)(p \<mapsto> File bs now)" "\<not> is_dir fs p" using * by (auto simp: update_conv')
qed

lemma fs_rename_Ok:
  assumes "fs_rename fs p q = Ok fs'" "fs_wf fs" "p \<noteq> []" "q \<noteq> []" "butlast q = butlast p"
  shows "fs_wf fs'" "\<exists>bs t. map_of fs p = Some (File bs t) \<and> map_of fs' = (map_of fs)(p := None, q \<mapsto> File bs t)"
proof -
  obtain bs t where *: "map_of fs p = Some (File bs t)" "\<not> is_dir fs q"
    "fs' = AList.update q (File bs t) (AList.delete p fs)"
    using assms(1) by (auto simp: fs_rename_def split: option.splits inode.splits if_splits)
  have pdir: "is_dir fs (butlast p)" using fs_wf_parent [OF assms(2) _ assms(3)] *(1) by simp
  then have "butlast p \<noteq> p" using *(1) by (auto simp: is_dir_def)
  then have dir: "is_dir (AList.delete p fs) (butlast q)" using pdir assms(5) by (simp add: is_dir_def)
  have "fs_wf (AList.delete p fs)" by (rule fs_wf_delete_file [OF assms(2)]) (simp add: is_file_def *(1))
  then show "fs_wf fs'"
    unfolding *(3) by (rule fs_wf_update_file) (use *(2) dir assms(4) in \<open>auto simp: is_dir_def\<close>)
  have "map_of fs' = (map_of fs)(p := None, q \<mapsto> File bs t)"
    unfolding *(3) by (simp add: update_conv' delete_conv')
  then show "\<exists>bs t. map_of fs p = Some (File bs t) \<and> map_of fs' = (map_of fs)(p := None, q \<mapsto> File bs t)"
    using *(1) by blast
qed

lemma fs_remove_file_Ok:
  assumes "fs_remove_file fs p = Ok fs'" "fs_wf fs"
  shows "fs_wf fs'" "map_of fs' = (map_of fs)(p := None)" "is_file fs p"
proof -
  have *: "is_file fs p" "fs' = AList.delete p fs"
    using assms(1) by (auto simp: fs_remove_file_def is_file_def split: option.splits inode.splits)
  then show "fs_wf fs'" "map_of fs' = (map_of fs)(p := None)" "is_file fs p"
    using fs_wf_delete_file [OF assms(2)] by (auto simp: delete_conv')
qed

end
