(* ===== verification/Stripe.thy ===== *)
theory Stripe
  imports Erasure Checksum
begin

text \<open>
  Encoding and decoding one stripe (\<open>djbod-core/src/stripe.rs\<close>): up to k times
  the block size of object bytes become k data and m parity blocks with their
  checksums; decoding examines every block, treats each bad or absent one as an
  erasure and reconstructs when k blocks are usable.
\<close>

section \<open>Data\<close>

record shard_block =
  sb_index :: shard_index
  sb_bytes :: bytes
  sb_checksum :: block_checksum

datatype fault_kind =
    Missing
  | Unreadable string
  | Unavailable string
  | WrongLength nat nat
  | ChecksumMismatch block_checksum block_checksum

record block_fault =
  fault_index :: shard_index
  fault_kind :: fault_kind

datatype decoded_stripe =
    Intact bytes
  | Repaired bytes "block_fault list"
  | Unrecoverable nat nat "block_fault list"

datatype stripe_error =
    StripeEmpty
  | StripeTooLarge nat nat
  | StripeCoding coding_error
  | UnrequestedBlock shard_index

section \<open>Encoding\<close>

definition block_length_for :: "rs_code \<Rightarrow> nat \<Rightarrow> nat" where
  "block_length_for code data_len = div_ceil data_len (data_shards (code_scheme code))"

text \<open>Data block \<open>i\<close> of the stripe: its bytes, filled up with zeros.\<close>

definition data_block :: "bytes \<Rightarrow> nat \<Rightarrow> nat \<Rightarrow> bytes" where
  "data_block data block_len i =
     (let start = i * block_len;
          end = min (start + block_len) (length data);
          block = (if start < length data then slice data start (end - start) else [])
      in resize block block_len 0)"

definition shard_blocks :: "libs \<Rightarrow> bytes list \<Rightarrow> shard_block list" where
  "shard_blocks L blocks =
     map (\<lambda>(i, bs). \<lparr>sb_index = i mod 256, sb_bytes = bs, sb_checksum = checksum_block L bs\<rparr>)
       (enumerate 0 blocks)"

definition encode_stripe :: "libs \<Rightarrow> rs_code \<Rightarrow> bytes \<Rightarrow> nat \<Rightarrow> (stripe_error, shard_block list) res" where
  "encode_stripe L code data block_size =
     (let s = code_scheme code; max = data_shards s * block_size in
      if data = [] then Err StripeEmpty
      else if length data > max then Err (StripeTooLarge (length data) max)
      else let block_len = block_length_for code (length data);
               blocks = map (data_block data block_len) [0..<data_shards s]
           in bind_res (map_err StripeCoding (compute_parity L code blocks)) (\<lambda>parity.
              Ok (shard_blocks L (blocks @ parity))))"

section \<open>Decoding\<close>

definition mark_requested :: "scheme \<Rightarrow> shard_index \<Rightarrow> bool list \<Rightarrow> (stripe_error, bool list) res" where
  "mark_requested s index was_requested =
     (if \<not> scheme_contains s index then Err (StripeCoding (IndexOutOfRange index))
      else if was_requested ! index then Err (StripeCoding (DuplicateIndex index))
      else Ok (was_requested[index := True]))"

definition place_received ::
  "scheme \<Rightarrow> bool list \<Rightarrow> shard_block \<Rightarrow> shard_block option list
   \<Rightarrow> (stripe_error, shard_block option list) res" where
  "place_received s was_requested block by_index =
     (let i = sb_index block in
      if \<not> scheme_contains s i then Err (StripeCoding (IndexOutOfRange i))
      else if \<not> was_requested ! i then Err (UnrequestedBlock i)
      else if by_index ! i \<noteq> None then Err (StripeCoding (DuplicateIndex i))
      else Ok (by_index[i := Some block]))"

text \<open>One received block, or its absence, against its length and checksum.\<close>

definition block_fault_of :: "libs \<Rightarrow> nat \<Rightarrow> shard_block option \<Rightarrow> fault_kind option" where
  "block_fault_of L block_len slot =
     (case slot of
        None \<Rightarrow> Some Missing
      | Some block \<Rightarrow>
          if length (sb_bytes block) \<noteq> block_len
          then Some (WrongLength block_len (length (sb_bytes block)))
          else let computed = checksum_block L (sb_bytes block) in
            if computed \<noteq> sb_checksum block
            then Some (ChecksumMismatch (sb_checksum block) computed)
            else None)"

fun examine_blocks ::
  "libs \<Rightarrow> nat \<Rightarrow> bool list \<Rightarrow> shard_block option list \<Rightarrow> shard_index list
   \<Rightarrow> (shard_index \<times> bytes) list \<times> block_fault list" where
  "examine_blocks L block_len was_requested by_index [] = ([], [])"
| "examine_blocks L block_len was_requested by_index (index # rest) =
     (let (usable, faults) = examine_blocks L block_len was_requested by_index rest in
      if \<not> was_requested ! index then (usable, faults)
      else case block_fault_of L block_len (by_index ! index) of
        Some kind \<Rightarrow> (usable, \<lparr>fault_index = index, fault_kind = kind\<rparr> # faults)
      | None \<Rightarrow> ((index, sb_bytes (the (by_index ! index))) # usable, faults))"

definition decode_stripe ::
  "libs \<Rightarrow> rs_code \<Rightarrow> shard_index list \<Rightarrow> shard_block list \<Rightarrow> nat
   \<Rightarrow> (stripe_error, decoded_stripe) res" where
  "decode_stripe L code requested received data_len =
     (let s = code_scheme code in
      if data_len = 0 then Err StripeEmpty
      else let block_len = block_length_for code data_len in
      bind_res (fold_res (mark_requested s) requested (replicate (total_shards s) False)) (\<lambda>was_requested.
      bind_res (fold_res (place_received s was_requested) received (replicate (total_shards s) None)) (\<lambda>by_index.
      let (usable, faults) = examine_blocks L block_len was_requested by_index (shard_indices s) in
      if length usable < data_shards s
      then Ok (Unrecoverable (length usable) (data_shards s) faults)
      else bind_res (map_err StripeCoding (reconstruct L code usable (data_shard_indices s))) (\<lambda>data_blocks.
        let data = take data_len (concat data_blocks) in
        if faults = [] then Ok (Intact data) else Ok (Repaired data faults)))))"

section \<open>Splitting and joining the data\<close>

lemma data_block_slice:
  assumes "i < k" "length data \<le> k * n"
  shows "data_block data n i = slice (data @ replicate (k * n - length data) 0) (i * n) n"
proof -
  have le: "i * n + n \<le> k * n" using assms(1) mult_le_mono1 [of "Suc i" k n] by simp
  show ?thesis
  proof (cases "i * n < length data")
    case True
    then show ?thesis using le
      by (auto simp: data_block_def resize_def slice_def Let_def min_def)
  next
    case False
    then show ?thesis using le
      by (auto simp: data_block_def resize_def slice_def Let_def)
  qed
qed

lemma length_data_block [simp]: "length (data_block data n i) = n"
  by (simp add: data_block_def Let_def)

lemma join_data_blocks:
  assumes "length data \<le> k * n"
  shows "take (length data) (concat (map (data_block data n) [0..<k])) = data"
proof -
  have "map (data_block data n) [0..<k] =
    map (\<lambda>i. slice (data @ replicate (k * n - length data) 0) (i * n) n) [0..<k]"
    using data_block_slice [OF _ assms] by (intro map_cong) auto
  then have "concat (map (data_block data n) [0..<k]) = take (k * n) (data @ replicate (k * n - length data) 0)"
    by (simp only: concat_slices)
  then show ?thesis using assms by simp
qed

section \<open>The encoder\<close>

lemma length_shard_blocks [simp]: "length (shard_blocks L blocks) = length blocks"
  by (simp add: shard_blocks_def)

lemma nth_shard_blocks:
  "i < length blocks \<Longrightarrow> length blocks \<le> 256 \<Longrightarrow> shard_blocks L blocks ! i =
     \<lparr>sb_index = i, sb_bytes = blocks ! i, sb_checksum = checksum_block L (blocks ! i)\<rparr>"
  by (simp add: shard_blocks_def nth_enumerate_eq)

lemma block_length_for_bound:
  assumes "code_valid L code" "length data \<le> data_shards (code_scheme code) * block_size"
  shows "length data \<le> data_shards (code_scheme code) * block_length_for code (length data)"
    "data \<noteq> [] \<Longrightarrow> 0 < block_length_for code (length data)"
    "block_length_for code (length data) \<le> block_size"
proof -
  have k: "0 < data_shards (code_scheme code)"
    using assms(1) by (auto simp: code_valid_def scheme_valid_iff)
  show "length data \<le> data_shards (code_scheme code) * block_length_for code (length data)"
    using div_ceil_upper [OF k, of "length data"] by (simp add: block_length_for_def mult.commute)
  show "data \<noteq> [] \<Longrightarrow> 0 < block_length_for code (length data)"
    using k by (simp add: block_length_for_def div_ceil_pos)
  show "block_length_for code (length data) \<le> block_size"
    using assms(2) k by (simp add: block_length_for_def div_ceil_le_iff mult.commute)
qed

text \<open>
  On a stripe that fits, the encoder gives the blocks of the data and their
  parity; this is all that decoding needs to know about it.
\<close>

lemma encode_stripe_blocks:
  assumes code: "code_valid L code" and data: "data \<noteq> []"
    and fits: "length data \<le> data_shards (code_scheme code) * block_size"
  defines "n \<equiv> block_length_for code (length data)"
  defines "blocks \<equiv> map (data_block data n) [0..<data_shards (code_scheme code)]"
  obtains parity where "compute_parity L code blocks = Ok parity"
    "length parity = parity_shards (code_scheme code)" "\<forall>b\<in>set (blocks @ parity). length b = n"
    "encode_stripe L code data block_size = Ok (shard_blocks L (blocks @ parity))"
proof -
  have "0 < n" using block_length_for_bound(2) [OF code fits data] by (simp add: n_def)
  then obtain parity where p: "compute_parity L code blocks = Ok parity"
    "length parity = parity_shards (code_scheme code)" "\<forall>b\<in>set parity. length b = n"
    using compute_parity_encodes [OF code, of blocks n] by (auto simp: blocks_def)
  moreover have "encode_stripe L code data block_size = Ok (shard_blocks L (blocks @ parity))"
    using p data fits by (simp add: encode_stripe_def Let_def n_def blocks_def)
  moreover have "\<forall>b\<in>set (blocks @ parity). length b = n" using p by (auto simp: blocks_def)
  ultimately show ?thesis by (intro that)
qed

section \<open>The decoder\<close>

definition slot_of :: "shard_block list \<Rightarrow> shard_index \<Rightarrow> shard_block option" where
  "slot_of received i = find (\<lambda>b. sb_index b = i) received"

text \<open>The protocol a caller of the decoder keeps to.\<close>

definition protocol_ok :: "scheme \<Rightarrow> shard_index list \<Rightarrow> shard_block list \<Rightarrow> bool" where
  "protocol_ok s requested received \<longleftrightarrow>
     distinct requested \<and> (\<forall>i\<in>set requested. i < total_shards s) \<and>
     distinct (map sb_index received) \<and> (\<forall>b\<in>set received. sb_index b \<in> set requested)"

definition good_indices ::
  "libs \<Rightarrow> nat \<Rightarrow> scheme \<Rightarrow> shard_index list \<Rightarrow> shard_block list \<Rightarrow> shard_index list" where
  "good_indices L n s requested received =
     filter (\<lambda>i. i \<in> set requested \<and> block_fault_of L n (slot_of received i) = None) [0..<total_shards s]"

definition stripe_faults ::
  "libs \<Rightarrow> nat \<Rightarrow> scheme \<Rightarrow> shard_index list \<Rightarrow> shard_block list \<Rightarrow> block_fault list" where
  "stripe_faults L n s requested received =
     map (\<lambda>i. \<lparr>fault_index = i, fault_kind = the (block_fault_of L n (slot_of received i))\<rparr>)
       (filter (\<lambda>i. i \<in> set requested \<and> block_fault_of L n (slot_of received i) \<noteq> None) [0..<total_shards s])"

lemma mark_requested_from:
  "fold_res (mark_requested s) req (map P [0..<total_shards s]) = Ok was \<longleftrightarrow>
     distinct req \<and> (\<forall>i\<in>set req. i < total_shards s \<and> \<not> P i) \<and>
     was = map (\<lambda>i. P i \<or> i \<in> set req) [0..<total_shards s]"
proof (induction req arbitrary: P)
  case (Cons x req)
  show ?case
  proof (cases "x < total_shards s \<and> \<not> P x")
    case True
    then have "mark_requested s x (map P [0..<total_shards s]) = Ok (map (P(x := True)) [0..<total_shards s])"
      by (simp add: mark_requested_def scheme_contains_def map_upt_update del: upt_Suc)
    then have "fold_res (mark_requested s) (x # req) (map P [0..<total_shards s]) = Ok was \<longleftrightarrow>
        fold_res (mark_requested s) req (map (P(x := True)) [0..<total_shards s]) = Ok was"
      by (simp only: fold_res.simps bind_res.simps)
    also have "\<dots> \<longleftrightarrow> distinct req \<and> (\<forall>i\<in>set req. i < total_shards s \<and> \<not> (P(x := True)) i) \<and>
        was = map (\<lambda>i. (P(x := True)) i \<or> i \<in> set req) [0..<total_shards s]"
      by (rule Cons.IH)
    also have "(\<lambda>i. (P(x := True)) i \<or> i \<in> set req) = (\<lambda>i. P i \<or> i \<in> set (x # req))" by auto
    also have "(\<forall>i\<in>set req. i < total_shards s \<and> \<not> (P(x := True)) i) \<longleftrightarrow>
        x \<notin> set req \<and> (\<forall>i\<in>set req. i < total_shards s \<and> \<not> P i)" by auto
    finally show ?thesis using True by auto
  next
    case False
    then show ?thesis by (auto simp: mark_requested_def scheme_contains_def)
  qed
qed auto

lemma mark_requested_Ok:
  "fold_res (mark_requested s) req (replicate (total_shards s) False) = Ok was \<longleftrightarrow>
     distinct req \<and> (\<forall>i\<in>set req. i < total_shards s) \<and> was = map (\<lambda>i. i \<in> set req) [0..<total_shards s]"
  using mark_requested_from [of s req "\<lambda>_. False" was] by (simp add: map_replicate_const)

lemma slot_of_None: "slot_of bs i = None \<longleftrightarrow> i \<notin> sb_index ` set bs"
  by (auto simp: slot_of_def find_None_iff)

lemma slot_of_Cons:
  assumes "sb_index b \<notin> sb_index ` set bs"
  shows "(case slot_of (b # bs) i of Some c \<Rightarrow> Some c | None \<Rightarrow> F i) =
    (case slot_of bs i of Some c \<Rightarrow> Some c | None \<Rightarrow> (F(sb_index b := Some b)) i)"
proof (cases "i = sb_index b")
  case True
  then have "slot_of bs i = None" using assms by (simp add: slot_of_None)
  then show ?thesis using True by (simp add: slot_of_def)
next
  case False
  then show ?thesis by (simp add: slot_of_def split: option.split)
qed

lemma place_received_from:
  "fold_res (place_received s (map P [0..<total_shards s])) bs (map F [0..<total_shards s]) = Ok slots \<longleftrightarrow>
     distinct (map sb_index bs) \<and>
     (\<forall>b\<in>set bs. sb_index b < total_shards s \<and> P (sb_index b) \<and> F (sb_index b) = None) \<and>
     slots = map (\<lambda>i. case slot_of bs i of Some b \<Rightarrow> Some b | None \<Rightarrow> F i) [0..<total_shards s]"
proof (induction bs arbitrary: F)
  case Nil
  then show ?case by (auto simp: slot_of_def)
next
  case (Cons b bs)
  let ?i = "sb_index b"
  show ?case
  proof (cases "?i < total_shards s \<and> P ?i \<and> F ?i = None")
    case True
    then have "place_received s (map P [0..<total_shards s]) b (map F [0..<total_shards s]) =
        Ok (map (F(?i := Some b)) [0..<total_shards s])"
      by (simp add: place_received_def scheme_contains_def map_upt_update del: upt_Suc)
    then have "fold_res (place_received s (map P [0..<total_shards s])) (b # bs) (map F [0..<total_shards s]) = Ok slots
        \<longleftrightarrow> fold_res (place_received s (map P [0..<total_shards s])) bs (map (F(?i := Some b)) [0..<total_shards s]) = Ok slots"
      by (simp only: fold_res.simps bind_res.simps)
    also have "\<dots> \<longleftrightarrow> distinct (map sb_index bs) \<and>
        (\<forall>c\<in>set bs. sb_index c < total_shards s \<and> P (sb_index c) \<and> (F(?i := Some b)) (sb_index c) = None) \<and>
        slots = map (\<lambda>i. case slot_of bs i of Some c \<Rightarrow> Some c | None \<Rightarrow> (F(?i := Some b)) i) [0..<total_shards s]"
      by (rule Cons.IH)
    also have "(\<forall>c\<in>set bs. sb_index c < total_shards s \<and> P (sb_index c) \<and> (F(?i := Some b)) (sb_index c) = None) \<longleftrightarrow>
        ?i \<notin> sb_index ` set bs \<and> (\<forall>c\<in>set bs. sb_index c < total_shards s \<and> P (sb_index c) \<and> F (sb_index c) = None)"
      by (auto simp: image_iff)
    finally show ?thesis using True by (auto simp: slot_of_Cons)
  next
    case False
    then have "\<exists>e. place_received s (map P [0..<total_shards s]) b (map F [0..<total_shards s]) = Err e"
      by (auto simp: place_received_def scheme_contains_def Let_def)
    then show ?thesis using False by auto
  qed
qed

lemma place_received_Ok:
  "fold_res (place_received s (map P [0..<total_shards s])) bs (replicate (total_shards s) None) = Ok slots \<longleftrightarrow>
     distinct (map sb_index bs) \<and> (\<forall>b\<in>set bs. sb_index b < total_shards s \<and> P (sb_index b)) \<and>
     slots = map (slot_of bs) [0..<total_shards s]"
proof -
  have "(\<lambda>i. case slot_of bs i of Some b \<Rightarrow> Some b | None \<Rightarrow> None) = slot_of bs"
    by (auto split: option.splits)
  then show ?thesis
    using place_received_from [of s P bs "\<lambda>_. None" slots] by (simp add: map_replicate_const)
qed

lemma mark_place_not_Panic:
  "fold_res (mark_requested s) req was \<noteq> Panic" "fold_res (place_received s was) bs slots \<noteq> Panic"
proof -
  show "fold_res (mark_requested s) req was \<noteq> Panic"
    by (induction req arbitrary: was) (auto simp: bind_res_eq_Panic mark_requested_def)
  show "fold_res (place_received s was) bs slots \<noteq> Panic"
    by (induction bs arbitrary: slots) (auto simp: bind_res_eq_Panic place_received_def Let_def)
qed

lemma examine_blocks_filter:
  assumes "\<forall>i\<in>set is. i < t"
  shows "examine_blocks L n (map P [0..<t]) (map F [0..<t]) is =
    (map (\<lambda>i. (i, sb_bytes (the (F i)))) (filter (\<lambda>i. P i \<and> block_fault_of L n (F i) = None) is),
     map (\<lambda>i. \<lparr>fault_index = i, fault_kind = the (block_fault_of L n (F i))\<rparr>)
       (filter (\<lambda>i. P i \<and> block_fault_of L n (F i) \<noteq> None) is))"
  using assms by (induction "is") (auto simp: Let_def split: option.splits)

text \<open>Decoding, once the protocol is kept: which blocks count and what is reported.\<close>

lemma decode_stripe_run:
  assumes s: "scheme_valid (code_scheme code)" and len: "data_len \<noteq> 0"
    and ok: "protocol_ok (code_scheme code) requested received"
  shows "decode_stripe L code requested received data_len =
    (let s = code_scheme code; n = block_length_for code data_len;
         good = good_indices L n s requested received; faults = stripe_faults L n s requested received in
     if length good < data_shards s
     then Ok (Unrecoverable (length good) (data_shards s) faults)
     else bind_res (map_err StripeCoding
            (reconstruct L code (map (\<lambda>i. (i, sb_bytes (the (slot_of received i)))) good) [0..<data_shards s]))
            (\<lambda>data_blocks. let data = take data_len (concat data_blocks) in
               if faults = [] then Ok (Intact data) else Ok (Repaired data faults)))"
proof -
  let ?s = "code_scheme code"
  have mark: "fold_res (mark_requested ?s) requested (replicate (total_shards ?s) False) =
      Ok (map (\<lambda>i. i \<in> set requested) [0..<total_shards ?s])"
    using ok by (simp add: mark_requested_Ok protocol_ok_def)
  have place: "fold_res (place_received ?s (map (\<lambda>i. i \<in> set requested) [0..<total_shards ?s])) received
      (replicate (total_shards ?s) None) = Ok (map (slot_of received) [0..<total_shards ?s])"
    using ok by (auto simp: place_received_Ok protocol_ok_def)
  have examine: "examine_blocks L n (map (\<lambda>i. i \<in> set requested) [0..<total_shards ?s])
      (map (slot_of received) [0..<total_shards ?s]) [0..<total_shards ?s] =
      (map (\<lambda>i. (i, sb_bytes (the (slot_of received i)))) (good_indices L n ?s requested received),
       stripe_faults L n ?s requested received)" for n
    by (subst examine_blocks_filter) (auto simp: good_indices_def stripe_faults_def)
  show ?thesis
    unfolding decode_stripe_def Let_def mark place bind_res.simps shard_indices_valid [OF s]
      data_shard_indices_valid [OF s] examine
    using len by simp
qed

lemma decode_stripe_protocol:
  assumes "decode_stripe L code requested received data_len = Ok out"
  shows "data_len \<noteq> 0 \<and> protocol_ok (code_scheme code) requested received"
proof -
  let ?s = "code_scheme code"
  from assms have len: "data_len \<noteq> 0"
    by (cases "data_len = 0") (simp_all add: decode_stripe_def Let_def)
  from assms obtain was slots
    where was: "fold_res (mark_requested ?s) requested (replicate (total_shards ?s) False) = Ok was"
      and slots: "fold_res (place_received ?s was) received (replicate (total_shards ?s) None) = Ok slots"
    by (auto simp: decode_stripe_def Let_def res_simps split: if_splits)
  from was have req: "distinct requested" "\<forall>i\<in>set requested. i < total_shards ?s"
    "was = map (\<lambda>i. i \<in> set requested) [0..<total_shards ?s]"
    by (auto simp: mark_requested_Ok)
  from slots show ?thesis using len req by (auto simp: place_received_Ok protocol_ok_def)
qed

lemma good_indices_bounds:
  "distinct (good_indices L n s requested received)"
  "i \<in> set (good_indices L n s requested received) \<Longrightarrow>
     i < total_shards s \<and> i \<in> set requested \<and>
     (\<exists>b. slot_of received i = Some b \<and> length (sb_bytes b) = n \<and> checksum_block L (sb_bytes b) = sb_checksum b)"
  by (auto simp: good_indices_def block_fault_of_def Let_def split: option.splits if_splits)

text \<open>
  The decoder never fails on a stripe whose requests keep the protocol: the
  blocks themselves only decide between the three outcomes.
\<close>

lemma decode_stripe_total:
  assumes code: "code_valid L code" and len: "data_len \<noteq> 0"
    and ok: "protocol_ok (code_scheme code) requested received"
  shows "\<exists>out. decode_stripe L code requested received data_len = Ok out"
proof -
  let ?s = "code_scheme code" and ?n = "block_length_for code data_len"
  let ?good = "good_indices L ?n ?s requested received"
  let ?usable = "map (\<lambda>i. (i, sb_bytes (the (slot_of received i)))) ?good"
  have s: "scheme_valid ?s" using code by (simp add: code_valid_def)
  have n: "0 < ?n" using s len by (simp add: block_length_for_def div_ceil_pos scheme_valid_iff)
  show ?thesis
  proof (cases "length ?good < data_shards ?s")
    case True
    then show ?thesis by (simp add: decode_stripe_run [OF s len ok] Let_def)
  next
    case False
    have "distinct (map fst ?usable)" using good_indices_bounds(1) by (simp add: o_def)
    moreover have "\<forall>(i, b)\<in>set ?usable. i < total_shards ?s \<and> length b = ?n"
      using good_indices_bounds(2) [of _ L ?n ?s requested received] by fastforce
    moreover have "\<forall>i\<in>set [0..<data_shards ?s]. i < total_shards ?s" by (simp add: total_shards_def)
    moreover have "data_shards ?s \<le> length ?usable" using False by simp
    ultimately obtain blocks where "reconstruct L code ?usable [0..<data_shards ?s] = Ok blocks"
      using reconstruct_total [OF code _ _ n] by blast
    then show ?thesis by (simp add: decode_stripe_run [OF s len ok] Let_def)
  qed
qed

text \<open>
  The contract of the pair.  Whatever was received for an encoded stripe, as
  long as every block that passes its own checksum holds the encoder's bytes:
  from k passing blocks the data comes back exactly, flagged as repaired when
  any requested block was bad or absent; with fewer the stripe is unrecoverable.
\<close>

definition genuine :: "libs \<Rightarrow> nat \<Rightarrow> shard_block list \<Rightarrow> shard_block list \<Rightarrow> bool" where
  "genuine L n blocks received \<longleftrightarrow>
     (\<forall>b\<in>set received. block_fault_of L n (Some b) = None \<longrightarrow> sb_index b < length blocks \<longrightarrow>
        sb_bytes b = sb_bytes (blocks ! sb_index b))"

definition decoded_as ::
  "libs \<Rightarrow> nat \<Rightarrow> scheme \<Rightarrow> shard_index list \<Rightarrow> shard_block list \<Rightarrow> bytes \<Rightarrow> decoded_stripe" where
  "decoded_as L n s requested received data =
     (let good = length (good_indices L n s requested received);
          faults = stripe_faults L n s requested received in
      if good < data_shards s then Unrecoverable good (data_shards s) faults
      else if faults = [] then Intact data else Repaired data faults)"

lemma decode_encoded_stripe:
  assumes code: "code_valid L code"
    and enc: "encode_stripe L code data block_size = Ok blocks"
    and ok: "protocol_ok (code_scheme code) requested received"
    and gen: "genuine L (block_length_for code (length data)) blocks received"
  shows "decode_stripe L code requested received (length data) =
    Ok (decoded_as L (block_length_for code (length data)) (code_scheme code) requested received data)"
proof -
  let ?s = "code_scheme code" and ?n = "block_length_for code (length data)"
  let ?k = "data_shards ?s" and ?good = "good_indices L ?n ?s requested received"
  let ?db = "map (data_block data ?n) [0..<?k]"
  let ?usable = "map (\<lambda>i. (i, sb_bytes (the (slot_of received i)))) ?good"
  have s: "scheme_valid ?s" using code by (simp add: code_valid_def)
  have data: "data \<noteq> []" "length data \<le> ?k * block_size"
    using enc by (auto simp: encode_stripe_def Let_def split: if_splits)
  have len: "length data \<noteq> 0" using data(1) by simp
  obtain parity where p: "compute_parity L code ?db = Ok parity" "length parity = parity_shards ?s"
    "encode_stripe L code data block_size = Ok (shard_blocks L (?db @ parity))"
    using encode_stripe_blocks [OF code data] by metis
  have total: "length (?db @ parity) = total_shards ?s" by (simp add: p(2) total_shards_def)
  have small: "length (?db @ parity) \<le> 256" using scheme_valid_total [OF s] unfolding total by simp
  have blocks: "blocks = shard_blocks L (?db @ parity)" using p(3) enc by simp
  show ?thesis
  proof (cases "length ?good < ?k")
    case True
    then show ?thesis by (simp add: decode_stripe_run [OF s len ok] decoded_as_def Let_def)
  next
    case False
    have usable: "i < total_shards ?s \<and> sb_bytes (the (slot_of received i)) = (?db @ parity) ! i"
      if "i \<in> set ?good" for i
    proof -
      from good_indices_bounds(2) [OF that] obtain b
        where b: "i < total_shards ?s" "slot_of received i = Some b" "block_fault_of L ?n (Some b) = None"
        by (auto simp: block_fault_of_def Let_def)
      then have "b \<in> set received" "sb_index b = i"
        by (auto simp: slot_of_def find_Some_iff)
      then have "sb_bytes b = sb_bytes (blocks ! i)"
        using gen b total unfolding genuine_def blocks by (metis length_shard_blocks)
      then show ?thesis using b(1,2) nth_shard_blocks [OF _ small, of i L] total by (simp add: blocks)
    qed
    have "reconstruct L code ?usable [0..<?k] = Ok (map (\<lambda>i. (?db @ parity) ! i) [0..<?k])"
    proof (rule reconstruct_encoded_full [OF code _ _ _ p(1)])
      show "distinct (map fst ?usable)" using good_indices_bounds(1) by (simp add: o_def)
      show "0 < ?n" using block_length_for_bound(2) [OF code data(2,1)] .
    qed (use False usable in \<open>auto simp: total_shards_def\<close>)
    also have "map (\<lambda>i. (?db @ parity) ! i) [0..<?k] = ?db"
      by (rule nth_equalityI) (auto simp: nth_append)
    finally have rec: "reconstruct L code ?usable [0..<?k] = Ok ?db" .
    have "take (length data) (concat ?db) = data"
      using join_data_blocks block_length_for_bound(1) [OF code data(2)] by blast
    then show ?thesis
      using False by (simp add: decode_stripe_run [OF s len ok] rec decoded_as_def Let_def)
  qed
qed

section \<open>What the stripe codec promises\<close>

lemma nth_map_sb_index:
  assumes "encode_stripe L code data block_size = Ok blocks" "code_valid L code" "data \<noteq> []"
    "length data \<le> data_shards (code_scheme code) * block_size"
  shows "length blocks = total_shards (code_scheme code)"
    "i < length blocks \<Longrightarrow> sb_index (blocks ! i) = i \<and>
       block_fault_of L (block_length_for code (length data)) (Some (blocks ! i)) = None"
proof -
  let ?s = "code_scheme code" and ?n = "block_length_for code (length data)"
  from encode_stripe_blocks [OF assms(2,3,4)] obtain parity where
    parity: "length parity = parity_shards ?s"
    "\<forall>b\<in>set (map (data_block data ?n) [0..<data_shards ?s] @ parity). length b = ?n"
    "encode_stripe L code data block_size = Ok (shard_blocks L (map (data_block data ?n) [0..<data_shards ?s] @ parity))"
    by metis
  define all where "all = map (data_block data ?n) [0..<data_shards ?s] @ parity"
  have blocks: "blocks = shard_blocks L all" using parity(3) assms(1) by (simp add: all_def)
  have total: "length all = total_shards ?s" using parity(1) by (simp add: all_def total_shards_def)
  then show "length blocks = total_shards ?s" by (simp add: blocks)
  have small: "length all \<le> 256"
    using total scheme_valid_total [of ?s] assms(2) by (simp add: code_valid_def)
  assume i: "i < length blocks"
  then have "length (all ! i) = ?n" using parity(2) by (simp add: blocks all_def del: set_append)
  then show "sb_index (blocks ! i) = i \<and> block_fault_of L ?n (Some (blocks ! i)) = None"
    using i small by (simp add: blocks nth_shard_blocks block_fault_of_def block_matches_checksum_def)
qed

text \<open>C1: A stripe encoded into its shard blocks is read back unchanged from any choice of at
  least as many different shards as there are data shards: encoding succeeds, and decoding
  the chosen blocks gives the data with no fault reported.\<close>

theorem stripe_survives_losses:
  assumes code: "code_valid L code" and data: "data \<noteq> []"
    and fits: "length data \<le> data_shards (code_scheme code) * block_size"
    and keep: "distinct keep" "\<forall>i\<in>set keep. i < total_shards (code_scheme code)"
    and enough: "data_shards (code_scheme code) \<le> length keep"
  shows "\<exists>blocks. encode_stripe L code data block_size = Ok blocks \<and>
    decode_stripe L code keep (map (\<lambda>i. blocks ! i) keep) (length data) = Ok (Intact data)"
proof -
  let ?s = "code_scheme code" and ?n = "block_length_for code (length data)"
  obtain blocks where enc: "encode_stripe L code data block_size = Ok blocks"
    using encode_stripe_blocks [OF code data fits] by metis
  note block = nth_map_sb_index [OF enc code data fits]
  let ?received = "map (\<lambda>i. blocks ! i) keep"
  have index: "sb_index (blocks ! i) = i" if "i \<in> set keep" for i using that block keep(2) by simp
  have "map sb_index ?received = keep" using index by (simp add: map_idI)
  then have ok: "protocol_ok ?s keep ?received"
    using keep index by (auto simp: protocol_ok_def)
  have slot: "slot_of ?received i = Some (blocks ! i)" if "i \<in> set keep" for i
  proof -
    have "i \<in> sb_index ` set ?received" using that index by force
    then have "slot_of ?received i \<noteq> None" by (simp only: slot_of_None not_not)
    then obtain b where b: "slot_of ?received i = Some b" by auto
    then have "b \<in> set ?received" "sb_index b = i" by (auto simp: slot_of_def find_Some_iff)
    then show ?thesis using b index by auto
  qed
  have fine: "block_fault_of L ?n (slot_of ?received i) = None" if "i \<in> set keep" for i
    using that slot block keep(2) by simp
  have "good_indices L ?n ?s keep ?received = filter (\<lambda>i. i \<in> set keep) [0..<total_shards ?s]"
    using fine by (auto simp: good_indices_def intro!: filter_cong)
  moreover have "set (filter (\<lambda>i. i \<in> set keep) [0..<total_shards ?s]) = set keep" using keep(2) by auto
  ultimately have "length (good_indices L ?n ?s keep ?received) = length keep"
    using keep(1) by (metis distinct_card distinct_filter distinct_upt)
  moreover have "stripe_faults L ?n ?s keep ?received = []"
    using fine by (simp add: stripe_faults_def filter_empty_conv)
  moreover have "genuine L ?n blocks ?received" using index by (auto simp: genuine_def)
  ultimately show ?thesis
    using decode_encoded_stripe [OF code enc ok] enc enough by (simp add: decoded_as_def)
qed

theorem stripe_survives_losses_witness:
  "\<exists>blocks. encode_stripe demo_libs demo_code [7, 8, 9] 2 = Ok blocks \<and>
    decode_stripe demo_libs demo_code [2, 0] (map (\<lambda>i. blocks ! i) [2, 0]) (length [7::8 word, 8, 9]) = Ok (Intact [7, 8, 9])"
  by (rule stripe_survives_losses) simp_all

text \<open>C2: Whatever blocks come back for a stripe, damaged ones included, as long as a block that
  passes its checksum is the block that was written, decoding gives exactly the data (with the
  faulty shards named) when enough good blocks are there, and says how many there are when not.\<close>

theorem decode_stripe_faithful:
  assumes "code_valid L code" "encode_stripe L code data block_size = Ok blocks"
    "protocol_ok (code_scheme code) requested received"
    "genuine L (block_length_for code (length data)) blocks received"
  shows "decode_stripe L code requested received (length data) =
    Ok (let n = block_length_for code (length data); s = code_scheme code;
            good = length (good_indices L n s requested received);
            faults = stripe_faults L n s requested received in
        if good < data_shards s then Unrecoverable good (data_shards s) faults
        else if faults = [] then Intact data else Repaired data faults)"
  using decode_encoded_stripe [OF assms] by (simp add: decoded_as_def Let_def)

definition demo_received :: "shard_block list" where
  "demo_received =
     [\<lparr>sb_index = 0, sb_bytes = [5], sb_checksum = 0\<rparr>,
      \<lparr>sb_index = 1, sb_bytes = [9], sb_checksum = 10\<rparr>,
      \<lparr>sb_index = 2, sb_bytes = [14], sb_checksum = 15\<rparr>]"

lemma demo_encode:
  "encode_stripe demo_libs demo_code [7, 9] 1 =
    Ok [\<lparr>sb_index = 0, sb_bytes = [7], sb_checksum = 8\<rparr>,
        \<lparr>sb_index = 1, sb_bytes = [9], sb_checksum = 10\<rparr>,
        \<lparr>sb_index = 2, sb_bytes = [14], sb_checksum = 15\<rparr>]"
  by (simp add: encode_stripe_def demo_code_def demo_scheme_def demo_libs_simps demo_checksum_def
      compute_parity_def shard_blocks_def block_length_for_def div_ceil_def data_block_def resize_def
      Let_def upt_rec checksum_block_def slice_def xor_block_def)

theorem decode_stripe_faithful_witness:
  "decode_stripe demo_libs demo_code [0, 1, 2] demo_received (length [7::8 word, 9]) =
   Ok (let n = block_length_for demo_code (length [7::8 word, 9]); s = code_scheme demo_code;
           good = length (good_indices demo_libs n s [0, 1, 2] demo_received);
           faults = stripe_faults demo_libs n s [0, 1, 2] demo_received in
       if good < data_shards s then Unrecoverable good (data_shards s) faults
       else if faults = [] then Intact [7, 9] else Repaired [7, 9] faults)"
  by (rule decode_stripe_faithful [OF demo_code_valid demo_encode])
    (simp_all add: protocol_ok_def genuine_def block_fault_of_def demo_received_def demo_libs_simps
      demo_checksum_def checksum_block_def block_matches_checksum_def)

lemma decode_stripe_not_Panic:
  assumes "code_valid L code"
  shows "decode_stripe L code requested received data_len \<noteq> Panic"
proof -
  have "map_err StripeCoding (reconstruct L code present wanted) \<noteq> Panic" for present wanted
    using reconstruct_not_Panic [OF assms, of present wanted]
    by (cases "reconstruct L code present wanted") auto
  then show ?thesis
    using mark_place_not_Panic
    by (auto simp: decode_stripe_def Let_def res_simps bind_res_eq_Panic split: prod.splits if_splits)
qed

text \<open>C3: Decoding fails exactly when it is asked wrongly: it gives a result if and only if the
  stripe is not empty, every requested shard is requested once and exists, and every received
  block was requested and came once.  It never panics.\<close>

theorem decode_stripe_answers:
  assumes "code_valid L code"
  shows "decode_stripe L code requested received data_len \<noteq> Panic \<and>
    ((\<exists>out. decode_stripe L code requested received data_len = Ok out) \<longleftrightarrow>
     data_len \<noteq> 0 \<and> protocol_ok (code_scheme code) requested received)"
  using decode_stripe_protocol decode_stripe_total [OF assms] decode_stripe_not_Panic [OF assms] by blast

theorem decode_stripe_answers_witness:
  "decode_stripe demo_libs demo_code [0, 5] [] 4 \<noteq> Panic \<and>
   ((\<exists>out. decode_stripe demo_libs demo_code [0, 5] [] 4 = Ok out) \<longleftrightarrow>
    (4::nat) \<noteq> 0 \<and> protocol_ok (code_scheme demo_code) [0, 5] [])"
  by (rule decode_stripe_answers) simp

end
