(* ===== verification/ShardFile.thy ===== *)
theory ShardFile
  imports Stripe Version
begin

text \<open>
  The shard file (\<open>djbod-core/src/shardfile.rs\<close>): a 4096-byte header page, the
  blocks, a footer with the checksum table and a 16-byte trailer.  The writer
  and the reader work on a file's bytes; a write goes to the file's cursor and
  a read that leaves the file is the I/O error of \<open>read_exact_at\<close>.  Lengths
  are \<open>u64\<close> values; arithmetic the source leaves unchecked wraps as in a
  release build.
\<close>

section \<open>Format constants and data\<close>

definition MAGIC :: bytes where "MAGIC = as_bytes ''DJBOD-SF''"
definition FORMAT_VERSION :: nat where "FORMAT_VERSION = 1"
definition CHECKSUM_ALGORITHM_XXH3_64 :: nat where "CHECKSUM_ALGORITHM_XXH3_64 = 1"
definition HEADER_LEN :: nat where "HEADER_LEN = 4096"
definition FOOTER_FIXED_LEN :: nat where "FOOTER_FIXED_LEN = 40"
definition TRAILER_LEN :: nat where "TRAILER_LEN = 16"

abbreviation (input) OFF_HEADER_MAGIC :: nat where "OFF_HEADER_MAGIC \<equiv> 0"
abbreviation (input) OFF_HEADER_FORMAT_VERSION :: nat where "OFF_HEADER_FORMAT_VERSION \<equiv> 8"
abbreviation (input) OFF_HEADER_CHECKSUM_ALGORITHM :: nat where "OFF_HEADER_CHECKSUM_ALGORITHM \<equiv> 12"
abbreviation (input) OFF_HEADER_FLAGS :: nat where "OFF_HEADER_FLAGS \<equiv> 16"
abbreviation (input) OFF_HEADER_K :: nat where "OFF_HEADER_K \<equiv> 20"
abbreviation (input) OFF_HEADER_M :: nat where "OFF_HEADER_M \<equiv> 21"
abbreviation (input) OFF_HEADER_SHARD_INDEX :: nat where "OFF_HEADER_SHARD_INDEX \<equiv> 22"
abbreviation (input) OFF_HEADER_BLOCK_LENGTH :: nat where "OFF_HEADER_BLOCK_LENGTH \<equiv> 24"
abbreviation (input) OFF_HEADER_KEY_HASH :: nat where "OFF_HEADER_KEY_HASH \<equiv> 32"
abbreviation (input) OFF_HEADER_VERSION_ID :: nat where "OFF_HEADER_VERSION_ID \<equiv> 64"
abbreviation (input) OFF_HEADER_CHECKSUM :: nat where "OFF_HEADER_CHECKSUM \<equiv> 80"
abbreviation (input) OFF_FOOTER_BLOCK_COUNT :: nat where "OFF_FOOTER_BLOCK_COUNT \<equiv> 0"
abbreviation (input) OFF_FOOTER_LAST_BLOCK_LENGTH :: nat where "OFF_FOOTER_LAST_BLOCK_LENGTH \<equiv> 8"
abbreviation (input) OFF_FOOTER_OBJECT_SIZE :: nat where "OFF_FOOTER_OBJECT_SIZE \<equiv> 16"
abbreviation (input) OFF_FOOTER_OBJECT_CHECKSUM :: nat where "OFF_FOOTER_OBJECT_CHECKSUM \<equiv> 24"
abbreviation (input) OFF_FOOTER_CHECKSUM :: nat where "OFF_FOOTER_CHECKSUM \<equiv> 32"
abbreviation (input) OFF_FOOTER_TABLE :: nat where "OFF_FOOTER_TABLE \<equiv> 40"

record shard_file_header =
  sfh_scheme :: scheme
  sfh_shard_index :: shard_index
  sfh_block_length :: nat
  sfh_key_hash :: key_hash
  sfh_version_id :: version_id

record shard_file_footer =
  sff_block_count :: nat
  sff_last_block_length :: nat
  sff_object_size :: nat
  sff_object_checksum :: block_checksum
  sff_checksums :: "block_checksum list"

record geometry =
  geo_block_count :: nat
  geo_last_block_length :: nat

datatype shard_file_error =
    SfIo
  | SfIoNotFound
  | SfTooShort nat
  | SfBadMagic
  | SfUnsupportedFormatVersion nat
  | SfUnsupportedChecksumAlgorithm nat
  | SfHeaderChecksumMismatch
  | SfInvalidScheme scheme_error
  | SfShardIndexOutOfRange shard_index
  | SfTrailerInvariant nat nat nat
  | SfBadFooterLength nat
  | SfFooterChecksumMismatch
  | SfInconsistentFooter
  | SfBlockOutOfRange nat nat
  | SfWrongShardIndex shard_index shard_index
  | SfBadBlockLength nat nat
  | SfBlockAfterShortBlock
  | SfSuppliedChecksumMismatch block_checksum block_checksum
  | SfNoBlocks
  | SfGeometryMismatch nat nat nat nat nat

section \<open>Geometry\<close>

text \<open>Dividing by a stripe length that wrapped to zero panics.\<close>

definition shard_geometry :: "scheme \<Rightarrow> nat \<Rightarrow> nat \<Rightarrow> (shard_file_error, geometry option) res" where
  "shard_geometry s block_length object_size =
     (if object_size = 0 \<or> block_length = 0 then Ok None
      else let k = data_shards s; stripe_bytes = wrap64 (k * block_length) in
        if stripe_bytes = 0 then Panic
        else let block_count = div_ceil object_size stripe_bytes;
                 last_stripe_bytes = wsub64 object_size (wrap64 (wsub64 block_count 1 * stripe_bytes))
             in Ok (Some \<lparr>geo_block_count = block_count,
                          geo_last_block_length = div_ceil last_stripe_bytes k\<rparr>))"

definition shard_file_length :: "scheme \<Rightarrow> nat \<Rightarrow> nat \<Rightarrow> (shard_file_error, nat option) res" where
  "shard_file_length s block_length object_size =
     bind_res (shard_geometry s block_length object_size) (\<lambda>geometry.
       Ok (map_option (\<lambda>g.
         wrap64 (HEADER_LEN + wrap64 (wsub64 (geo_block_count g) 1 * block_length)
                 + geo_last_block_length g + FOOTER_FIXED_LEN + 8 * geo_block_count g + TRAILER_LEN)) geometry))"

section \<open>Fields\<close>

definition write_u32 :: "bytes \<Rightarrow> nat \<Rightarrow> nat \<Rightarrow> bytes" where
  "write_u32 buf offset v = write_at buf offset (le_bytes 4 v)"

definition write_u64 :: "bytes \<Rightarrow> nat \<Rightarrow> nat \<Rightarrow> bytes" where
  "write_u64 buf offset v = write_at buf offset (le_bytes 8 v)"

definition read_u32 :: "bytes \<Rightarrow> nat \<Rightarrow> nat" where
  "read_u32 buf offset = le_nat (slice buf offset 4)"

definition read_u64 :: "bytes \<Rightarrow> nat \<Rightarrow> nat" where
  "read_u64 buf offset = le_nat (slice buf offset 8)"

definition checksum_with_field_zeroed :: "libs \<Rightarrow> bytes \<Rightarrow> nat \<Rightarrow> block_checksum" where
  "checksum_with_field_zeroed L bs zeroed_at = checksum_block L (write_at bs zeroed_at (replicate 8 0))"

section \<open>Header and footer\<close>

text \<open>The header page without its checksum, then the page with it.\<close>

definition header_page :: "shard_file_header \<Rightarrow> bytes" where
  "header_page h =
     (let page = replicate HEADER_LEN 0;
          page = write_at page OFF_HEADER_MAGIC MAGIC;
          page = write_u32 page OFF_HEADER_FORMAT_VERSION FORMAT_VERSION;
          page = write_u32 page OFF_HEADER_CHECKSUM_ALGORITHM CHECKSUM_ALGORITHM_XXH3_64;
          page = write_u32 page OFF_HEADER_FLAGS 0;
          page = page[OFF_HEADER_K := word_of_nat (data_shards (sfh_scheme h))];
          page = page[OFF_HEADER_M := word_of_nat (parity_shards (sfh_scheme h))];
          page = page[OFF_HEADER_SHARD_INDEX := word_of_nat (sfh_shard_index h)];
          page = write_u64 page OFF_HEADER_BLOCK_LENGTH (sfh_block_length h);
          page = write_at page OFF_HEADER_KEY_HASH (sfh_key_hash h)
      in write_at page OFF_HEADER_VERSION_ID (sfh_version_id h))"

definition header_encode :: "libs \<Rightarrow> shard_file_header \<Rightarrow> bytes" where
  "header_encode L h =
     (let page = header_page h in
      write_u64 page OFF_HEADER_CHECKSUM (unat (checksum_with_field_zeroed L page OFF_HEADER_CHECKSUM)))"

definition header_decode :: "libs \<Rightarrow> bytes \<Rightarrow> (shard_file_error, shard_file_header) res" where
  "header_decode L page =
     (if length page \<noteq> HEADER_LEN then Err (SfTooShort (length page))
      else if slice page OFF_HEADER_MAGIC 8 \<noteq> MAGIC then Err SfBadMagic
      else let format_version = read_u32 page OFF_HEADER_FORMAT_VERSION in
      if format_version \<noteq> FORMAT_VERSION then Err (SfUnsupportedFormatVersion format_version)
      else let checksum_algorithm = read_u32 page OFF_HEADER_CHECKSUM_ALGORITHM in
      if checksum_algorithm \<noteq> CHECKSUM_ALGORITHM_XXH3_64
      then Err (SfUnsupportedChecksumAlgorithm checksum_algorithm)
      else let stored = word_of_nat (read_u64 page OFF_HEADER_CHECKSUM) in
      if checksum_with_field_zeroed L page OFF_HEADER_CHECKSUM \<noteq> stored then Err SfHeaderChecksumMismatch
      else bind_res (map_err SfInvalidScheme
             (scheme_new (unat (page ! OFF_HEADER_K)) (unat (page ! OFF_HEADER_M)))) (\<lambda>s.
        let shard_index = unat (page ! OFF_HEADER_SHARD_INDEX) in
        if \<not> scheme_contains s shard_index then Err (SfShardIndexOutOfRange shard_index)
        else Ok \<lparr>sfh_scheme = s, sfh_shard_index = shard_index,
                 sfh_block_length = read_u64 page OFF_HEADER_BLOCK_LENGTH,
                 sfh_key_hash = slice page OFF_HEADER_KEY_HASH 32,
                 sfh_version_id = slice page OFF_HEADER_VERSION_ID 16\<rparr>))"

definition encoded_length :: "shard_file_footer \<Rightarrow> nat" where
  "encoded_length f = FOOTER_FIXED_LEN + 8 * length (sff_checksums f)"

fun write_table :: "bytes \<Rightarrow> nat \<Rightarrow> block_checksum list \<Rightarrow> bytes" where
  "write_table bs i [] = bs"
| "write_table bs i (c # cs) = write_table (write_u64 bs (OFF_FOOTER_TABLE + 8 * i) (unat c)) (Suc i) cs"

definition footer_bytes :: "shard_file_footer \<Rightarrow> nat \<Rightarrow> bytes" where
  "footer_bytes f footer_offset =
     (let footer_len = encoded_length f;
          bs = replicate (footer_len + TRAILER_LEN) 0;
          bs = write_u64 bs OFF_FOOTER_BLOCK_COUNT (sff_block_count f);
          bs = write_u64 bs OFF_FOOTER_LAST_BLOCK_LENGTH (sff_last_block_length f);
          bs = write_u64 bs OFF_FOOTER_OBJECT_SIZE (sff_object_size f);
          bs = write_u64 bs OFF_FOOTER_OBJECT_CHECKSUM (unat (sff_object_checksum f));
          bs = write_table bs 0 (sff_checksums f);
          bs = write_u64 bs footer_len footer_len
      in write_u64 bs (footer_len + 8) footer_offset)"

definition encode_with_trailer :: "libs \<Rightarrow> shard_file_footer \<Rightarrow> nat \<Rightarrow> bytes" where
  "encode_with_trailer L f footer_offset =
     (let bs = footer_bytes f footer_offset in
      write_u64 bs OFF_FOOTER_CHECKSUM (unat (checksum_with_field_zeroed L bs OFF_FOOTER_CHECKSUM)))"

definition decode_with_trailer :: "libs \<Rightarrow> bytes \<Rightarrow> (shard_file_error, shard_file_footer) res" where
  "decode_with_trailer L bs =
     (let footer_len = wsub64 (length bs) TRAILER_LEN in
      if footer_len < FOOTER_FIXED_LEN \<or> (footer_len - FOOTER_FIXED_LEN) mod 8 \<noteq> 0
      then Err (SfBadFooterLength footer_len)
      else if length bs < OFF_FOOTER_TABLE then Panic
      else let stored = word_of_nat (read_u64 bs OFF_FOOTER_CHECKSUM) in
      if checksum_with_field_zeroed L bs OFF_FOOTER_CHECKSUM \<noteq> stored then Err SfFooterChecksumMismatch
      else let block_count = read_u64 bs OFF_FOOTER_BLOCK_COUNT;
               table_entries = (footer_len - FOOTER_FIXED_LEN) div 8 in
      if block_count \<noteq> table_entries then Err SfInconsistentFooter
      else if block_count = 0 then Err SfNoBlocks
      else Ok \<lparr>sff_block_count = block_count,
               sff_last_block_length = read_u64 bs OFF_FOOTER_LAST_BLOCK_LENGTH,
               sff_object_size = read_u64 bs OFF_FOOTER_OBJECT_SIZE,
               sff_object_checksum = word_of_nat (read_u64 bs OFF_FOOTER_OBJECT_CHECKSUM),
               sff_checksums = map (\<lambda>i. word_of_nat (read_u64 bs (OFF_FOOTER_TABLE + 8 * i))) [0..<block_count]\<rparr>)"

section \<open>The writer\<close>

record disk_file =
  df_content :: bytes
  df_cursor :: nat

definition write_all :: "disk_file \<Rightarrow> bytes \<Rightarrow> disk_file" where
  "write_all f bs = \<lparr>df_content = write_at (df_content f) (df_cursor f) bs,
                     df_cursor = df_cursor f + length bs\<rparr>"

record shard_file_writer =
  sw_file :: disk_file
  sw_header :: shard_file_header
  sw_checksums :: "block_checksum list"
  sw_last_block_length :: nat
  sw_short_block_written :: bool

text \<open>
  Each call that touches the disk takes whether the disk let it through; a
  refusal is the error \<open>SfIo\<close>.  A reservation extends the file with zeros.
\<close>

definition create_with_reservation ::
  "libs \<Rightarrow> bool \<Rightarrow> shard_file_header \<Rightarrow> nat option \<Rightarrow> (shard_file_error, shard_file_writer) res" where
  "create_with_reservation L disk_ok header reserve_length =
     (if \<not> scheme_contains (sfh_scheme header) (sfh_shard_index header)
      then Err (SfShardIndexOutOfRange (sfh_shard_index header))
      else if \<not> disk_ok then Err SfIo
      else let content = (case reserve_length of None \<Rightarrow> [] | Some len \<Rightarrow> replicate len 0);
               file = write_all \<lparr>df_content = content, df_cursor = 0\<rparr> (header_encode L header)
           in Ok \<lparr>sw_file = file, sw_header = header, sw_checksums = [],
                  sw_last_block_length = 0, sw_short_block_written = False\<rparr>)"

definition append_block ::
  "libs \<Rightarrow> bool \<Rightarrow> shard_block \<Rightarrow> shard_file_writer \<Rightarrow> (shard_file_error, shard_file_writer) res" where
  "append_block L disk_ok block w =
     (let header = sw_header w; len = length (sb_bytes block) in
      if sb_index block \<noteq> sfh_shard_index header
      then Err (SfWrongShardIndex (sfh_shard_index header) (sb_index block))
      else if sw_short_block_written w then Err SfBlockAfterShortBlock
      else if len = 0 \<or> len > sfh_block_length header
      then Err (SfBadBlockLength len (sfh_block_length header))
      else let computed = checksum_block L (sb_bytes block) in
      if computed \<noteq> sb_checksum block then Err (SfSuppliedChecksumMismatch (sb_checksum block) computed)
      else if \<not> disk_ok then Err SfIo
      else Ok (w\<lparr>sw_file := write_all (sw_file w) (sb_bytes block),
                 sw_checksums := sw_checksums w @ [computed],
                 sw_last_block_length := len,
                 sw_short_block_written := (sw_short_block_written w \<or> len < sfh_block_length header)\<rparr>))"

definition footer_offset_of :: "shard_file_header \<Rightarrow> shard_file_footer \<Rightarrow> nat" where
  "footer_offset_of header footer =
     wrap64 (HEADER_LEN + wrap64 (wsub64 (sff_block_count footer) 1 * sfh_block_length header)
             + sff_last_block_length footer)"

text \<open>The comparison with the expected geometry, shared by the writer's end and the reader's start.\<close>

definition check_geometry ::
  "shard_file_header \<Rightarrow> nat \<Rightarrow> nat \<Rightarrow> nat \<Rightarrow> (shard_file_error, unit) res" where
  "check_geometry header object_size actual_blocks actual_last =
     bind_res (shard_geometry (sfh_scheme header) (sfh_block_length header) object_size) (\<lambda>expected.
       if (case expected of
             Some g \<Rightarrow> geo_block_count g = actual_blocks \<and> geo_last_block_length g = actual_last
           | None \<Rightarrow> False)
       then Ok ()
       else let (expected_blocks, expected_last) =
                  (case expected of Some g \<Rightarrow> (geo_block_count g, geo_last_block_length g) | None \<Rightarrow> (0, 0))
            in Err (SfGeometryMismatch object_size expected_blocks expected_last actual_blocks actual_last))"

definition writer_finish ::
  "libs \<Rightarrow> bool \<Rightarrow> nat \<Rightarrow> block_checksum \<Rightarrow> shard_file_writer
   \<Rightarrow> (shard_file_error, shard_file_footer \<times> bytes) res" where
  "writer_finish L disk_ok object_size object_checksum w =
     (if sw_checksums w = [] then Err SfNoBlocks
      else let actual_blocks = length (sw_checksums w) in
      bind_res (check_geometry (sw_header w) object_size actual_blocks (sw_last_block_length w)) (\<lambda>_.
      let footer = \<lparr>sff_block_count = actual_blocks, sff_last_block_length = sw_last_block_length w,
                    sff_object_size = object_size, sff_object_checksum = object_checksum,
                    sff_checksums = sw_checksums w\<rparr>;
          footer_offset = footer_offset_of (sw_header w) footer
      in if \<not> disk_ok then Err SfIo
         else Ok (footer, df_content (write_all (sw_file w) (encode_with_trailer L footer footer_offset)))))"

section \<open>The reader\<close>

record shard_file_reader =
  sr_file :: bytes
  sr_header :: shard_file_header
  sr_footer :: shard_file_footer

definition read_exact_at :: "bytes \<Rightarrow> nat \<Rightarrow> nat \<Rightarrow> (shard_file_error, bytes) res" where
  "read_exact_at file len offset =
     (if offset + len \<le> length file then Ok (slice file offset len) else Err SfIo)"

definition check_trailer :: "bytes \<Rightarrow> (shard_file_error, nat \<times> nat) res" where
  "check_trailer file =
     (let file_length = length file in
      bind_res (read_exact_at file TRAILER_LEN (file_length - TRAILER_LEN)) (\<lambda>trailer.
      let footer_length = read_u64 trailer 0;
          footer_offset = read_u64 trailer 8;
          described_length = Option.bind (checked_add64 footer_offset footer_length)
                               (\<lambda>n. checked_add64 n TRAILER_LEN)
      in if described_length \<noteq> Some file_length
         then Err (SfTrailerInvariant footer_offset footer_length file_length)
         else if footer_length < FOOTER_FIXED_LEN \<or> (footer_length - FOOTER_FIXED_LEN) mod 8 \<noteq> 0
         then Err (SfBadFooterLength footer_length)
         else Ok (footer_length, footer_offset)))"

definition reader_open :: "libs \<Rightarrow> bytes \<Rightarrow> (shard_file_error, shard_file_reader) res" where
  "reader_open L file =
     (let file_length = length file in
      if file_length < HEADER_LEN + 1 + FOOTER_FIXED_LEN + 8 + TRAILER_LEN then Err (SfTooShort file_length)
      else bind_res (check_trailer file) (\<lambda>(footer_length, footer_offset).
      bind_res (read_exact_at file (footer_length + TRAILER_LEN) footer_offset) (\<lambda>bs.
      bind_res (decode_with_trailer L bs) (\<lambda>footer.
      bind_res (read_exact_at file HEADER_LEN 0) (\<lambda>page.
      bind_res (header_decode L page) (\<lambda>header.
      if sff_last_block_length footer = 0 \<or> sff_last_block_length footer > sfh_block_length header
      then Err SfInconsistentFooter
      else if footer_offset_of header footer \<noteq> footer_offset then Err SfInconsistentFooter
      else bind_res (check_geometry header (sff_object_size footer)
                       (sff_block_count footer) (sff_last_block_length footer)) (\<lambda>_.
           Ok \<lparr>sr_file = file, sr_header = header, sr_footer = footer\<rparr>)))))))"

definition reader_block_length :: "shard_file_reader \<Rightarrow> nat \<Rightarrow> (shard_file_error, nat) res" where
  "reader_block_length r index =
     (let count = sff_block_count (sr_footer r) in
      if index \<ge> count then Err (SfBlockOutOfRange index count)
      else if index = count - 1 then Ok (sff_last_block_length (sr_footer r))
      else Ok (sfh_block_length (sr_header r)))"

definition read_block :: "shard_file_reader \<Rightarrow> nat \<Rightarrow> (shard_file_error, shard_block) res" where
  "read_block r index =
     bind_res (reader_block_length r index) (\<lambda>len.
     bind_res (read_exact_at (sr_file r) len
                 (wrap64 (HEADER_LEN + wrap64 (index * sfh_block_length (sr_header r))))) (\<lambda>bs.
     Ok \<lparr>sb_index = sfh_shard_index (sr_header r), sb_bytes = bs,
          sb_checksum = sff_checksums (sr_footer r) ! index\<rparr>))"

section \<open>Round trip of the header\<close>

lemmas field_defs = write_u32_def write_u64_def read_u32_def read_u64_def
lemmas format_constants = HEADER_LEN_def FOOTER_FIXED_LEN_def TRAILER_LEN_def FORMAT_VERSION_def
  CHECKSUM_ALGORITHM_XXH3_64_def

lemma length_MAGIC [simp]: "length MAGIC = 8"
  by (simp add: MAGIC_def as_bytes_def)

lemma list_update_write_at: "i < length xs \<Longrightarrow> xs[i := x] = write_at xs i [x]"
  by (simp add: write_at_def upd_conv_take_nth_drop)

lemma nth_slice: "i < length xs \<Longrightarrow> xs ! i = hd (slice xs i 1)"
  by (simp add: slice_def hd_drop_conv_nth take_Suc)

lemma checksum_zeroed_written:
  "at + 8 \<le> length bs \<Longrightarrow>
   checksum_with_field_zeroed L (write_u64 bs at v) at = checksum_with_field_zeroed L bs at"
  by (simp add: checksum_with_field_zeroed_def write_u64_def write_at_write_at_same)

definition header_wf :: "shard_file_header \<Rightarrow> bool" where
  "header_wf h \<longleftrightarrow> scheme_valid (sfh_scheme h) \<and> scheme_contains (sfh_scheme h) (sfh_shard_index h) \<and>
     sfh_block_length h < u64_modulus \<and> key_hash_wf (sfh_key_hash h) \<and> version_wf (sfh_version_id h)"

text \<open>The header page as one chain of regions, which the region lemmas read back.\<close>

lemma header_page_regions:
  assumes "header_wf h"
  shows "header_page h =
    write_at (write_at (write_at (write_at (write_at (write_at (write_at (write_at (write_at (write_at
      (replicate 4096 0) 0 MAGIC) 8 (le_bytes 4 1)) 12 (le_bytes 4 1)) 16 (le_bytes 4 0))
      20 [word_of_nat (data_shards (sfh_scheme h))]) 21 [word_of_nat (parity_shards (sfh_scheme h))])
      22 [word_of_nat (sfh_shard_index h)]) 24 (le_bytes 8 (sfh_block_length h)))
      32 (sfh_key_hash h)) 64 (sfh_version_id h)"
  by (simp add: header_page_def Let_def field_defs format_constants list_update_write_at buffer_simps)

lemma length_header_page: "header_wf h \<Longrightarrow> length (header_page h) = 4096"
  by (simp add: header_page_regions buffer_simps header_wf_def key_hash_wf_def version_wf_def)

lemma length_header_encode: "header_wf h \<Longrightarrow> length (header_encode L h) = 4096"
  by (simp add: header_encode_def Let_def length_header_page write_u64_def buffer_simps)

lemma header_page_fields:
  assumes "header_wf h"
  shows "slice (header_page h) 0 8 = MAGIC" "slice (header_page h) 8 4 = le_bytes 4 1"
    "slice (header_page h) 12 4 = le_bytes 4 1"
    "slice (header_page h) 20 1 = [word_of_nat (data_shards (sfh_scheme h))]"
    "slice (header_page h) 21 1 = [word_of_nat (parity_shards (sfh_scheme h))]"
    "slice (header_page h) 22 1 = [word_of_nat (sfh_shard_index h)]"
    "slice (header_page h) 24 8 = le_bytes 8 (sfh_block_length h)"
    "slice (header_page h) 32 32 = sfh_key_hash h" "slice (header_page h) 64 16 = sfh_version_id h"
  using assms
  by (simp_all add: header_page_regions buffer_simps header_wf_def key_hash_wf_def version_wf_def)

lemma header_encode_slice:
  assumes "header_wf h" "off + n \<le> 80"
  shows "slice (header_encode L h) off n = slice (header_page h) off n"
  using assms by (simp add: header_encode_def Let_def write_u64_def buffer_simps length_header_page)

lemma header_encode_checksum:
  assumes "header_wf h"
  shows "read_u64 (header_encode L h) 80 = unat (checksum_with_field_zeroed L (header_page h) 80)"
  using assms by (simp add: header_encode_def Let_def field_defs buffer_simps length_header_page)

lemma header_decode_encode: "header_wf h \<Longrightarrow> header_decode L (header_encode L h) = Ok h"
proof -
  assume h: "header_wf h"
  let ?page = "header_encode L h"
  have s: "1 \<le> data_shards (sfh_scheme h)" "data_shards (sfh_scheme h) \<le> 32"
    "parity_shards (sfh_scheme h) \<le> 8" "sfh_shard_index h < total_shards (sfh_scheme h)"
    using h by (auto simp: header_wf_def scheme_valid_iff scheme_contains_def)
  have idx: "sfh_shard_index h < 256" using s by (simp add: total_shards_def)
  have len: "length ?page = 4096" using h by (rule length_header_encode)
  have nth: "?page ! i = hd (slice (header_page h) i 1)" if "i < 80" for i
    using that header_encode_slice [OF h, of i 1 L] nth_slice [of i ?page] len by simp
  have nths: "unat (?page ! 20) = data_shards (sfh_scheme h)"
    "unat (?page ! 21) = parity_shards (sfh_scheme h)" "unat (?page ! 22) = sfh_shard_index h"
    using s idx header_page_fields(4-6) [OF h] by (simp_all add: nth)
  have sum: "checksum_with_field_zeroed L ?page 80 = checksum_with_field_zeroed L (header_page h) 80"
    using h by (simp add: header_encode_def Let_def checksum_zeroed_written length_header_page)
  have "scheme_new (data_shards (sfh_scheme h)) (parity_shards (sfh_scheme h)) = Ok (sfh_scheme h)"
    using h by (simp add: header_wf_def scheme_valid_def)
  then show ?thesis
    using h unfolding header_decode_def Let_def header_encode_checksum [OF h] sum nths
    by (simp add: len header_encode_slice header_page_fields field_defs format_constants header_wf_def)
qed

lemma header_decode_wf:
  assumes "header_decode L page = Ok h"
  shows "header_wf h"
proof -
  have "length page = 4096" using assms by (auto simp: header_decode_def format_constants split: if_splits)
  then have "length (slice page 32 32) = 32" "length (slice page 64 16) = 16"
    by (simp_all add: buffer_simps)
  moreover have "read_u64 page 24 < u64_modulus"
    using le_nat_lt [of "slice page 24 8"] \<open>length page = 4096\<close> by (simp add: read_u64_def buffer_simps)
  ultimately show ?thesis using assms
    by (auto simp: header_decode_def header_wf_def Let_def res_simps key_hash_wf_def version_wf_def
        split: if_splits dest: scheme_new_valid)
qed

interpretation header_codec: codec header_wf "header_encode L" "\<lambda>page. ok_option (header_decode L page)" for L
  by unfold_locales (auto simp: header_decode_encode header_decode_wf)

section \<open>Round trip of the footer\<close>

lemma length_write_table:
  "40 + 8 * (i + length cs) \<le> length bs \<Longrightarrow> length (write_table bs i cs) = length bs"
  by (induction cs arbitrary: bs i) (auto simp: write_u64_def buffer_simps)

lemma slice_write_table_before:
  "off + n \<le> 40 + 8 * i \<Longrightarrow> 40 + 8 * (i + length cs) \<le> length bs \<Longrightarrow>
   slice (write_table bs i cs) off n = slice bs off n"
  by (induction cs arbitrary: bs i) (auto simp: write_u64_def buffer_simps)

lemma slice_write_table_after:
  "40 + 8 * (i + length cs) \<le> off \<Longrightarrow> off \<le> length bs \<Longrightarrow>
   slice (write_table bs i cs) off n = slice bs off n"
  by (induction cs arbitrary: bs i) (auto simp: write_u64_def buffer_simps)

lemma slice_write_table_entry:
  "j < length cs \<Longrightarrow> 40 + 8 * (i + length cs) \<le> length bs \<Longrightarrow>
   slice (write_table bs i cs) (40 + 8 * (i + j)) 8 = le_bytes 8 (unat (cs ! j))"
proof (induction cs arbitrary: bs i j)
  case (Cons c cs)
  let ?bs = "write_u64 bs (40 + 8 * i) (unat c)"
  have len: "length ?bs = length bs" using Cons.prems by (simp add: write_u64_def buffer_simps)
  show ?case
  proof (cases j)
    case 0
    have "slice (write_table ?bs (Suc i) cs) (40 + 8 * i) 8 = slice ?bs (40 + 8 * i) 8"
      using Cons.prems len by (intro slice_write_table_before) auto
    also have "\<dots> = le_bytes 8 (unat c)" using Cons.prems by (simp add: write_u64_def buffer_simps)
    finally show ?thesis using 0 by simp
  next
    case (Suc j')
    then show ?thesis using Cons.IH [of j' "Suc i" ?bs] Cons.prems len by simp
  qed
qed simp

definition footer_wf :: "shard_file_footer \<Rightarrow> bool" where
  "footer_wf f \<longleftrightarrow> sff_block_count f = length (sff_checksums f) \<and> 0 < sff_block_count f \<and>
     encoded_length f + TRAILER_LEN < u64_modulus \<and>
     sff_last_block_length f < u64_modulus \<and> sff_object_size f < u64_modulus"

lemma length_footer_bytes: "length (footer_bytes f off) = encoded_length f + 16"
  by (simp add: footer_bytes_def Let_def field_defs encoded_length_def format_constants
      buffer_simps length_write_table)

lemma length_encode_with_trailer: "length (encode_with_trailer L f off) = encoded_length f + 16"
  by (simp add: encode_with_trailer_def Let_def length_footer_bytes write_u64_def buffer_simps
      encoded_length_def format_constants)

lemma footer_bytes_fields:
  shows "slice (footer_bytes f off) 0 8 = le_bytes 8 (sff_block_count f)"
    "slice (footer_bytes f off) 8 8 = le_bytes 8 (sff_last_block_length f)"
    "slice (footer_bytes f off) 16 8 = le_bytes 8 (sff_object_size f)"
    "slice (footer_bytes f off) 24 8 = le_bytes 8 (unat (sff_object_checksum f))"
    "slice (footer_bytes f off) (encoded_length f) 8 = le_bytes 8 (encoded_length f)"
    "slice (footer_bytes f off) (encoded_length f + 8) 8 = le_bytes 8 off"
  by (simp_all add: footer_bytes_def Let_def field_defs encoded_length_def format_constants
      buffer_simps length_write_table slice_write_table_before)

lemma footer_bytes_table:
  "j < length (sff_checksums f) \<Longrightarrow>
   slice (footer_bytes f off) (40 + 8 * j) 8 = le_bytes 8 (unat (sff_checksums f ! j))"
  by (simp add: footer_bytes_def Let_def field_defs encoded_length_def format_constants
      buffer_simps length_write_table slice_write_table_entry [of _ _ 0, simplified])

lemma encode_with_trailer_slice:
  assumes "o' + n \<le> 32 \<or> 40 \<le> o'"
  shows "slice (encode_with_trailer L f off) o' n = slice (footer_bytes f off) o' n"
proof -
  have "32 \<le> length (footer_bytes f off)"
    by (simp add: length_footer_bytes encoded_length_def format_constants)
  then show ?thesis using assms
    by (auto simp: encode_with_trailer_def Let_def write_u64_def slice_write_before slice_write_after)
qed

lemma footer_table_read:
  "map (\<lambda>i. word_of_nat (read_u64 (encode_with_trailer L f off) (40 + 8 * i))) [0..<length (sff_checksums f)]
   = sff_checksums f"
  by (rule nth_equalityI)
    (simp_all add: read_u64_def encode_with_trailer_slice footer_bytes_table)

lemma footer_decode_encode:
  assumes "footer_wf f"
  shows "decode_with_trailer L (encode_with_trailer L f off) = Ok f"
proof -
  let ?bs = "encode_with_trailer L f off"
  have len: "length ?bs = encoded_length f + 16" by (rule length_encode_with_trailer)
  have flen: "wsub64 (length ?bs) TRAILER_LEN = encoded_length f"
    using assms unfolding len by (simp add: wsub64_id footer_wf_def format_constants)
  have stored: "read_u64 ?bs 32 = unat (checksum_with_field_zeroed L (footer_bytes f off) 32)"
    by (simp add: encode_with_trailer_def Let_def field_defs buffer_simps length_footer_bytes
        encoded_length_def format_constants)
  have sum: "checksum_with_field_zeroed L ?bs 32 = checksum_with_field_zeroed L (footer_bytes f off) 32"
    by (simp add: encode_with_trailer_def Let_def checksum_zeroed_written length_footer_bytes
        encoded_length_def format_constants)
  have fields: "read_u64 ?bs 0 = length (sff_checksums f)" "read_u64 ?bs 8 = sff_last_block_length f"
    "read_u64 ?bs 16 = sff_object_size f" "read_u64 ?bs 24 = unat (sff_object_checksum f)"
    using assms
    by (simp_all add: read_u64_def encode_with_trailer_slice footer_bytes_fields footer_wf_def
        encoded_length_def format_constants)
  have entries: "(encoded_length f - FOOTER_FIXED_LEN) mod 8 = 0"
    "(encoded_length f - FOOTER_FIXED_LEN) div 8 = length (sff_checksums f)"
    "\<not> encoded_length f < FOOTER_FIXED_LEN"
    by (simp_all add: encoded_length_def)
  have "length ?bs \<ge> 40" by (simp add: len encoded_length_def format_constants)
  then show ?thesis
    unfolding decode_with_trailer_def Let_def flen stored sum fields entries footer_table_read
    using assms entries by (auto simp: footer_wf_def)
qed

lemma trailer_fields:
  assumes "footer_wf f" "off < u64_modulus"
  shows "read_u64 (slice (encode_with_trailer L f off) (encoded_length f) 16) 0 = encoded_length f"
    "read_u64 (slice (encode_with_trailer L f off) (encoded_length f) 16) 8 = off"
proof -
  have nest: "slice (slice xs a 16) b 8 = slice xs (a + b) 8" if "b \<le> 8" for xs :: bytes and a b
    using that by (simp add: slice_def drop_take min_def add.commute)
  have at: "40 \<le> encoded_length f" by (simp add: encoded_length_def format_constants)
  show "read_u64 (slice (encode_with_trailer L f off) (encoded_length f) 16) 0 = encoded_length f"
    "read_u64 (slice (encode_with_trailer L f off) (encoded_length f) 16) 8 = off"
    using assms at
    by (simp_all add: read_u64_def nest encode_with_trailer_slice footer_bytes_fields footer_wf_def format_constants)
qed

section \<open>What the writer has written\<close>

text \<open>
  The writer's invariant after the block bodies \<open>bs\<close>, for a file reserved to
  \<open>reserved\<close> bytes: everything before the cursor is the header and the blocks,
  the table has their checksums, and only the last block may be short.
\<close>

definition blocks_shape :: "nat \<Rightarrow> bytes list \<Rightarrow> bool" where
  "blocks_shape B bs \<longleftrightarrow> (\<forall>b\<in>set (butlast bs). length b = B) \<and> (\<forall>b\<in>set bs. 0 < length b \<and> length b \<le> B)"

definition writer_inv :: "libs \<Rightarrow> shard_file_header \<Rightarrow> nat \<Rightarrow> bytes list \<Rightarrow> shard_file_writer \<Rightarrow> bool" where
  "writer_inv L h reserved bs w \<longleftrightarrow>
     sw_header w = h \<and>
     df_cursor (sw_file w) = length (header_encode L h @ concat bs) \<and>
     take (df_cursor (sw_file w)) (df_content (sw_file w)) = header_encode L h @ concat bs \<and>
     length (df_content (sw_file w)) = max reserved (df_cursor (sw_file w)) \<and>
     sw_checksums w = map (checksum_block L) bs \<and>
     sw_last_block_length w = (if bs = [] then 0 else length (last bs)) \<and>
     sw_short_block_written w = (bs \<noteq> [] \<and> length (last bs) < sfh_block_length h) \<and>
     blocks_shape (sfh_block_length h) bs"

lemma take_write_at_cursor:
  assumes "c \<le> length content"
  shows "take (c + length bs) (write_at content c bs) = take c content @ bs"
    "length (write_at content c bs) = max (length content) (c + length bs)"
  using assms by (auto simp: write_at_def max_def)

lemma create_writer_inv:
  assumes "create_with_reservation L disk_ok h reserve = Ok w"
  shows "writer_inv L h (case reserve of None \<Rightarrow> 0 | Some n \<Rightarrow> n) [] w"
  using assms take_write_at_cursor [of 0 _ "header_encode L h"]
  by (auto simp: create_with_reservation_def writer_inv_def write_all_def Let_def blocks_shape_def
      split: if_splits option.splits)

lemma blocks_shape_snoc:
  assumes "blocks_shape B bs" "bs \<noteq> [] \<longrightarrow> length (last bs) = B" "0 < length b" "length b \<le> B"
  shows "blocks_shape B (bs @ [b])"
proof -
  have "\<forall>x\<in>set bs. length x = B"
  proof (cases "bs = []")
    case False
    then have "set bs = set (butlast bs) \<union> {last bs}"
      by (metis append_butlast_last_id list.set(1) list.simps(15) set_append)
    then show ?thesis using assms False by (simp add: blocks_shape_def)
  qed simp
  moreover have "0 < B" using assms(3,4) by linarith
  ultimately show ?thesis using assms(3,4) by (auto simp: blocks_shape_def simp del: length_greater_0_conv)
qed

lemma blocks_shape_last: "blocks_shape B bs \<Longrightarrow> bs \<noteq> [] \<Longrightarrow> length (last bs) \<le> B"
  by (simp add: blocks_shape_def)

lemma append_block_Ok:
  assumes "append_block L disk_ok block w = Ok w'"
  shows "sb_index block = sfh_shard_index (sw_header w)" "\<not> sw_short_block_written w"
    "0 < length (sb_bytes block)" "length (sb_bytes block) \<le> sfh_block_length (sw_header w)"
    "sb_checksum block = checksum_block L (sb_bytes block)"
    "w' = w\<lparr>sw_file := write_all (sw_file w) (sb_bytes block),
       sw_checksums := sw_checksums w @ [checksum_block L (sb_bytes block)],
       sw_last_block_length := length (sb_bytes block),
       sw_short_block_written := (length (sb_bytes block) < sfh_block_length (sw_header w))\<rparr>"
  using assms unfolding append_block_def Let_def by (simp_all split: if_splits)

lemma append_block_inv:
  assumes inv: "writer_inv L h reserved bs w" and app: "append_block L disk_ok block w = Ok w'"
  shows "writer_inv L h reserved (bs @ [sb_bytes block]) w'"
proof -
  let ?b = "sb_bytes block" and ?f = "df_content (sw_file w)" and ?c = "df_cursor (sw_file w)"
  note ok = append_block_Ok [OF app]
  have h: "sw_header w = h" and c: "?c \<le> length ?f" using inv by (simp_all add: writer_inv_def)
  have tk: "take (length (header_encode L h) + length (concat bs)) ?f = header_encode L h @ concat bs"
    using inv unfolding writer_inv_def by (metis length_append)
  have "bs \<noteq> [] \<longrightarrow> length (last bs) = sfh_block_length h"
    using inv ok(2) blocks_shape_last [of "sfh_block_length h" bs] by (auto simp: writer_inv_def)
  then have "blocks_shape (sfh_block_length h) (bs @ [?b])"
    using inv ok(3,4) h by (intro blocks_shape_snoc) (auto simp: writer_inv_def)
  moreover have "max (max reserved ?c) (?c + length ?b) = max reserved (?c + length ?b)" by simp
  ultimately show ?thesis using inv take_write_at_cursor [OF c, of ?b]
    unfolding ok(6) writer_inv_def write_all_def by (simp add: tk add.assoc)
qed

lemma append_blocks_inv:
  assumes "writer_inv L h reserved bs w" "fold_res (append_block L disk_ok) blocks w = Ok w'"
  shows "writer_inv L h reserved (bs @ map sb_bytes blocks) w' \<and>
    (\<forall>b\<in>set blocks. sb_index b = sfh_shard_index h \<and> sb_checksum b = checksum_block L (sb_bytes b))"
  using assms
proof (induction blocks arbitrary: bs w)
  case (Cons b blocks)
  from Cons.prems(2) obtain w1 where step: "append_block L disk_ok b w = Ok w1"
    and rest: "fold_res (append_block L disk_ok) blocks w1 = Ok w'"
    by (auto simp: res_simps)
  note one = append_block_inv [OF Cons.prems(1) step]
  have b: "sb_index b = sfh_shard_index h" "sb_checksum b = checksum_block L (sb_bytes b)"
    using append_block_Ok(1,5) [OF step] Cons.prems(1) by (simp_all add: writer_inv_def)
  from Cons.IH [OF one rest] b show ?case by simp
qed simp

lemma concat_shape_length:
  assumes "blocks_shape B bs" "bs \<noteq> []"
  shows "length (concat bs) = (length bs - 1) * B + length (last bs)"
proof -
  have "length (concat (butlast bs)) = length (butlast bs) * B"
    by (rule length_concat_const) (use assms in \<open>auto simp: blocks_shape_def\<close>)
  moreover have "concat bs = concat (butlast bs) @ last bs"
    using assms(2) by (metis append_butlast_last_id concat.simps(1,2) concat_append append.right_neutral)
  ultimately show ?thesis by simp
qed

lemma shape_split:
  assumes "blocks_shape B bs" "i < length bs"
  shows "concat bs = concat (take i bs) @ bs ! i @ concat (drop (Suc i) bs)"
    "length (concat (take i bs)) = i * B"
proof -
  show "concat bs = concat (take i bs) @ bs ! i @ concat (drop (Suc i) bs)"
    using assms(2) by (metis concat.simps(2) concat_append id_take_nth_drop)
  have "set (take i bs) \<subseteq> set (butlast bs)"
    using assms(2) by (simp add: butlast_conv_take set_take_subset_set_take)
  then have "\<forall>x\<in>set (take i bs). length x = B" using assms(1) by (auto simp: blocks_shape_def)
  from length_concat_const [OF this] show "length (concat (take i bs)) = i * B" using assms(2) by simp
qed

lemma slice_shape:
  assumes "blocks_shape B bs" "i < length bs"
  shows "slice (concat bs) (i * B) (length (bs ! i)) = bs ! i"
    "i * B + length (bs ! i) \<le> length (concat bs)"
proof -
  note split = shape_split [OF assms]
  show "slice (concat bs) (i * B) (length (bs ! i)) = bs ! i"
    unfolding split(1) using split(2) by (simp add: slice_def)
  show "i * B + length (bs ! i) \<le> length (concat bs)"
    unfolding split(1) using split(2) by simp
qed

section \<open>A finished file\<close>

definition footer_for :: "libs \<Rightarrow> bytes list \<Rightarrow> nat \<Rightarrow> block_checksum \<Rightarrow> shard_file_footer" where
  "footer_for L bs object_size object_checksum =
     \<lparr>sff_block_count = length bs, sff_last_block_length = length (last bs),
      sff_object_size = object_size, sff_object_checksum = object_checksum,
      sff_checksums = map (checksum_block L) bs\<rparr>"

definition file_image :: "libs \<Rightarrow> shard_file_header \<Rightarrow> bytes list \<Rightarrow> nat \<Rightarrow> block_checksum \<Rightarrow> bytes" where
  "file_image L h bs object_size object_checksum =
     header_encode L h @ concat bs @
     encode_with_trailer L (footer_for L bs object_size object_checksum) (HEADER_LEN + length (concat bs))"

lemma encoded_length_footer_for [simp]: "encoded_length (footer_for L bs osize osum) = 40 + 8 * length bs"
  by (simp add: footer_for_def encoded_length_def format_constants)

lemma length_file_image:
  "header_wf h \<Longrightarrow> length (file_image L h bs osize osum) = 4096 + length (concat bs) + (40 + 8 * length bs) + 16"
  by (simp add: file_image_def length_header_encode length_encode_with_trailer)

lemma footer_offset_image:
  assumes "blocks_shape (sfh_block_length h) bs" "bs \<noteq> []" "4096 + length (concat bs) < u64_modulus"
    "length bs < u64_modulus"
  shows "footer_offset_of h (footer_for L bs osize osum) = 4096 + length (concat bs)"
proof -
  have "wsub64 (length bs) 1 = length bs - 1"
    using assms(2,4) by (intro wsub64_id) (auto simp: Suc_le_eq)
  moreover have "length (concat bs) = (length bs - 1) * sfh_block_length h + length (last bs)"
    using concat_shape_length [OF assms(1,2)] .
  ultimately show ?thesis using assms(3)
    by (simp add: footer_offset_of_def footer_for_def format_constants wrap64_def)
qed

lemma writer_finish_image:
  assumes inv: "writer_inv L h reserved bs w" and fin: "writer_finish L disk_ok osize osum w = Ok (footer, content)"
    and h: "header_wf h" and small: "length (file_image L h bs osize osum) < u64_modulus"
    and res: "reserved \<le> length (file_image L h bs osize osum)"
  shows "bs \<noteq> []" "footer = footer_for L bs osize osum" "content = file_image L h bs osize osum"
    "check_geometry h osize (length bs) (length (last bs)) = Ok ()"
proof -
  let ?f = "footer_for L bs osize osum"
  show bs: "bs \<noteq> []" using inv fin by (auto simp: writer_finish_def writer_inv_def)
  have shape: "blocks_shape (sfh_block_length h) bs" using inv by (simp add: writer_inv_def)
  have off: "footer_offset_of h ?f = HEADER_LEN + length (concat bs)"
    using small by (subst footer_offset_image [OF shape bs]) (auto simp: length_file_image h format_constants)
  have w: "sw_checksums w = map (checksum_block L) bs" "sw_last_block_length w = length (last bs)" "sw_header w = h"
    using inv bs by (auto simp: writer_inv_def)
  have fin': "check_geometry h osize (length bs) (length (last bs)) = Ok () \<and> footer = ?f \<and>
      content = df_content (write_all (sw_file w) (encode_with_trailer L ?f (footer_offset_of h ?f)))"
    using fin bs by (auto simp: writer_finish_def w Let_def res_simps footer_for_def split: if_splits)
  then show "footer = ?f" "check_geometry h osize (length bs) (length (last bs)) = Ok ()" by auto
  let ?c = "df_cursor (sw_file w)" and ?t = "encode_with_trailer L ?f (HEADER_LEN + length (concat bs))"
  have c: "?c \<le> length (df_content (sw_file w))" using inv by (simp add: writer_inv_def)
  have content: "content = write_at (df_content (sw_file w)) ?c ?t" using fin' off by (simp add: write_all_def)
  have cur: "?c = length (header_encode L h @ concat bs)" using inv by (simp add: writer_inv_def)
  then have total: "?c + length ?t = length (file_image L h bs osize osum)" by (simp add: file_image_def)
  have "length content = ?c + length ?t"
    using take_write_at_cursor(2) [OF c, of ?t] inv res total unfolding content writer_inv_def by simp
  then have "content = take (?c + length ?t) (write_at (df_content (sw_file w)) ?c ?t)" using content by simp
  also have "\<dots> = (header_encode L h @ concat bs) @ ?t"
    using inv unfolding writer_inv_def take_write_at_cursor(1) [OF c, of ?t] by (metis length_append)
  finally show "content = file_image L h bs osize osum" by (simp add: file_image_def)
qed

lemma footer_for_wf:
  assumes "bs \<noteq> []" "header_wf h" "length (file_image L h bs osize osum) < u64_modulus" "osize < u64_modulus"
  shows "footer_wf (footer_for L bs osize osum)"
proof -
  have "length (last bs) \<le> length (concat bs)"
    using assms(1) by (metis append_butlast_last_id concat.simps concat_append append.right_neutral
        length_append le_add2)
  then show ?thesis using assms
    by (auto simp: footer_wf_def length_file_image format_constants) (auto simp: footer_for_def)
qed

lemma check_trailer_image:
  assumes "bs \<noteq> []" "header_wf h" "length (file_image L h bs osize osum) < u64_modulus" "osize < u64_modulus"
  shows "check_trailer (file_image L h bs osize osum) = Ok (40 + 8 * length bs, 4096 + length (concat bs))"
proof -
  let ?file = "file_image L h bs osize osum" and ?f = "footer_for L bs osize osum"
  let ?t = "encode_with_trailer L ?f (HEADER_LEN + length (concat bs))"
  note len = length_file_image [OF assms(2), of L bs osize osum]
  have "slice ?file (length ?file - 16) 16 = slice ?t (40 + 8 * length bs) 16"
    unfolding len by (simp add: file_image_def slice_append_right length_header_encode [OF assms(2)])
  moreover have "read_u64 (slice ?t (40 + 8 * length bs) 16) 0 = 40 + 8 * length bs"
    "read_u64 (slice ?t (40 + 8 * length bs) 16) 8 = HEADER_LEN + length (concat bs)"
    using trailer_fields [OF footer_for_wf [OF assms], of "HEADER_LEN + length (concat bs)" L] assms(3)
    by (simp_all add: len format_constants)
  ultimately show ?thesis using assms(3) len
    by (simp add: check_trailer_def Let_def read_exact_at_def checked_add64_def format_constants)
qed

lemma reader_open_image:
  assumes bs: "bs \<noteq> []" and h: "header_wf h" and shape: "blocks_shape (sfh_block_length h) bs"
    and small: "length (file_image L h bs osize osum) < u64_modulus" and osize: "osize < u64_modulus"
    and geo: "check_geometry h osize (length bs) (length (last bs)) = Ok ()"
  shows "reader_open L (file_image L h bs osize osum) =
    Ok \<lparr>sr_file = file_image L h bs osize osum, sr_header = h, sr_footer = footer_for L bs osize osum\<rparr>"
proof -
  let ?file = "file_image L h bs osize osum" and ?f = "footer_for L bs osize osum"
  let ?t = "encode_with_trailer L ?f (HEADER_LEN + length (concat bs))"
  note len = length_file_image [OF h, of L bs osize osum]
  have last: "0 < length (last bs)" "length (last bs) \<le> sfh_block_length h"
    using shape bs by (auto simp: blocks_shape_def)
  have long: "1 \<le> length (concat bs)" "1 \<le> length bs"
    using concat_shape_length [OF shape bs] last(1) bs by (auto simp: Suc_le_eq)
  have tail: "read_exact_at ?file (40 + 8 * length bs + TRAILER_LEN) (4096 + length (concat bs)) = Ok ?t"
    unfolding read_exact_at_def len
    by (simp add: file_image_def slice_append_right length_header_encode [OF h] format_constants
        slice_full length_encode_with_trailer)
  have page: "read_exact_at ?file HEADER_LEN 0 = Ok (header_encode L h)"
    unfolding read_exact_at_def len
    by (simp add: file_image_def slice_append_left length_header_encode [OF h] format_constants slice_full)
  have off: "footer_offset_of h ?f = 4096 + length (concat bs)"
    by (rule footer_offset_image [OF shape bs]) (use small len in auto)
  have foot: "decode_with_trailer L ?t = Ok ?f"
    by (rule footer_decode_encode [OF footer_for_wf [OF bs h small osize]])
  have notshort: "\<not> length ?file < HEADER_LEN + 1 + FOOTER_FIXED_LEN + 8 + TRAILER_LEN"
    using long by (simp add: len format_constants)
  have geo': "check_geometry h (sff_object_size ?f) (sff_block_count ?f) (sff_last_block_length ?f) = Ok ()"
    using geo by (simp add: footer_for_def)
  have lb: "\<not> (sff_last_block_length ?f = 0 \<or> sff_last_block_length ?f > sfh_block_length h)"
    using last by (simp add: footer_for_def)
  show ?thesis
    unfolding reader_open_def Let_def check_trailer_image [OF bs h small osize] bind_res.simps prod.case
      tail foot page header_decode_encode [OF h] off geo'
    using notshort lb by simp
qed

lemma read_block_image:
  assumes bs: "bs \<noteq> []" and h: "header_wf h" and shape: "blocks_shape (sfh_block_length h) bs"
    and small: "length (file_image L h bs osize osum) < u64_modulus" and i: "i < length bs"
  shows "read_block \<lparr>sr_file = file_image L h bs osize osum, sr_header = h, sr_footer = footer_for L bs osize osum\<rparr> i
    = Ok \<lparr>sb_index = sfh_shard_index h, sb_bytes = bs ! i, sb_checksum = checksum_block L (bs ! i)\<rparr>"
proof -
  let ?file = "file_image L h bs osize osum" and ?B = "sfh_block_length h"
  note len = length_file_image [OF h, of L bs osize osum]
  have bl: "(if i = length bs - 1 then length (last bs) else ?B) = length (bs ! i)"
  proof (cases "i = length bs - 1")
    case True
    then show ?thesis using bs by (simp add: last_conv_nth)
  next
    case False
    then have "bs ! i \<in> set (butlast bs)" using i
      by (metis Suc_diff_1 length_butlast length_greater_0_conv less_Suc_eq nth_butlast nth_mem bs)
    then show ?thesis using False shape by (simp add: blocks_shape_def)
  qed
  have within: "i * ?B + length (bs ! i) \<le> length (concat bs)"
    by (rule slice_shape(2) [OF shape i])
  have "slice ?file (4096 + i * ?B) (length (bs ! i)) = bs ! i"
    using within slice_shape(1) [OF shape i]
    by (simp add: file_image_def slice_append_right slice_append_left length_header_encode [OF h])
  moreover have "wrap64 (HEADER_LEN + wrap64 (i * ?B)) = 4096 + i * ?B"
    using within small by (simp add: len wrap64_def format_constants)
  moreover have "reader_block_length \<lparr>sr_file = ?file, sr_header = h, sr_footer = footer_for L bs osize osum\<rparr> i
      = Ok (length (bs ! i))"
    unfolding bl [symmetric] using i by (simp add: reader_block_length_def footer_for_def Let_def)
  ultimately show ?thesis using i within len
    by (simp add: read_block_def read_exact_at_def) (simp add: footer_for_def)
qed

section \<open>Geometry of the stripes\<close>

lemma shard_geometry_exact:
  assumes "scheme_valid s" "0 < block_length" "0 < object_size"
    "data_shards s * block_length < u64_modulus" "object_size < u64_modulus"
  shows "shard_geometry s block_length object_size =
    (let stripe = data_shards s * block_length; n = div_ceil object_size stripe in
     Ok (Some \<lparr>geo_block_count = n,
               geo_last_block_length = div_ceil (object_size - (n - 1) * stripe) (data_shards s)\<rparr>))"
proof -
  let ?stripe = "data_shards s * block_length"
  let ?n = "div_ceil object_size ?stripe"
  have pos: "0 < ?stripe" using assms by (simp add: scheme_valid_iff)
  have lower: "(?n - 1) * ?stripe < object_size" by (rule div_ceil_lower [OF assms(3) pos])
  have one: "1 \<le> ?n" using div_ceil_pos [OF assms(3) pos] by simp
  have "?n \<le> object_size"
    using pos by (subst div_ceil_le_iff [OF pos]) (metis One_nat_def Suc_leI mult.right_neutral mult_le_mono2)
  then have n: "wsub64 ?n 1 = ?n - 1" using one assms(5) by (intro wsub64_id) auto
  have "wrap64 ((?n - 1) * ?stripe) = (?n - 1) * ?stripe"
    using lower assms(5) by (intro wrap64_id) simp
  moreover have "wsub64 object_size ((?n - 1) * ?stripe) = object_size - (?n - 1) * ?stripe"
    using lower assms(5) by (intro wsub64_id) auto
  ultimately show ?thesis using assms pos n
    by (simp add: shard_geometry_def Let_def wrap64_id)
qed

lemma shard_geometry_bounds:
  assumes "scheme_valid s" "0 < block_length" "0 < object_size"
    "data_shards s * block_length < u64_modulus" "object_size < u64_modulus"
    and "shard_geometry s block_length object_size = Ok (Some g)"
  shows "0 < geo_block_count g" "0 < geo_last_block_length g" "geo_last_block_length g \<le> block_length"
    "(geo_block_count g - 1) * (data_shards s * block_length) < object_size"
    "object_size \<le> geo_block_count g * (data_shards s * block_length)"
    "object_size \<le> (geo_block_count g - 1) * (data_shards s * block_length)
       + data_shards s * geo_last_block_length g"
proof -
  let ?k = "data_shards s" and ?stripe = "data_shards s * block_length"
  let ?n = "div_ceil object_size ?stripe"
  let ?rest = "object_size - (?n - 1) * ?stripe"
  have g: "g = \<lparr>geo_block_count = ?n, geo_last_block_length = div_ceil ?rest ?k\<rparr>"
    using assms(6) shard_geometry_exact [OF assms(1-5)] by (simp add: Let_def)
  have k: "0 < ?k" and pos: "0 < ?stripe" using assms by (auto simp: scheme_valid_iff)
  have lower: "(?n - 1) * ?stripe < object_size" by (rule div_ceil_lower [OF assms(3) pos])
  have upper: "object_size \<le> ?n * ?stripe" by (rule div_ceil_upper [OF pos])
  have n: "0 < ?n" by (rule div_ceil_pos [OF assms(3) pos])
  then have "?n * ?stripe = (?n - 1) * ?stripe + ?stripe" by (simp add: diff_mult_distrib)
  then have rest: "?rest \<le> block_length * ?k" using upper by (simp add: mult.commute)
  show "0 < geo_block_count g" "(geo_block_count g - 1) * ?stripe < object_size"
    "object_size \<le> geo_block_count g * ?stripe" using g n lower upper by auto
  show "0 < geo_last_block_length g" using g lower k by (simp add: div_ceil_pos)
  show "geo_last_block_length g \<le> block_length" using g rest k by (simp add: div_ceil_le_iff)
  have "?rest \<le> div_ceil ?rest ?k * ?k" by (rule div_ceil_upper [OF k])
  then show "object_size \<le> (geo_block_count g - 1) * ?stripe + ?k * geo_last_block_length g"
    using g lower by (simp add: mult.commute)
qed

lemma check_geometry_Ok:
  "check_geometry h osize n l = Ok u \<longleftrightarrow>
     shard_geometry (sfh_scheme h) (sfh_block_length h) osize =
       Ok (Some \<lparr>geo_block_count = n, geo_last_block_length = l\<rparr>)"
proof (cases "shard_geometry (sfh_scheme h) (sfh_block_length h) osize")
  case (Ok g)
  then show ?thesis
    by (cases g) (auto simp: check_geometry_def split: prod.splits)
qed (auto simp: check_geometry_def)

text \<open>The length that is reserved for a shard is the length its finished file has.\<close>

lemma shard_file_length_image:
  assumes "header_wf h" "blocks_shape (sfh_block_length h) bs" "bs \<noteq> []"
    and geo: "check_geometry h osize (length bs) (length (last bs)) = Ok ()"
    and small: "length (file_image L h bs osize osum) < u64_modulus"
  shows "shard_file_length (sfh_scheme h) (sfh_block_length h) osize =
    Ok (Some (length (file_image L h bs osize osum)))"
proof -
  note len = length_file_image [OF assms(1), of L bs osize osum]
  have one: "wsub64 (length bs) 1 = length bs - 1"
    using assms(3) small len by (intro wsub64_id) (auto simp: Suc_le_eq)
  have c: "length (concat bs) = (length bs - 1) * sfh_block_length h + length (last bs)"
    by (rule concat_shape_length [OF assms(2,3)])
  have "wrap64 ((length bs - 1) * sfh_block_length h) = (length bs - 1) * sfh_block_length h"
    using small len c by (intro wrap64_id) simp
  then have "wrap64 (HEADER_LEN + wrap64 (wsub64 (length bs) 1 * sfh_block_length h) + length (last bs)
      + FOOTER_FIXED_LEN + 8 * length bs + TRAILER_LEN) = length (file_image L h bs osize osum)"
    unfolding one using small len c by (simp add: format_constants wrap64_id)
  then show ?thesis
    using geo by (simp add: shard_file_length_def check_geometry_Ok)
qed

section \<open>Writing a whole file and reading it back\<close>

text \<open>The blocks a writer is to be given for an object: right index and checksum, full but for the last.\<close>

definition blocks_for :: "libs \<Rightarrow> shard_file_header \<Rightarrow> nat \<Rightarrow> shard_block list \<Rightarrow> bool" where
  "blocks_for L h last_length blocks \<longleftrightarrow>
     (\<forall>b\<in>set blocks. sb_index b = sfh_shard_index h \<and> sb_checksum b = checksum_block L (sb_bytes b)) \<and>
     (\<forall>b\<in>set (butlast blocks). length (sb_bytes b) = sfh_block_length h) \<and>
     (blocks \<noteq> [] \<longrightarrow> length (sb_bytes (last blocks)) = last_length)"

lemma append_block_accepts:
  assumes "writer_inv L h reserved bs w" "bs \<noteq> [] \<longrightarrow> length (last bs) = sfh_block_length h"
    "sb_index b = sfh_shard_index h" "sb_checksum b = checksum_block L (sb_bytes b)"
    "0 < length (sb_bytes b)" "length (sb_bytes b) \<le> sfh_block_length h"
  shows "\<exists>w'. append_block L True b w = Ok w'"
proof -
  have "sw_header w = h" "\<not> sw_short_block_written w" using assms(1,2) by (auto simp: writer_inv_def)
  then show ?thesis using assms(3-6) by (simp add: append_block_def Let_def)
qed

lemma append_blocks_accepts:
  assumes "writer_inv L h reserved bs w" "bs \<noteq> [] \<longrightarrow> blocks \<noteq> [] \<longrightarrow> length (last bs) = sfh_block_length h"
    "blocks_for L h l blocks" "0 < l" "l \<le> sfh_block_length h"
  shows "\<exists>w'. fold_res (append_block L True) blocks w = Ok w'"
  using assms
proof (induction blocks arbitrary: bs w)
  case (Cons b blocks)
  have len: "length (sb_bytes b) = (if blocks = [] then l else sfh_block_length h)"
    using Cons.prems(3) by (cases "blocks = []") (simp_all add: blocks_for_def)
  have pos: "0 < length (sb_bytes b)" "length (sb_bytes b) \<le> sfh_block_length h"
    using Cons.prems(4,5) unfolding len by auto
  obtain w1 where step: "append_block L True b w = Ok w1"
    using append_block_accepts [OF Cons.prems(1) _ _ _ pos] Cons.prems(2,3) by (auto simp: blocks_for_def)
  have "blocks_for L h l blocks" using Cons.prems(3) by (auto simp: blocks_for_def split: if_splits)
  then obtain w' where "fold_res (append_block L True) blocks w1 = Ok w'"
    using Cons.IH [OF append_block_inv [OF Cons.prems(1) step]] len Cons.prems(4,5) by auto
  then show ?case using step by simp
qed simp

lemma writer_finish_geometry:
  assumes "writer_inv L h reserved bs w" "bs \<noteq> []"
    and "check_geometry h osize (length bs) (length (last bs)) = Ok ()"
  shows "\<exists>footer content. writer_finish L True osize osum w = Ok (footer, content)"
  using assms by (auto simp: writer_finish_def writer_inv_def Let_def)

lemma written_file_image:
  assumes h: "header_wf h" and osize: "osize < u64_modulus"
    and geo: "shard_geometry (sfh_scheme h) (sfh_block_length h) osize = Ok (Some g)"
    and count: "length blocks = geo_block_count g" "blocks \<noteq> []"
    and blocks: "blocks_for L h (geo_last_block_length g) blocks"
    and l: "0 < geo_last_block_length g" "geo_last_block_length g \<le> sfh_block_length h"
    and small: "length (file_image L h (map sb_bytes blocks) osize osum) < u64_modulus"
    and n: "shard_file_length (sfh_scheme h) (sfh_block_length h) osize = Ok (Some n)"
    and w: "writer_inv L h n [] w"
  shows "\<exists>w'. fold_res (append_block L True) blocks w = Ok w' \<and>
    writer_inv L h n (map sb_bytes blocks) w' \<and>
    writer_finish L True osize osum w' = Ok (footer_for L (map sb_bytes blocks) osize osum,
      file_image L h (map sb_bytes blocks) osize osum) \<and>
    length (file_image L h (map sb_bytes blocks) osize osum) = n \<and>
    blocks_shape (sfh_block_length h) (map sb_bytes blocks) \<and>
    check_geometry h osize (length blocks) (length (last (map sb_bytes blocks))) = Ok ()"
proof -
  let ?bs = "map sb_bytes blocks"
  obtain w' where fold: "fold_res (append_block L True) blocks w = Ok w'"
    using append_blocks_accepts [OF w _ blocks l] by auto
  then have inv: "writer_inv L h n ?bs w'" using append_blocks_inv [OF w] by simp
  then have shape: "blocks_shape (sfh_block_length h) ?bs" by (simp add: writer_inv_def)
  have lastl: "length (last ?bs) = geo_last_block_length g"
    using blocks count(2) by (simp add: blocks_for_def last_map)
  have chk: "check_geometry h osize (length ?bs) (length (last ?bs)) = Ok ()"
    using geo count(1) lastl by (simp add: check_geometry_Ok)
  have len: "length (file_image L h ?bs osize osum) = n"
    using shard_file_length_image [OF h shape _ chk small] count(2) n by simp
  obtain footer content where "writer_finish L True osize osum w' = Ok (footer, content)"
    using writer_finish_geometry [OF inv _ chk, of osum] count(2) by auto
  then have "writer_finish L True osize osum w' =
      Ok (footer_for L ?bs osize osum, file_image L h ?bs osize osum)"
    using writer_finish_image [OF inv _ h small] len by auto
  then show ?thesis using fold inv len shape chk by simp
qed

lemma file_image_reads:
  assumes h: "header_wf h" and osize: "osize < u64_modulus" and blocks: "blocks_for L h l blocks" "blocks \<noteq> []"
    and shape: "blocks_shape (sfh_block_length h) (map sb_bytes blocks)"
    and chk: "check_geometry h osize (length blocks) (length (last (map sb_bytes blocks))) = Ok ()"
    and small: "length (file_image L h (map sb_bytes blocks) osize osum) < u64_modulus"
  shows "\<exists>r. reader_open L (file_image L h (map sb_bytes blocks) osize osum) = Ok r \<and> sr_header r = h \<and>
    sr_footer r = footer_for L (map sb_bytes blocks) osize osum \<and>
    (\<forall>i < length blocks. read_block r i = Ok (blocks ! i))"
proof -
  let ?bs = "map sb_bytes blocks"
  have ne: "?bs \<noteq> []" using blocks(2) by simp
  note opened = reader_open_image [OF ne h shape small osize chk [folded length_map [of sb_bytes]]]
  have "read_block \<lparr>sr_file = file_image L h ?bs osize osum, sr_header = h,
      sr_footer = footer_for L ?bs osize osum\<rparr> i = Ok (blocks ! i)" if i: "i < length blocks" for i
  proof -
    have "sb_index (blocks ! i) = sfh_shard_index h"
      "sb_checksum (blocks ! i) = checksum_block L (sb_bytes (blocks ! i))"
      using blocks(1) i by (auto simp: blocks_for_def)
    then have "\<lparr>sb_index = sfh_shard_index h, sb_bytes = ?bs ! i, sb_checksum = checksum_block L (?bs ! i)\<rparr> = blocks ! i"
      using i by simp
    then show ?thesis using read_block_image [OF ne h shape small, of i] i by simp
  qed
  then show ?thesis using opened by simp
qed

text \<open>C4: A shard file written through the writer, with the blocks an object of this size has,
  always finishes with exactly the length that was reserved for it, and opening it gives the
  same header and footer and every block as it was appended.\<close>

theorem shard_file_round_trip:
  assumes "header_wf h" "osize < u64_modulus"
    and "shard_geometry (sfh_scheme h) (sfh_block_length h) osize = Ok (Some g)"
    and "shard_file_length (sfh_scheme h) (sfh_block_length h) osize = Ok (Some n)"
    and "length blocks = geo_block_count g" "blocks \<noteq> []" "blocks_for L h (geo_last_block_length g) blocks"
    and "0 < geo_last_block_length g" "geo_last_block_length g \<le> sfh_block_length h"
    and "4152 + length (concat (map sb_bytes blocks)) + 8 * length blocks < u64_modulus"
  shows "\<exists>w w' footer content r.
    create_with_reservation L True h (Some n) = Ok w \<and> fold_res (append_block L True) blocks w = Ok w' \<and>
    writer_finish L True osize osum w' = Ok (footer, content) \<and> length content = n \<and>
    reader_open L content = Ok r \<and> sr_header r = h \<and> sr_footer r = footer \<and>
    (\<forall>i < length blocks. read_block r i = Ok (blocks ! i))"
proof -
  have small: "length (file_image L h (map sb_bytes blocks) osize osum) < u64_modulus"
    using assms(10) by (simp add: length_file_image [OF assms(1)])
  obtain w where w: "create_with_reservation L True h (Some n) = Ok w"
    using assms(1) by (simp add: create_with_reservation_def header_wf_def Let_def)
  note inv = create_writer_inv [OF w, simplified]
  from written_file_image [OF assms(1-3,5-9) small assms(4) inv]
  obtain w' where w': "fold_res (append_block L True) blocks w = Ok w'"
    "writer_finish L True osize osum w' = Ok (footer_for L (map sb_bytes blocks) osize osum,
       file_image L h (map sb_bytes blocks) osize osum)"
    "length (file_image L h (map sb_bytes blocks) osize osum) = n"
    "blocks_shape (sfh_block_length h) (map sb_bytes blocks)"
    "check_geometry h osize (length blocks) (length (last (map sb_bytes blocks))) = Ok ()" by blast
  from file_image_reads [OF assms(1,2,7,6) w'(4,5) small] w w'(1-3) show ?thesis by blast
qed

definition demo_header :: shard_file_header where
  "demo_header = \<lparr>sfh_scheme = demo_scheme, sfh_shard_index = 1, sfh_block_length = 2,
     sfh_key_hash = replicate 32 5, sfh_version_id = replicate 16 9\<rparr>"

definition demo_blocks :: "shard_block list" where
  "demo_blocks = map (\<lambda>bs. \<lparr>sb_index = 1, sb_bytes = bs, sb_checksum = checksum_block demo_libs bs\<rparr>) [[1, 2], [3]]"

lemma demo_header_wf: "header_wf demo_header"
  by (simp add: header_wf_def demo_header_def scheme_contains_def key_hash_wf_def version_wf_def)

lemma demo_geometry:
  "shard_geometry demo_scheme 2 6 = Ok (Some \<lparr>geo_block_count = 2, geo_last_block_length = 1\<rparr>)"
  "shard_file_length demo_scheme 2 6 = Ok (Some 4171)"
  by (simp_all add: shard_file_length_def shard_geometry_exact div_ceil_def format_constants wsub64_id wrap64_id)

theorem shard_file_round_trip_witness:
  "\<exists>w w' footer content r.
    create_with_reservation demo_libs True demo_header (Some 4171) = Ok w \<and>
    fold_res (append_block demo_libs True) demo_blocks w = Ok w' \<and>
    writer_finish demo_libs True 6 77 w' = Ok (footer, content) \<and> length content = 4171 \<and>
    reader_open demo_libs content = Ok r \<and> sr_header r = demo_header \<and> sr_footer r = footer \<and>
    (\<forall>i < length demo_blocks. read_block r i = Ok (demo_blocks ! i))"
  by (rule shard_file_round_trip [OF demo_header_wf, where g = "\<lparr>geo_block_count = 2, geo_last_block_length = 1\<rparr>"])
    (simp_all add: demo_geometry demo_blocks_def demo_header_def blocks_for_def)

end
