(* ===== verification/Device.thy ===== *)
theory Device
  imports Filesystem ShardFile Cluster
begin

text \<open>
  One device on disk (\<open>djbod-core/src/device.rs\<close>): the identity file, records
  and shard files under the object tree, written under a temporary name and
  renamed into place.  The state is the file system with the process identifier
  and counter that make temporary names, and the clock.  Every operation gives
  its result together with the state it leaves, also when it fails.  Flushing
  to disk has no effect in this model.
\<close>

section \<open>State and results\<close>

record sys =
  sys_fs :: fs
  sys_pid :: nat
  sys_counter :: nat
  sys_now :: nat

record device_identity =
  id_system :: string
  id_notice :: string
  id_format_version :: nat
  id_device_id :: device_id
  id_cluster_id :: uuid
  id_created :: timestamp

record device =
  dev_root :: path
  dev_identity :: device_identity
  dev_filesystem_id :: nat

abbreviation dev_id :: "device \<Rightarrow> device_id" where
  "dev_id d \<equiv> id_device_id (dev_identity d)"

datatype device_error =
    DevIo io_kind
  | DevNotADirectory
  | DevNotEmpty "string list"
  | DevNotInitialised
  | DevForeignDirectory
  | DevUnavailable
  | DevBadIdentity
  | DevWrongCluster device_id uuid uuid
  | DevShardFile shard_file_error
  | DevRecord record_error
  | DevRecordExists key_hash version_id
  | DevBadObjectSize nat

type_synonym ('s, 'e, 'a) act = "'s \<Rightarrow> ('e, 'a) res \<times> 's"
type_synonym 'a op = "(sys, device_error, 'a) act"

definition op_return :: "('e, 'a) res \<Rightarrow> ('s, 'e, 'a) act" where
  "op_return r s = (r, s)"

definition op_bind :: "('s, 'e, 'a) act \<Rightarrow> ('a \<Rightarrow> ('s, 'e, 'b) act) \<Rightarrow> ('s, 'e, 'b) act" where
  "op_bind m f s = (case m s of
     (Ok x, s') \<Rightarrow> f x s' | (Err e, s') \<Rightarrow> (Err e, s') | (Panic, s') \<Rightarrow> (Panic, s'))"

definition fs_update :: "(fs \<Rightarrow> (io_kind, fs) res) \<Rightarrow> unit op" where
  "fs_update f s = (case f (sys_fs s) of
     Ok fs' \<Rightarrow> (Ok (), s\<lparr>sys_fs := fs'\<rparr>) | Err k \<Rightarrow> (Err (DevIo k), s) | Panic \<Rightarrow> (Panic, s))"

definition fs_query :: "(fs \<Rightarrow> (device_error, 'a) res) \<Rightarrow> 'a op" where
  "fs_query f s = (f (sys_fs s), s)"

section \<open>Names and small file operations\<close>

definition DEVICE_IDENTITY_FILE :: string where "DEVICE_IDENTITY_FILE = ''DISTRIBUTED-JBOD-DEVICE.json''"
definition DEVICE_FORMAT_VERSION :: nat where "DEVICE_FORMAT_VERSION = 1"
definition TEMPORARY_SUFFIX :: string where "TEMPORARY_SUFFIX = ''.tmp''"
definition LOST_AND_FOUND :: string where "LOST_AND_FOUND = ''lost+found''"

definition with_file_name :: "path \<Rightarrow> string \<Rightarrow> path" where
  "with_file_name p name = butlast p @ [name]"

definition temporary_name :: "nat \<Rightarrow> nat \<Rightarrow> string \<Rightarrow> string" where
  "temporary_name pid counter name = name @ ''.'' @ show_nat pid @ ''-'' @ show_nat counter @ TEMPORARY_SUFFIX"

definition temporary_path :: "path \<Rightarrow> path op" where
  "temporary_path final_path s =
     (Ok (with_file_name final_path (temporary_name (sys_pid s) (sys_counter s) (last final_path))),
      s\<lparr>sys_counter := Suc (sys_counter s)\<rparr>)"

definition write_file_atomically :: "path \<Rightarrow> bytes \<Rightarrow> unit op" where
  "write_file_atomically final_path bs =
     op_bind (temporary_path final_path) (\<lambda>temp_path.
     op_bind (\<lambda>s. fs_update (\<lambda>fs. fs_write (sys_now s) fs temp_path bs) s) (\<lambda>_ s.
     case fs_rename (sys_fs s) temp_path final_path of
       Ok fs' \<Rightarrow> (Ok (), s\<lparr>sys_fs := fs'\<rparr>)
     | Err k \<Rightarrow> (Err (DevIo k), s\<lparr>sys_fs := (case fs_remove_file (sys_fs s) temp_path of
                                             Ok fs' \<Rightarrow> fs' | _ \<Rightarrow> sys_fs s)\<rparr>)
     | Panic \<Rightarrow> (Panic, s)))"

definition remove_if_present :: "path \<Rightarrow> unit op" where
  "remove_if_present p s = (case fs_remove_file (sys_fs s) p of
     Ok fs' \<Rightarrow> (Ok (), s\<lparr>sys_fs := fs'\<rparr>)
   | Err IoNotFound \<Rightarrow> (Ok (), s)
   | Err k \<Rightarrow> (Err (DevIo k), s)
   | Panic \<Rightarrow> (Panic, s))"

text \<open>The full paths of a directory's entries, in order; an absent directory is empty.\<close>

definition read_dir_sorted :: "fs \<Rightarrow> path \<Rightarrow> (device_error, path list) res" where
  "read_dir_sorted fs dir = (case fs_read_dir fs dir of
     Ok names \<Rightarrow> Ok (map (\<lambda>name. dir @ [name]) (sort names))
   | Err IoNotFound \<Rightarrow> Ok []
   | Err k \<Rightarrow> Err (DevIo k)
   | Panic \<Rightarrow> Panic)"

definition text_of :: "bytes \<Rightarrow> string" where
  "text_of bs = map (\<lambda>b. char_of (unat b)) bs"

definition read_to_string :: "fs \<Rightarrow> path \<Rightarrow> (device_error, string) res" where
  "read_to_string fs p = map_err DevIo (bind_res (fs_read fs p) (\<lambda>bs. Ok (text_of bs)))"

section \<open>Identity\<close>

definition identity_fields :: "json_lib \<Rightarrow> device_identity \<Rightarrow> (string \<times> json) list" where
  "identity_fields J i =
     [(''system'', JStr (id_system i)), (''notice'', JStr (id_notice i)),
      (''format_version'', JNum (int (id_format_version i))),
      (''device_id'', JStr (uuid_text J (id_device_id i))),
      (''cluster_id'', JStr (uuid_text J (id_cluster_id i))),
      (''created'', JStr (time_text J (id_created i)))]"

definition identity_from_value :: "json_lib \<Rightarrow> json \<Rightarrow> device_identity option" where
  "identity_from_value J v = (case v of
     JObj fs \<Rightarrow>
       Option.bind (field fs ''system'' json_str) (\<lambda>system.
       Option.bind (field fs ''notice'' json_str) (\<lambda>notice.
       Option.bind (field fs ''format_version'' (json_uint 4294967296)) (\<lambda>fv.
       Option.bind (field fs ''device_id'' (\<lambda>v. Option.bind (json_str v) (uuid_parse J))) (\<lambda>dev.
       Option.bind (field fs ''cluster_id'' (\<lambda>v. Option.bind (json_str v) (uuid_parse J))) (\<lambda>cluster.
       Option.bind (field fs ''created'' (\<lambda>v. Option.bind (json_str v) (time_parse J))) (\<lambda>created.
       Some \<lparr>id_system = system, id_notice = notice, id_format_version = fv, id_device_id = dev,
             id_cluster_id = cluster, id_created = created\<rparr>))))))
   | _ \<Rightarrow> None)"

fun create_dir_all :: "path \<Rightarrow> string list \<Rightarrow> unit op" where
  "create_dir_all p [] s = (Ok (), s)"
| "create_dir_all p (c # cs) s =
     (if is_dir (sys_fs s) (p @ [c]) then create_dir_all (p @ [c]) cs s
      else op_bind (fs_update (\<lambda>fs. fs_create_dir fs (p @ [c]))) (\<lambda>_. create_dir_all (p @ [c]) cs) s)"

text \<open>The new identifier, the time and the notice text are arguments of the initialisation.\<close>

definition device_initialise ::
  "json_lib \<Rightarrow> string \<Rightarrow> uuid \<Rightarrow> timestamp \<Rightarrow> nat \<Rightarrow> path \<Rightarrow> uuid \<Rightarrow> device op" where
  "device_initialise J notice new_id created dev base cluster_id s =
     (case map_of (sys_fs s) base of
        None \<Rightarrow> (Err (DevIo IoNotFound), s)
      | Some (File _ _) \<Rightarrow> (Err DevNotADirectory, s)
      | Some Dir \<Rightarrow>
          let found = filter (\<lambda>name. name \<noteq> LOST_AND_FOUND) (children (sys_fs s) base) in
          if found \<noteq> [] then (Err (DevNotEmpty (sort found)), s)
          else let identity = \<lparr>id_system = SYSTEM_NAME, id_notice = notice,
                     id_format_version = DEVICE_FORMAT_VERSION, id_device_id = new_id,
                     id_cluster_id = cluster_id, id_created = created\<rparr>
          in op_bind (create_dir_all base [OBJECTS_DIR, DEFAULT_BUCKET]) (\<lambda>_.
             op_bind (write_file_atomically (base @ [DEVICE_IDENTITY_FILE])
                        (as_bytes (js_pretty J (identity_fields J identity)))) (\<lambda>_.
             op_return (Ok \<lparr>dev_root = base, dev_identity = identity, dev_filesystem_id = dev\<rparr>))) s)"

definition device_open :: "json_lib \<Rightarrow> nat \<Rightarrow> path \<Rightarrow> uuid option \<Rightarrow> device op" where
  "device_open J dev base expected_cluster = fs_query (\<lambda>fs.
     case map_of fs base of
       None \<Rightarrow> Err (DevIo IoNotFound)
     | Some (File _ _) \<Rightarrow> Err DevNotADirectory
     | Some Dir \<Rightarrow>
        (case fs_read fs (base @ [DEVICE_IDENTITY_FILE]) of
           Err IoNotFound \<Rightarrow> if is_dir fs (base @ [OBJECTS_DIR]) then Err DevForeignDirectory else Err DevNotInitialised
         | Err k \<Rightarrow> Err (DevIo k)
         | Panic \<Rightarrow> Panic
         | Ok bs \<Rightarrow>
             bind_res (ok_or DevBadIdentity (Option.bind (js_parse J (text_of bs)) (identity_from_value J))) (\<lambda>identity.
             if id_system identity \<noteq> SYSTEM_NAME then Err DevBadIdentity
             else if id_format_version identity \<noteq> DEVICE_FORMAT_VERSION then Err DevBadIdentity
             else case expected_cluster of
               Some expected \<Rightarrow>
                 if id_cluster_id identity \<noteq> expected
                 then Err (DevWrongCluster (id_device_id identity) expected (id_cluster_id identity))
                 else Ok \<lparr>dev_root = base, dev_identity = identity, dev_filesystem_id = dev\<rparr>
             | None \<Rightarrow> Ok \<lparr>dev_root = base, dev_identity = identity, dev_filesystem_id = dev\<rparr>)))"

definition device_erase :: "json_lib \<Rightarrow> path \<Rightarrow> unit op" where
  "device_erase J base =
     op_bind (device_open J 0 base None) (\<lambda>_.
     op_bind (fs_update (\<lambda>fs. Ok (if is_dir fs (base @ [OBJECTS_DIR])
                                   then fs_remove_dir_all fs (base @ [OBJECTS_DIR]) else fs))) (\<lambda>_.
     fs_update (\<lambda>fs. fs_remove_file fs (base @ [DEVICE_IDENTITY_FILE]))))"

definition wipe_and_initialise ::
  "json_lib \<Rightarrow> string \<Rightarrow> uuid \<Rightarrow> timestamp \<Rightarrow> nat \<Rightarrow> path \<Rightarrow> uuid \<Rightarrow> device op" where
  "wipe_and_initialise J notice new_id created dev base cluster_id =
     op_bind (device_erase J base) (\<lambda>_. device_initialise J notice new_id created dev base cluster_id)"

definition check_present :: "device \<Rightarrow> unit op" where
  "check_present d = fs_query (\<lambda>fs.
     if path_exists fs (dev_root d @ [DEVICE_IDENTITY_FILE]) then Ok () else Err DevUnavailable)"

text \<open>
  The space report from the numbers of \<open>statvfs\<close>; the reserved share is the
  product rounded down, where the source computes it in 64-bit floats.
\<close>

record space_report =
  sp_total_bytes :: nat
  sp_free_bytes :: nat

fun reserved_bytes :: "nat \<Rightarrow> float64 \<Rightarrow> nat" where
  "reserved_bytes tot (Finite h) = min (nat \<lfloor>of_nat tot * h\<rfloor>) (u64_modulus - 1)"
| "reserved_bytes tot Infinite = (if tot = 0 then 0 else u64_modulus - 1)"
| "reserved_bytes tot _ = 0"

definition device_space :: "device \<Rightarrow> float64 \<Rightarrow> nat \<Rightarrow> nat \<Rightarrow> nat \<Rightarrow> space_report op" where
  "device_space d headroom f_bavail f_blocks f_frsize =
     op_bind (check_present d) (\<lambda>_.
       let available = wrap64 (f_bavail * f_frsize); tot = wrap64 (f_blocks * f_frsize)
       in op_return (Ok \<lparr>sp_total_bytes = tot, sp_free_bytes = available - reserved_bytes tot headroom\<rparr>))"

section \<open>Directories\<close>

definition key_directory :: "device \<Rightarrow> key_hash \<Rightarrow> path" where
  "key_directory d key_hash = object_directory (dev_root d) DEFAULT_BUCKET key_hash"

definition bucket_path :: "device \<Rightarrow> path" where
  "bucket_path d = dev_root d @ [OBJECTS_DIR, DEFAULT_BUCKET]"

fun create_components :: "path \<Rightarrow> string list \<Rightarrow> path op" where
  "create_components p [] s = (Ok p, s)"
| "create_components p (c # cs) s =
     (case fs_create_dir (sys_fs s) (p @ [c]) of
        Ok fs' \<Rightarrow> create_components (p @ [c]) cs (s\<lparr>sys_fs := fs'\<rparr>)
      | Err IoAlreadyExists \<Rightarrow> create_components (p @ [c]) cs s
      | Err IoNotFound \<Rightarrow> (Err DevUnavailable, s)
      | Err k \<Rightarrow> (Err (DevIo k), s)
      | Panic \<Rightarrow> (Panic, s))"

definition create_key_directory :: "device \<Rightarrow> key_hash \<Rightarrow> path op" where
  "create_key_directory d key_hash = create_components (bucket_path d) (directory_components key_hash)"

definition bucket_directory :: "fs \<Rightarrow> device \<Rightarrow> (device_error, path) res" where
  "bucket_directory fs d = (if path_exists fs (bucket_path d) then Ok (bucket_path d) else Err DevUnavailable)"

definition read_bucket :: "fs \<Rightarrow> device \<Rightarrow> (device_error, path list) res" where
  "read_bucket fs d = bind_res (bucket_directory fs d) (read_dir_sorted fs)"

text \<open>Appending what a reader gives for each of a list of directories.\<close>

fun flat_map_res :: "('a \<Rightarrow> ('e, 'b list) res) \<Rightarrow> 'a list \<Rightarrow> ('e, 'b list) res" where
  "flat_map_res f [] = Ok []"
| "flat_map_res f (x # xs) = bind_res (f x) (\<lambda>ys. bind_res (flat_map_res f xs) (\<lambda>zs. Ok (ys @ zs)))"

definition key_directories :: "fs \<Rightarrow> device \<Rightarrow> (device_error, path list) res" where
  "key_directories fs d =
     bind_res (read_bucket fs d) (\<lambda>firsts.
     flat_map_res (\<lambda>first.
       bind_res (read_dir_sorted fs first) (\<lambda>seconds.
       flat_map_res (\<lambda>second.
         bind_res (read_dir_sorted fs second) (\<lambda>keys. Ok (filter (is_dir fs) keys))) seconds)) firsts)"

section \<open>Records\<close>

definition record_path :: "device \<Rightarrow> key_hash \<Rightarrow> version_id \<Rightarrow> path" where
  "record_path d key_hash version = key_directory d key_hash @ [record_file_name version]"

definition shard_path :: "device \<Rightarrow> key_hash \<Rightarrow> version_id \<Rightarrow> shard_index \<Rightarrow> path" where
  "shard_path d key_hash version index = key_directory d key_hash @ [shard_file_name version index]"

definition read_record ::
  "libs \<Rightarrow> json_lib \<Rightarrow> fs \<Rightarrow> device \<Rightarrow> key_hash \<Rightarrow> version_id \<Rightarrow> (device_error, metadata_record) res" where
  "read_record L J fs d key_hash version =
     bind_res (read_to_string fs (record_path d key_hash version)) (\<lambda>json.
     bind_res (map_err DevRecord (from_json L J json)) (\<lambda>record.
     if rec_key_hash record \<noteq> key_hash
     then Err (DevRecord (RecKeyHashMismatch (rec_key_hash record) key_hash))
     else Ok record))"

definition write_record :: "libs \<Rightarrow> json_lib \<Rightarrow> device \<Rightarrow> metadata_record \<Rightarrow> unit op" where
  "write_record L J d record =
     (let p = record_path d (rec_key_hash record) (rec_version record);
          store = op_bind (op_return (map_err DevRecord (to_json L J record))) (\<lambda>json.
                    write_file_atomically p (as_bytes json))
      in op_bind (op_return (map_err DevRecord (record_validate L record))) (\<lambda>_.
         op_bind (create_key_directory d (rec_key_hash record)) (\<lambda>_ s.
         if path_exists (sys_fs s) p
         then op_bind (op_return (read_record L J (sys_fs s) d (rec_key_hash record) (rec_version record))) (\<lambda>existing.
                if existing = record then op_return (Ok ())
                else if \<not> (same_body existing record \<and> rec_revision record > rec_revision existing)
                then op_return (Err (DevRecordExists (rec_key_hash record) (rec_version record)))
                else store) s
         else store s)))"

fun map_res :: "('a \<Rightarrow> ('e, 'b) res) \<Rightarrow> 'a list \<Rightarrow> ('e, 'b list) res" where
  "map_res f [] = Ok []"
| "map_res f (x # xs) = bind_res (f x) (\<lambda>y. bind_res (map_res f xs) (\<lambda>ys. Ok (y # ys)))"

definition versions_in :: "string list \<Rightarrow> version_id list" where
  "versions_in names = List.map_filter parse_record_file_name names"

definition read_records ::
  "libs \<Rightarrow> json_lib \<Rightarrow> fs \<Rightarrow> device \<Rightarrow> key_hash \<Rightarrow> (device_error, metadata_record list) res" where
  "read_records L J fs d key_hash =
     (case fs_read_dir fs (key_directory d key_hash) of
        Err IoNotFound \<Rightarrow> bind_res (bucket_directory fs d) (\<lambda>_. Ok [])
      | Err k \<Rightarrow> Err (DevIo k)
      | Panic \<Rightarrow> Panic
      | Ok names \<Rightarrow> map_res (read_record L J fs d key_hash) (sort (versions_in names)))"

section \<open>Shard files\<close>

record shard_write =
  wr_writer :: "shard_file_writer option"
  wr_temp_path :: path
  wr_final_path :: path
  wr_expected_length :: nat

definition discard_file :: "path \<Rightarrow> sys \<Rightarrow> sys" where
  "discard_file p s = (case fs_remove_file (sys_fs s) p of Ok fs' \<Rightarrow> s\<lparr>sys_fs := fs'\<rparr> | _ \<Rightarrow> s)"

text \<open>What an open handle writes shows at its path as long as the path is still there.\<close>

definition write_through :: "path \<Rightarrow> bytes \<Rightarrow> sys \<Rightarrow> sys" where
  "write_through p bs s =
     (if is_file (sys_fs s) p then s\<lparr>sys_fs := AList.update p (File bs (sys_now s)) (sys_fs s)\<rparr> else s)"

text \<open>\<open>room\<close> is whether the disk has the space that is asked for.\<close>

definition create_shard_file ::
  "libs \<Rightarrow> bool \<Rightarrow> path \<Rightarrow> shard_file_header \<Rightarrow> nat \<Rightarrow> shard_file_writer op" where
  "create_shard_file L room p header len s =
     (case create_with_reservation L room header (Some len) of
        Ok w \<Rightarrow> (case fs_write (sys_now s) (sys_fs s) p (df_content (sw_file w)) of
                   Ok fs' \<Rightarrow> (Ok w, s\<lparr>sys_fs := fs'\<rparr>)
                 | Err IoNotFound \<Rightarrow> (Err (DevShardFile SfIoNotFound), s)
                 | _ \<Rightarrow> (Err (DevShardFile SfIo), s))
      | Err SfIo \<Rightarrow> (Err (DevShardFile SfIo), discard_file p s)
      | Err e \<Rightarrow> (Err (DevShardFile e), s)
      | Panic \<Rightarrow> (Panic, s))"

definition begin_shard ::
  "libs \<Rightarrow> bool \<Rightarrow> device \<Rightarrow> key_hash \<Rightarrow> shard_file_header \<Rightarrow> nat \<Rightarrow> shard_write op" where
  "begin_shard L room d key_hash header object_size =
     op_bind (op_return (bind_res
        (map_err DevShardFile (shard_file_length (sfh_scheme header) (sfh_block_length header) object_size))
        (\<lambda>len. ok_or (DevBadObjectSize object_size) len))) (\<lambda>len.
     op_bind (create_key_directory d key_hash) (\<lambda>dir.
     let final_path = dir @ [shard_file_name (sfh_version_id header) (sfh_shard_index header)] in
     op_bind (temporary_path final_path) (\<lambda>temp_path.
     op_bind (create_shard_file L room temp_path header len) (\<lambda>writer.
     op_return (Ok \<lparr>wr_writer = Some writer, wr_temp_path = temp_path, wr_final_path = final_path,
                    wr_expected_length = len\<rparr>)))))"

definition shard_append :: "libs \<Rightarrow> bool \<Rightarrow> shard_block \<Rightarrow> shard_write \<Rightarrow> shard_write op" where
  "shard_append L room block w =
     op_bind (op_return (expect (wr_writer w))) (\<lambda>writer s.
       case append_block L room block writer of
         Ok writer' \<Rightarrow> (Ok (w\<lparr>wr_writer := Some writer'\<rparr>),
                        write_through (wr_temp_path w) (df_content (sw_file writer')) s)
       | Err e \<Rightarrow> (Err (DevShardFile e), s)
       | Panic \<Rightarrow> (Panic, s))"

definition shard_finish :: "libs \<Rightarrow> bool \<Rightarrow> nat \<Rightarrow> block_checksum \<Rightarrow> shard_write \<Rightarrow> shard_file_footer op" where
  "shard_finish L room object_size object_checksum w =
     op_bind (op_return (expect (wr_writer w))) (\<lambda>writer s.
       case writer_finish L room object_size object_checksum writer of
         Err e \<Rightarrow> (Err (DevShardFile e), discard_file (wr_temp_path w) s)
       | Panic \<Rightarrow> (Panic, s)
       | Ok (footer, content) \<Rightarrow>
           let s = write_through (wr_temp_path w) content s in
           if \<not> path_exists (sys_fs s) (wr_temp_path w) then (Err (DevIo IoNotFound), s)
           else case fs_rename (sys_fs s) (wr_temp_path w) (wr_final_path w) of
             Ok fs' \<Rightarrow> (Ok footer, s\<lparr>sys_fs := fs'\<rparr>)
           | Err k \<Rightarrow> (Err (DevIo k), discard_file (wr_temp_path w) s)
           | Panic \<Rightarrow> (Panic, s))"

definition shard_abort :: "shard_write \<Rightarrow> sys \<Rightarrow> sys" where
  "shard_abort w s = discard_file (wr_temp_path w) s"

definition shard_drop :: "shard_write \<Rightarrow> sys \<Rightarrow> sys" where
  "shard_drop w s = (if wr_writer w \<noteq> None then discard_file (wr_temp_path w) s else s)"

definition remove_temporary_shard :: "device \<Rightarrow> key_hash \<Rightarrow> version_id \<Rightarrow> shard_index \<Rightarrow> unit op" where
  "remove_temporary_shard d key_hash version index =
     op_bind (temporary_path (shard_path d key_hash version index)) remove_if_present"

definition open_shard ::
  "libs \<Rightarrow> fs \<Rightarrow> device \<Rightarrow> key_hash \<Rightarrow> version_id \<Rightarrow> shard_index \<Rightarrow> (device_error, shard_file_reader) res" where
  "open_shard L fs d key_hash version index =
     (case fs_read fs (shard_path d key_hash version index) of
        Ok bs \<Rightarrow> map_err DevShardFile (reader_open L bs)
      | Err IoNotFound \<Rightarrow> Err (DevShardFile SfIoNotFound)
      | Err _ \<Rightarrow> Err (DevShardFile SfIo)
      | Panic \<Rightarrow> Panic)"

section \<open>Deletion\<close>

definition starts_with :: "string \<Rightarrow> string \<Rightarrow> bool" where
  "starts_with prefix s = (take (length prefix) s = prefix)"

definition ends_with :: "string \<Rightarrow> string \<Rightarrow> bool" where
  "ends_with suffix s = (strip_suffix suffix s \<noteq> None)"

fun remove_all :: "path list \<Rightarrow> unit op" where
  "remove_all [] s = (Ok (), s)"
| "remove_all (p # ps) s = op_bind (remove_if_present p) (\<lambda>_. remove_all ps) s"

definition shard_of_version :: "version_id \<Rightarrow> string \<Rightarrow> bool" where
  "shard_of_version version name \<longleftrightarrow>
     starts_with (version_to_text version @ ''.'') name \<and> ends_with SHARD_SUFFIX name"

definition delete_version :: "device \<Rightarrow> key_hash \<Rightarrow> version_id \<Rightarrow> unit op" where
  "delete_version d key_hash version s =
     (let dir = key_directory d key_hash in
      if \<not> path_exists (sys_fs s) dir then (Ok (), s)
      else op_bind (remove_if_present (record_path d key_hash version)) (\<lambda>_.
           op_bind (fs_query (\<lambda>fs. map_err DevIo (fs_read_dir fs dir))) (\<lambda>names.
           op_bind (remove_all (map (\<lambda>name. dir @ [name]) (filter (shard_of_version version) names))) (\<lambda>_ s.
           case fs_remove_dir (sys_fs s) dir of
             Ok fs' \<Rightarrow> (Ok (), s\<lparr>sys_fs := fs'\<rparr>)
           | Err IoNotEmpty \<Rightarrow> (Ok (), s)
           | Err k \<Rightarrow> (Err (DevIo k), s)
           | Panic \<Rightarrow> (Panic, s)))) s)"

section \<open>Walks\<close>

text \<open>
  The callbacks are one function on what the walk meets: a record with whether
  its shard is there, or a path that gave no record.
\<close>

datatype walk_step = Continue | Stop

datatype walk_event = WalkRecord metadata_record bool | WalkBad path device_error

fun walk_each ::
  "('a \<Rightarrow> 's \<Rightarrow> (device_error, walk_step \<times> 's) res) \<Rightarrow> 'a list \<Rightarrow> 's \<Rightarrow> (device_error, walk_step \<times> 's) res" where
  "walk_each f [] st = Ok (Continue, st)"
| "walk_each f (x # xs) st =
     bind_res (f x st) (\<lambda>(step, st'). case step of Stop \<Rightarrow> Ok (Stop, st') | Continue \<Rightarrow> walk_each f xs st')"

text \<open>
  The cursor at one level: the name to compare with, when the walk is still on
  its path.  A smaller name is skipped; an equal one stays on the path.
\<close>

definition cursor_skips :: "string option \<Rightarrow> string \<Rightarrow> bool" where
  "cursor_skips c name = (case c of Some x \<Rightarrow> name < x | None \<Rightarrow> False)"

definition cursor_on :: "string option \<Rightarrow> string \<Rightarrow> bool" where
  "cursor_on c name = (c = Some name)"

definition walk_entry ::
  "libs \<Rightarrow> json_lib \<Rightarrow> fs \<Rightarrow> device \<Rightarrow> (walk_event \<Rightarrow> 's \<Rightarrow> walk_step \<times> 's) \<Rightarrow> version_id option
   \<Rightarrow> path \<Rightarrow> 's \<Rightarrow> (device_error, walk_step \<times> 's) res" where
  "walk_entry L J fs d f after entry st =
     (case parse_record_file_name (last entry) of
        None \<Rightarrow> Ok (Continue, st)
      | Some version \<Rightarrow>
          if (case after of Some c \<Rightarrow> version \<le> c | None \<Rightarrow> False) then Ok (Continue, st)
          else case read_to_string fs entry of
            Ok json \<Rightarrow> (case from_json L J json of
                Ok record \<Rightarrow>
                  let shard_present = (case shard_on record (dev_id d) of
                        Some index \<Rightarrow> is_file fs (with_file_name entry (shard_file_name version index))
                      | None \<Rightarrow> False)
                  in Ok (f (WalkRecord record shard_present) st)
              | Err e \<Rightarrow> Ok (Continue, snd (f (WalkBad entry (DevRecord e)) st))
              | Panic \<Rightarrow> Panic)
          | Err e \<Rightarrow> Ok (Continue, snd (f (WalkBad entry e) st))
          | Panic \<Rightarrow> Panic)"

definition walk_level ::
  "fs \<Rightarrow> string option \<Rightarrow> (bool \<Rightarrow> path \<Rightarrow> 's \<Rightarrow> (device_error, walk_step \<times> 's) res)
   \<Rightarrow> (device_error, path list) res \<Rightarrow> 's \<Rightarrow> (device_error, walk_step \<times> 's) res" where
  "walk_level fs c inner entries st =
     bind_res entries (\<lambda>ps. walk_each (\<lambda>p st.
       if cursor_skips c (last p) then Ok (Continue, st) else inner (cursor_on c (last p)) p st) ps st)"

definition walk_records_from ::
  "libs \<Rightarrow> json_lib \<Rightarrow> fs \<Rightarrow> device \<Rightarrow> (key_hash \<times> version_id) option
   \<Rightarrow> (walk_event \<Rightarrow> 's \<Rightarrow> walk_step \<times> 's) \<Rightarrow> 's \<Rightarrow> (device_error, 's) res" where
  "walk_records_from L J fs d after f st =
     (let level = (\<lambda>on i. if on then map_option (\<lambda>(hash, _). directory_components hash ! i) after else None) in
      bind_res (walk_level fs (level True 0) (\<lambda>on_first first.
        walk_level fs (level on_first 1) (\<lambda>on_second second.
          walk_level fs (level on_second 2) (\<lambda>on_key key_dir st.
            bind_res (read_dir_sorted fs key_dir) (\<lambda>entries.
              walk_each (walk_entry L J fs d f (if on_key then map_option snd after else None)) entries st))
            (read_dir_sorted fs second))
          (read_dir_sorted fs first))
        (read_bucket fs d) st) (\<lambda>(_, st'). Ok st'))"

definition walk_records ::
  "libs \<Rightarrow> json_lib \<Rightarrow> fs \<Rightarrow> device \<Rightarrow> (walk_event \<Rightarrow> 's \<Rightarrow> 's) \<Rightarrow> 's \<Rightarrow> (device_error, 's) res" where
  "walk_records L J fs d f st = walk_records_from L J fs d None (\<lambda>e st. (Continue, f e st)) st"

section \<open>Leftover temporary files\<close>

text \<open>Only files carry a time here: a directory with a temporary name counts as new.\<close>

fun each_op :: "('a \<Rightarrow> 'b list op) \<Rightarrow> 'a list \<Rightarrow> 'b list op" where
  "each_op f [] s = (Ok [], s)"
| "each_op f (x # xs) s =
     op_bind (f x) (\<lambda>ys. op_bind (each_op f xs) (\<lambda>zs. op_return (Ok (ys @ zs)))) s"

definition list_dir :: "path \<Rightarrow> path list op" where
  "list_dir p = fs_query (\<lambda>fs. read_dir_sorted fs p)"

definition cleanup_entry :: "nat \<Rightarrow> path \<Rightarrow> path list op" where
  "cleanup_entry cutoff entry s =
     (if \<not> ends_with TEMPORARY_SUFFIX (last entry) then (Ok [], s)
      else case map_of (sys_fs s) entry of
        None \<Rightarrow> (Err (DevIo IoNotFound), s)
      | Some Dir \<Rightarrow> (Ok [], s)
      | Some (File _ modified) \<Rightarrow>
          if modified < cutoff then op_bind (remove_if_present entry) (\<lambda>_. op_return (Ok [entry])) s
          else (Ok [], s))"

definition cleanup_temporaries :: "device \<Rightarrow> nat \<Rightarrow> path list op" where
  "cleanup_temporaries d older_than s =
     (let cutoff = sys_now s - older_than in
      op_bind (list_dir (bucket_path d)) (each_op (\<lambda>first.
      op_bind (list_dir first) (each_op (\<lambda>second.
      op_bind (list_dir second) (each_op (\<lambda>key_dir.
      op_bind (list_dir key_dir) (each_op (cleanup_entry cutoff)))))))) s)"

end
