(* ===== verification/DeviceStore.thy ===== *)
theory DeviceStore
  imports Device
begin

text \<open>
  What a device keeps: names of temporary files never collide, records are
  replaced only forwards, shards appear whole or not at all, deletion removes
  one version and nothing else.
\<close>

section \<open>Paths\<close>

lemma text_of_as_bytes [simp]: "text_of (as_bytes s) = s"
proof -
  have "unat (of_char c :: 8 word) = of_char c" for c
    by (subst of_nat_of_char [symmetric]) (simp add: unat_of_nat)
  then show ?thesis by (simp add: text_of_def as_bytes_def o_def)
qed

lemma key_directory_bucket: "key_directory d h = bucket_path d @ directory_components h"
  by (simp add: key_directory_def object_directory_def bucket_path_def)

lemma length_directory_components [simp]: "length (directory_components h) = 3"
  by (simp add: directory_components_def Let_def)

lemma key_directory_inj:
  "key_hash_wf h \<Longrightarrow> key_hash_wf h' \<Longrightarrow> key_directory d h = key_directory d h' \<longleftrightarrow> h = h'"
  using object_directory_inj by (auto simp: key_directory_def)

lemma record_path_inj:
  assumes "key_hash_wf h" "key_hash_wf h'" "version_wf v" "version_wf v'"
  shows "record_path d h v = record_path d h' v' \<longleftrightarrow> h = h' \<and> v = v'"
  using assms key_directory_inj record_name.enc_inj by (auto simp: record_path_def)

lemma butlast_paths [simp]:
  "butlast (record_path d h v) = key_directory d h" "butlast (shard_path d h v i) = key_directory d h"
  "last (record_path d h v) = record_file_name v" "last (shard_path d h v i) = shard_file_name v i"
  by (simp_all add: record_path_def shard_path_def)

section \<open>Names of temporary files\<close>

lemma split_last_dash:
  assumes "a @ CHR ''-'' # x = b @ CHR ''-'' # y" "CHR ''-'' \<notin> set x" "CHR ''-'' \<notin> set y"
  shows "a = b \<and> x = y"
proof -
  have "rev x @ CHR ''-'' # rev a = rev y @ CHR ''-'' # rev b" using arg_cong [OF assms(1), of rev] by simp
  moreover have "takeWhile (\<lambda>c. c \<noteq> CHR ''-'') (rev z @ CHR ''-'' # w) = rev z"
    if "CHR ''-'' \<notin> set z" for z w using that by (subst takeWhile_append2) auto
  ultimately have "rev x = rev y" using assms(2,3) by metis
  then have "x = y" by simp
  then show ?thesis using assms(1) by simp
qed

lemma show_nat_no_dash: "CHR ''-'' \<notin> set (show_nat n)"
proof
  assume "CHR ''-'' \<in> set (show_nat n)"
  then obtain d where "d \<in> set (dec_digits n)" "digit_char d = CHR ''-''" by (auto simp: show_nat_digits)
  moreover have "d < 10" using calculation dec_digits_props [of n] by auto
  ultimately show False by (auto dest!: nat_lt_16_cases [OF less_trans [of _ 10]] simp: digit_char_def)
qed

lemma show_nat_inj: "show_nat m = show_nat n \<Longrightarrow> m = n"
proof -
  assume eq: "show_nat m = show_nat n"
  have "from_str_radix 10 (m + n + 1) (show_nat m) = Some m" "from_str_radix 10 (m + n + 1) (show_nat n) = Some n"
    by (rule parse_show_nat, simp)+
  then show ?thesis using eq by simp
qed

lemma temporary_name_counter:
  assumes "temporary_name pid c name = temporary_name pid c' name'"
  shows "c = c'"
proof -
  have "(name @ ''.'' @ show_nat pid) @ CHR ''-'' # show_nat c = (name' @ ''.'' @ show_nat pid) @ CHR ''-'' # show_nat c'"
    using assms by (simp add: temporary_name_def)
  from split_last_dash [OF this show_nat_no_dash show_nat_no_dash] show ?thesis using show_nat_inj by blast
qed

lemma temporary_name_not_record: "temporary_name pid c name \<noteq> record_file_name v"
proof
  assume "temporary_name pid c name = record_file_name v"
  then have "last (temporary_name pid c name) = last (record_file_name v)" by simp
  then show False by (simp add: temporary_name_def record_file_name_def TEMPORARY_SUFFIX_def RECORD_SUFFIX_def)
qed

lemma temporary_name_not_shard: "temporary_name pid c name \<noteq> shard_file_name v i"
proof
  assume "temporary_name pid c name = shard_file_name v i"
  then have "last (temporary_name pid c name) = last (shard_file_name v i)" by simp
  then show False by (simp add: temporary_name_def shard_file_name_def TEMPORARY_SUFFIX_def SHARD_SUFFIX_def)
qed

lemma hex_component_no_dot: "c \<in> set (directory_components h) \<Longrightarrow> CHR ''.'' \<notin> set c"
proof -
  assume c: "c \<in> set (directory_components h)"
  have "CHR ''.'' \<notin> set (keyhash_to_hex h)"
  proof
    assume "CHR ''.'' \<in> set (keyhash_to_hex h)"
    then obtain b where "b \<in> set h" "CHR ''.'' \<in> set (hex_fixed 2 (unat b))"
      by (auto simp: keyhash_to_hex_def)
    then obtain x where "x < 16" "digit_char x = CHR ''.''" 
      using to_digits_lt [of 16] by (fastforce simp: hex_fixed_def)
    then show False by (simp add: digit_char_not_dot)
  qed
  moreover have "set (slice xs a n) \<subseteq> set xs" for xs :: string and a n
    unfolding slice_def by (meson dual_order.trans set_drop_subset set_take_subset)
  ultimately show ?thesis using c by (auto simp: directory_components_def Let_def)
qed

text \<open>No file under a temporary name this process has yet to use.\<close>

definition sys_fresh :: "sys \<Rightarrow> bool" where
  "sys_fresh s \<longleftrightarrow> (\<forall>dir name c. sys_counter s \<le> c \<longrightarrow>
     map_of (sys_fs s) (dir @ [temporary_name (sys_pid s) c name]) = None)"

section \<open>Creating directories and writing files\<close>

lemma op_bind_Ok: "m s = (Ok x, s') \<Longrightarrow> op_bind m f s = f x s'"
  by (simp add: op_bind_def)

lemma op_bind_return [simp]: "op_bind (op_return r) f s =
   (case r of Ok x \<Rightarrow> f x s | Err e \<Rightarrow> (Err e, s) | Panic \<Rightarrow> (Panic, s))"
  by (cases r) (simp_all add: op_bind_def op_return_def)

text \<open>A device that is there, with no file where a directory of the key belongs.\<close>

definition device_ready :: "fs \<Rightarrow> device \<Rightarrow> key_hash \<Rightarrow> bool" where
  "device_ready fs d h \<longleftrightarrow> is_dir fs (bucket_path d) \<and>
     (\<forall>i \<le> 3. \<not> is_file fs (bucket_path d @ take i (directory_components h)))"

text \<open>\<open>fs'\<close> is \<open>fs\<close> with some directories of \<open>Q\<close> added.\<close>

definition dirs_added :: "fs \<Rightarrow> fs \<Rightarrow> path set \<Rightarrow> bool" where
  "dirs_added fs fs' Q \<longleftrightarrow> (\<forall>q. map_of fs' q = map_of fs q \<or>
     (map_of fs q = None \<and> map_of fs' q = Some Dir \<and> q \<in> Q))"

lemma dirs_added_refl [simp]: "dirs_added fs fs Q"
  by (simp add: dirs_added_def)

lemma dirs_added_trans: "dirs_added fs fs' Q \<Longrightarrow> dirs_added fs' fs'' Q' \<Longrightarrow> dirs_added fs fs'' (Q \<union> Q')"
  unfolding dirs_added_def by (metis UnCI option.distinct(1))

lemma dirs_added_other: "dirs_added fs fs' Q \<Longrightarrow> q \<notin> Q \<Longrightarrow> map_of fs' q = map_of fs q"
  by (auto simp: dirs_added_def)

lemma dirs_added_dir: "dirs_added fs fs' Q \<Longrightarrow> is_dir fs q \<Longrightarrow> is_dir fs' q"
  unfolding dirs_added_def is_dir_def by (metis option.distinct(1))

lemma dirs_added_file: "dirs_added fs fs' Q \<Longrightarrow> is_file fs' q = is_file fs q"
proof -
  assume "dirs_added fs fs' Q"
  then have "map_of fs' q = map_of fs q \<or> map_of fs q = None \<and> map_of fs' q = Some Dir"
    by (auto simp: dirs_added_def)
  then show ?thesis by (auto simp: is_file_def)
qed

lemma inode_cases3:
  obtains (absent) "map_of fs p = None" | (there) "is_dir fs p" | (plain) "is_file fs p"
  by (cases "map_of fs p"; cases "the (map_of fs p)") (auto simp: is_dir_def is_file_def)

lemma create_components_ready:
  assumes "is_dir (sys_fs s) p" "\<forall>i \<le> length cs. \<not> is_file (sys_fs s) (p @ take i cs)"
  shows "\<exists>fs'. create_components p cs s = (Ok (p @ cs), s\<lparr>sys_fs := fs'\<rparr>) \<and> is_dir fs' (p @ cs) \<and>
    dirs_added (sys_fs s) fs' ((\<lambda>i. p @ take i cs) ` {1..length cs})"
  using assms
proof (induction cs arbitrary: p s)
  case Nil
  then show ?case by (intro exI [of _ "sys_fs s"]) simp
next
  case (Cons c cs)
  have sub: "(\<lambda>i. (p @ [c]) @ take i cs) ` {1..length cs} \<subseteq> (\<lambda>i. p @ take i (c # cs)) ` {1..length (c # cs)}"
    by (force intro: image_eqI [where x = "Suc _"])
  have one: "p @ [c] \<in> (\<lambda>i. p @ take i (c # cs)) ` {1..length (c # cs)}"
    by (rule image_eqI [where x = 1]) auto
  have step: "\<exists>fs1. create_components p (c # cs) s = create_components (p @ [c]) cs (s\<lparr>sys_fs := fs1\<rparr>) \<and>
      is_dir fs1 (p @ [c]) \<and> dirs_added (sys_fs s) fs1 {p @ [c]}"
  proof (cases rule: inode_cases3 [of "sys_fs s" "p @ [c]"])
    case absent
    then show ?thesis using Cons.prems(1)
      by (intro exI [of _ "AList.update (p @ [c]) Dir (sys_fs s)"])
        (auto simp: fs_create_dir_def path_exists_def is_dir_def dirs_added_def)
  next
    case there
    then show ?thesis
      by (intro exI [of _ "sys_fs s"]) (simp add: fs_create_dir_def path_exists_def is_dir_def)
  next
    case plain
    then show ?thesis using Cons.prems(2)[rule_format, of 1] by simp
  qed
  then obtain fs1 where fs1: "create_components p (c # cs) s = create_components (p @ [c]) cs (s\<lparr>sys_fs := fs1\<rparr>)"
    "is_dir fs1 (p @ [c])" "dirs_added (sys_fs s) fs1 {p @ [c]}" by blast
  have "\<forall>i \<le> length cs. \<not> is_file fs1 ((p @ [c]) @ take i cs)"
    using Cons.prems(2) dirs_added_file [OF fs1(3)] by (metis Suc_le_mono append_Cons append_Nil append_assoc length_Cons take_Suc_Cons)
  then obtain fs' where fs': "create_components (p @ [c]) cs (s\<lparr>sys_fs := fs1\<rparr>) = (Ok ((p @ [c]) @ cs), s\<lparr>sys_fs := fs'\<rparr>)"
    "is_dir fs' ((p @ [c]) @ cs)" "dirs_added fs1 fs' ((\<lambda>i. (p @ [c]) @ take i cs) ` {1..length cs})"
    using Cons.IH [of "s\<lparr>sys_fs := fs1\<rparr>" "p @ [c]"] fs1(2) by auto
  have "dirs_added (sys_fs s) fs' ((\<lambda>i. p @ take i (c # cs)) ` {1..length (c # cs)})"
    using dirs_added_trans [OF fs1(3) fs'(3)] sub one unfolding dirs_added_def by blast
  then show ?case using fs1(1) fs' by auto
qed

definition key_dirs :: "device \<Rightarrow> key_hash \<Rightarrow> path set" where
  "key_dirs d h = (\<lambda>i. bucket_path d @ take i (directory_components h)) ` {1..3}"

lemma create_key_directory_ready:
  assumes "device_ready (sys_fs s) d h"
  obtains fs' where "create_key_directory d h s = (Ok (key_directory d h), s\<lparr>sys_fs := fs'\<rparr>)"
    "is_dir fs' (key_directory d h)" "dirs_added (sys_fs s) fs' (key_dirs d h)"
  using create_components_ready [of s "bucket_path d" "directory_components h"] assms
  by (auto simp: device_ready_def create_key_directory_def key_directory_bucket key_dirs_def)

lemma path_not_key_dir: "record_path d h v \<notin> key_dirs d h'" "shard_path d h v i \<notin> key_dirs d h'"
proof -
  have "length q \<le> length (bucket_path d) + 3" if "q \<in> key_dirs d h'" for q
    using that by (auto simp: key_dirs_def)
  moreover have "length (record_path d h v) = length (bucket_path d) + 4"
    "length (shard_path d h v i) = length (bucket_path d) + 4"
    by (simp_all add: record_path_def shard_path_def key_directory_bucket)
  ultimately show "record_path d h v \<notin> key_dirs d h'" "shard_path d h v i \<notin> key_dirs d h'" by fastforce+
qed

lemma key_dirs_no_temporary: "dir @ [temporary_name pid c name] \<notin> key_dirs d h"
proof
  assume "dir @ [temporary_name pid c name] \<in> key_dirs d h"
  then obtain i where i: "1 \<le> i" "i \<le> 3"
    "dir @ [temporary_name pid c name] = bucket_path d @ take i (directory_components h)"
    by (auto simp: key_dirs_def)
  have "temporary_name pid c name = last (dir @ [temporary_name pid c name])" by simp
  also have "\<dots> \<in> set (directory_components h)"
    unfolding i(3) using i(1,2)
    by (metis diff_is_0_eq' last_appendR last_in_set le_antisym length_0_conv length_directory_components
        length_take min.absorb2 not_one_le_zero set_take_subset subsetD)
  finally show False using hex_component_no_dot by (force simp: temporary_name_def)
qed

lemma write_file_atomically_Ok:
  assumes "is_dir (sys_fs s) (butlast p)" "p \<noteq> []" "\<not> is_dir (sys_fs s) p"
    and "map_of (sys_fs s) (butlast p @ [temporary_name (sys_pid s) (sys_counter s) (last p)]) = None"
    and "temporary_name (sys_pid s) (sys_counter s) (last p) \<noteq> last p"
  obtains fs' where "write_file_atomically p bs s = (Ok (), s\<lparr>sys_counter := Suc (sys_counter s), sys_fs := fs'\<rparr>)"
    "\<And>q. map_of fs' q = (if q = p then Some (File bs (sys_now s)) else map_of (sys_fs s) q)"
proof -
  let ?temp = "butlast p @ [temporary_name (sys_pid s) (sys_counter s) (last p)]"
  let ?fs1 = "AList.update ?temp (File bs (sys_now s)) (sys_fs s)"
  let ?fs2 = "AList.update p (File bs (sys_now s)) (AList.delete ?temp ?fs1)"
  have "?temp \<noteq> p" using assms(2,5) by (metis last_snoc)
  then have "write_file_atomically p bs s = (Ok (), s\<lparr>sys_counter := Suc (sys_counter s), sys_fs := ?fs2\<rparr>)"
    using assms by (simp add: write_file_atomically_def op_bind_def temporary_path_def with_file_name_def
        fs_update_def fs_write_def fs_rename_def is_dir_def)
  moreover have "map_of ?fs2 q = (if q = p then Some (File bs (sys_now s)) else map_of (sys_fs s) q)" for q
    using assms(4) by simp
  ultimately show ?thesis by (rule that)
qed

section \<open>A store whose entries only move forward\<close>

text \<open>
  What a keeper of records promises its clients: a record is stored when there
  is none under its key or when it is newer than the one there, a record that
  is not newer is refused, and nothing else changes either way.
\<close>

locale versioned_store =
  fixes ok :: "'s \<Rightarrow> bool" and good :: "'r \<Rightarrow> bool" and lookup :: "'s \<Rightarrow> 'k \<Rightarrow> 'r option"
    and key :: "'r \<Rightarrow> 'k" and put :: "'r \<Rightarrow> 's \<Rightarrow> ('e, unit) res \<times> 's" and newer :: "'r \<Rightarrow> 'r \<Rightarrow> bool"
  assumes put_accepts: "ok s \<Longrightarrow> good r \<Longrightarrow> (\<And>old. lookup s (key r) = Some old \<Longrightarrow> old = r \<or> newer r old) \<Longrightarrow>
      fst (put r s) = Ok () \<and> lookup (snd (put r s)) = (lookup s)(key r \<mapsto> r) \<and> ok (snd (put r s))"
    and put_refuses: "ok s \<Longrightarrow> good r \<Longrightarrow> lookup s (key r) = Some old \<Longrightarrow> old \<noteq> r \<Longrightarrow> \<not> newer r old \<Longrightarrow>
      (\<exists>e. fst (put r s) = Err e) \<and> lookup (snd (put r s)) = lookup s \<and> ok (snd (put r s))"
    and newer_trans: "newer a b \<Longrightarrow> newer b c \<Longrightarrow> newer a c"
begin

lemma put_cases:
  assumes "ok s" "good r"
  shows "ok (snd (put r s)) \<and> (lookup (snd (put r s)) = lookup s \<or>
    (lookup (snd (put r s)) = (lookup s)(key r \<mapsto> r) \<and>
     (\<forall>old. lookup s (key r) = Some old \<longrightarrow> old = r \<or> newer r old)))"
  using put_accepts [OF assms] put_refuses [OF assms] by blast

lemma put_forward:
  assumes "ok s" "good r" "lookup s k = Some old"
  shows "\<exists>r'. lookup (snd (put r s)) k = Some r' \<and> (r' = old \<or> newer r' old)"
  using put_cases [OF assms(1,2)] assms(3) by (cases "k = key r") auto

text \<open>Over any sequence of puts every entry stays or is replaced by newer ones.\<close>

lemma puts_forward:
  assumes "ok s" "\<forall>r\<in>set rs. good r" "lookup s k = Some old"
  shows "ok (fold (\<lambda>r s. snd (put r s)) rs s) \<and>
    (\<exists>r'. lookup (fold (\<lambda>r s. snd (put r s)) rs s) k = Some r' \<and> (r' = old \<or> newer r' old))"
  using assms
proof (induction rs arbitrary: s old)
  case (Cons r rs)
  then obtain r1 where r1: "lookup (snd (put r s)) k = Some r1" "r1 = old \<or> newer r1 old"
    using put_forward [of s r k old] by auto
  have "ok (snd (put r s))" using put_cases [of s r] Cons.prems by auto
  from Cons.IH [OF this _ r1(1)] Cons.prems(2) r1(2) newer_trans show ?case by fastforce
qed simp

end

section \<open>Records on a device\<close>

definition stored :: "libs \<Rightarrow> json_lib \<Rightarrow> device \<Rightarrow> sys \<Rightarrow> key_hash \<times> version_id \<Rightarrow> metadata_record option" where
  "stored L J d s = (\<lambda>(h, v). if key_hash_wf h \<and> version_wf v
     then ok_option (read_record L J (sys_fs s) d h v) else None)"

definition store_ok :: "libs \<Rightarrow> json_lib \<Rightarrow> device \<Rightarrow> sys \<Rightarrow> bool" where
  "store_ok L J d s \<longleftrightarrow> sys_fresh s \<and> (\<forall>h. key_hash_wf h \<longrightarrow> device_ready (sys_fs s) d h) \<and>
     (\<forall>h v. key_hash_wf h \<longrightarrow> version_wf v \<longrightarrow> path_exists (sys_fs s) (record_path d h v) \<longrightarrow>
        (\<exists>r. read_record L J (sys_fs s) d h v = Ok r))"

definition storable :: "libs \<Rightarrow> json_lib \<Rightarrow> metadata_record \<Rightarrow> bool" where
  "storable L J r \<longleftrightarrow> record_typed r \<and> record_texts J r \<and> record_valid L r \<and> json_reads_written L J r"

definition newer_placement :: "metadata_record \<Rightarrow> metadata_record \<Rightarrow> bool" where
  "newer_placement r old \<longleftrightarrow> same_body old r \<and> rec_revision r > rec_revision old"

definition record_key :: "metadata_record \<Rightarrow> key_hash \<times> version_id" where
  "record_key r = (rec_key_hash r, rec_version r)"

lemma read_record_cong:
  "map_of fs (record_path d h v) = map_of fs' (record_path d h v) \<Longrightarrow>
   read_record L J fs d h v = read_record L J fs' d h v"
  by (simp add: read_record_def read_to_string_def fs_read_def)

lemma read_record_absent: "\<not> path_exists fs (record_path d h v) \<Longrightarrow> ok_option (read_record L J fs d h v) = None"
  by (simp add: read_record_def read_to_string_def fs_read_def path_exists_def)

lemma read_record_dir:
  "is_dir fs (record_path d h v) \<Longrightarrow> read_record L J fs d h v = Err (DevIo IoIsADirectory)"
  by (simp add: read_record_def read_to_string_def fs_read_def is_dir_def)

lemma read_record_file:
  assumes "map_of fs (record_path d (rec_key_hash r) v) = Some (File (as_bytes text) t)" "from_json L J text = Ok r"
  shows "read_record L J fs d (rec_key_hash r) v = Ok r"
  using assms by (simp add: read_record_def read_to_string_def fs_read_def)

lemma sys_fresh_add:
  assumes "sys_fresh s" "sys_pid s' = sys_pid s" "sys_counter s \<le> sys_counter s'"
    and "\<And>dir name c. sys_counter s' \<le> c \<Longrightarrow> map_of (sys_fs s') (dir @ [temporary_name (sys_pid s) c name]) =
      map_of (sys_fs s) (dir @ [temporary_name (sys_pid s) c name])"
  shows "sys_fresh s'"
  using assms by (simp add: sys_fresh_def)

lemma fresh_temporary:
  assumes "sys_fresh s"
  shows "map_of (sys_fs s) (dir @ [temporary_name (sys_pid s) (sys_counter s) name]) = None"
  using assms by (simp add: sys_fresh_def)

lemma dirs_added_fresh:
  assumes "sys_fresh s" "dirs_added (sys_fs s) fs' (key_dirs d h)"
  shows "sys_fresh (s\<lparr>sys_fs := fs'\<rparr>)"
  using assms(1) by (rule sys_fresh_add) (auto intro: dirs_added_other [OF assms(2) key_dirs_no_temporary])

text \<open>A state that differs only in directories of a key and in files below key directories.\<close>

lemma device_ready_kept:
  assumes "device_ready fs d h"
    and "\<And>q. map_of fs' q = map_of fs q \<or> map_of fs' q = Some Dir \<and> map_of fs q = None \<or>
      length q > length (bucket_path d) + 3"
  shows "device_ready fs' d h"
proof -
  have "is_dir fs' (bucket_path d)" using assms(1) assms(2) [of "bucket_path d"]
    by (auto simp: device_ready_def is_dir_def)
  moreover have "\<not> is_file fs' (bucket_path d @ take i (directory_components h))" if "i \<le> 3" for i
    using assms(1) assms(2) [of "bucket_path d @ take i (directory_components h)"] that
    by (auto simp: device_ready_def is_file_def)
  ultimately show ?thesis by (simp add: device_ready_def)
qed

lemma length_record_path: "length (record_path d h v) = length (bucket_path d) + 4"
  by (simp add: record_path_def key_directory_bucket)

text \<open>What a state keeps when it changes only by directories of a key and one readable record.\<close>

lemma store_ok_kept:
  assumes ok: "store_ok L J d s" and fresh: "sys_fresh s'"
    and same: "\<And>q. map_of (sys_fs s') q = map_of (sys_fs s) q \<or>
      map_of (sys_fs s') q = Some Dir \<and> map_of (sys_fs s) q = None \<and> q \<in> key_dirs d h \<or>
      q = record_path d h v"
    and wf: "key_hash_wf h" "version_wf v"
    and readable: "path_exists (sys_fs s') (record_path d h v) \<Longrightarrow> \<exists>r. read_record L J (sys_fs s') d h v = Ok r"
  shows "store_ok L J d s'"
    and "stored L J d s' = (stored L J d s)((h, v) := ok_option (read_record L J (sys_fs s') d h v))"
proof -
  have other: "map_of (sys_fs s') (record_path d h' v') = map_of (sys_fs s) (record_path d h' v')"
    if "key_hash_wf h'" "version_wf v'" "(h', v') \<noteq> (h, v)" for h' v'
    using same [of "record_path d h' v'"] path_not_key_dir(1) record_path_inj [OF that(1) wf(1) that(2) wf(2)] that(3)
    by auto
  have "device_ready (sys_fs s') d h'" if "key_hash_wf h'" for h'
  proof (rule device_ready_kept)
    show "device_ready (sys_fs s) d h'" using ok that by (simp add: store_ok_def)
    show "map_of (sys_fs s') q = map_of (sys_fs s) q \<or> map_of (sys_fs s') q = Some Dir \<and> map_of (sys_fs s) q = None \<or>
      length (bucket_path d) + 3 < length q" for q
      using same [of q] length_record_path [of d h v] by auto
  qed
  moreover have "\<exists>r. read_record L J (sys_fs s') d h' v' = Ok r"
    if "key_hash_wf h'" "version_wf v'" "path_exists (sys_fs s') (record_path d h' v')" for h' v'
  proof (cases "(h', v') = (h, v)")
    case False
    then show ?thesis using ok that other [OF that(1,2)] read_record_cong
      by (metis path_exists_def store_ok_def)
  qed (use that readable in auto)
  ultimately show "store_ok L J d s'" using fresh by (simp add: store_ok_def)
  show "stored L J d s' = (stored L J d s)((h, v) := ok_option (read_record L J (sys_fs s') d h v))"
  proof (rule ext)
    fix k
    show "stored L J d s' k = ((stored L J d s)((h, v) := ok_option (read_record L J (sys_fs s') d h v))) k"
    proof (cases "k = (h, v)")
      case False
      obtain h' v' where k: "k = (h', v')" by (cases k)
      show ?thesis
      proof (cases "key_hash_wf h' \<and> version_wf v'")
        case True
        then have "read_record L J (sys_fs s') d h' v' = read_record L J (sys_fs s) d h' v'"
          using other False k by (intro read_record_cong) auto
        then show ?thesis using False k by (auto simp: stored_def)
      qed (use False k in \<open>auto simp: stored_def\<close>)
    qed (simp add: stored_def wf)
  qed
qed

lemma store_ok_dirs:
  assumes ok: "store_ok L J d s" and h: "key_hash_wf h" and dirs: "dirs_added (sys_fs s) fs1 (key_dirs d h)"
  shows "store_ok L J d (s\<lparr>sys_fs := fs1\<rparr>)" "stored L J d (s\<lparr>sys_fs := fs1\<rparr>) = stored L J d s"
    "map_of fs1 (record_path d h' v') = map_of (sys_fs s) (record_path d h' v')"
proof -
  define v :: version_id where "v = replicate 16 0"
  have v: "version_wf v" by (simp add: v_def version_wf_def)
  have p: "map_of fs1 (record_path d h' v') = map_of (sys_fs s) (record_path d h' v')" for h' v'
    by (rule dirs_added_other [OF dirs path_not_key_dir(1)])
  note same = read_record_cong [OF p, of L J h v]
  have fresh: "sys_fresh (s\<lparr>sys_fs := fs1\<rparr>)" using ok dirs by (auto simp: store_ok_def intro: dirs_added_fresh)
  have q: "map_of (sys_fs (s\<lparr>sys_fs := fs1\<rparr>)) q = map_of (sys_fs s) q \<or>
      map_of (sys_fs (s\<lparr>sys_fs := fs1\<rparr>)) q = Some Dir \<and> map_of (sys_fs s) q = None \<and> q \<in> key_dirs d h \<or>
      q = record_path d h v" for q
    using dirs by (auto simp: dirs_added_def)
  have r: "\<exists>r. read_record L J (sys_fs (s\<lparr>sys_fs := fs1\<rparr>)) d h v = Ok r"
    if "path_exists (sys_fs (s\<lparr>sys_fs := fs1\<rparr>)) (record_path d h v)"
    using that ok h v by (simp add: store_ok_def path_exists_def p same)
  show "store_ok L J d (s\<lparr>sys_fs := fs1\<rparr>)" by (rule store_ok_kept(1) [OF ok fresh q h v r])
  have "stored L J d (s\<lparr>sys_fs := fs1\<rparr>) =
      (stored L J d s)((h, v) := ok_option (read_record L J (sys_fs (s\<lparr>sys_fs := fs1\<rparr>)) d h v))"
    by (rule store_ok_kept(2) [OF ok fresh q h v r])
  also have "\<dots> = stored L J d s" by (rule fun_upd_idem) (use h v same in \<open>simp add: stored_def\<close>)
  finally show "stored L J d (s\<lparr>sys_fs := fs1\<rparr>) = stored L J d s" .
qed (rule dirs_added_other [OF dirs path_not_key_dir(1)])

lemma store_ok_not_dir:
  assumes "store_ok L J d s" "key_hash_wf h" "version_wf v"
  shows "\<not> is_dir (sys_fs s) (record_path d h v)"
proof
  assume "is_dir (sys_fs s) (record_path d h v)"
  then show False using assms read_record_dir [of "sys_fs s" d h v L J]
    by (fastforce simp: store_ok_def path_exists_def is_dir_def)
qed

lemma store_ok_write:
  assumes ok: "store_ok L J d s" and wf: "key_hash_wf (rec_key_hash r)" "version_wf (rec_version r)"
    and dir: "is_dir (sys_fs s) (key_directory d (rec_key_hash r))" and read: "from_json L J t = Ok r"
  obtains s' where
    "write_file_atomically (record_path d (rec_key_hash r) (rec_version r)) (as_bytes t) s = (Ok (), s')"
    "stored L J d s' = (stored L J d s)(record_key r \<mapsto> r)" "store_ok L J d s'"
proof -
  let ?h = "rec_key_hash r" and ?v = "rec_version r" and ?p = "record_path d (rec_key_hash r) (rec_version r)"
  have fresh: "sys_fresh s" using ok by (simp add: store_ok_def)
  obtain fs2 where fs2: "write_file_atomically ?p (as_bytes t) s =
      (Ok (), s\<lparr>sys_counter := Suc (sys_counter s), sys_fs := fs2\<rparr>)"
    "\<And>q. map_of fs2 q = (if q = ?p then Some (File (as_bytes t) (sys_now s)) else map_of (sys_fs s) q)"
    by (rule write_file_atomically_Ok [of s ?p "as_bytes t"])
      (use dir store_ok_not_dir [OF ok wf] fresh_temporary [OF fresh] in
        \<open>auto simp: temporary_name_not_record record_path_def\<close>)
  let ?s2 = "s\<lparr>sys_counter := Suc (sys_counter s), sys_fs := fs2\<rparr>"
  have fresh2: "sys_fresh ?s2"
    by (rule sys_fresh_add [OF fresh]) (auto simp: fs2(2) record_path_def temporary_name_not_record)
  have r: "read_record L J fs2 d ?h ?v = Ok r"
    by (rule read_record_file [OF _ read]) (simp add: fs2(2))
  have q: "map_of (sys_fs ?s2) q = map_of (sys_fs s) q \<or>
      map_of (sys_fs ?s2) q = Some Dir \<and> map_of (sys_fs s) q = None \<and> q \<in> key_dirs d ?h \<or> q = ?p" for q
    by (simp add: fs2(2))
  from store_ok_kept [OF ok fresh2 q wf] r
  have "stored L J d ?s2 = (stored L J d s)(record_key r \<mapsto> r)" "store_ok L J d ?s2"
    by (simp_all add: record_key_def)
  with fs2(1) show ?thesis by (rule that)
qed

text \<open>The steps of a write after the record has been found valid and its directory made.\<close>

lemma write_record_run:
  assumes ok: "store_ok L J d s" and r: "storable L J r"
  obtains s1 t where "to_json L J r = Ok t" "from_json L J t = Ok r" "store_ok L J d s1"
    "stored L J d s1 = stored L J d s" "is_dir (sys_fs s1) (key_directory d (rec_key_hash r))"
    "write_record L J d r s = (case stored L J d s (record_key r) of
       None \<Rightarrow> write_file_atomically (record_path d (rec_key_hash r) (rec_version r)) (as_bytes t) s1
     | Some old \<Rightarrow> if old = r then (Ok (), s1)
         else if newer_placement r old
         then write_file_atomically (record_path d (rec_key_hash r) (rec_version r)) (as_bytes t) s1
         else (Err (DevRecordExists (rec_key_hash r) (rec_version r)), s1))"
proof -
  let ?h = "rec_key_hash r" and ?v = "rec_version r" and ?p = "record_path d (rec_key_hash r) (rec_version r)"
  have wf: "key_hash_wf ?h" "version_wf ?v" and valid: "record_validate L r = Ok ()"
    using r by (auto simp: storable_def record_typed_def record_validate_iff)
  obtain t where t: "to_json L J r = Ok t" "from_json L J t = Ok r"
    using from_json_to_json [of r J L] r unfolding storable_def by blast
  obtain fs1 where fs1: "create_key_directory d ?h s = (Ok (key_directory d ?h), s\<lparr>sys_fs := fs1\<rparr>)"
    "is_dir fs1 (key_directory d ?h)" "dirs_added (sys_fs s) fs1 (key_dirs d ?h)"
    using create_key_directory_ready [of s d ?h] ok wf(1) unfolding store_ok_def by blast
  note kept = store_ok_dirs [OF ok wf(1) fs1(3)]
  have same: "read_record L J fs1 d ?h ?v = read_record L J (sys_fs s) d ?h ?v"
    by (rule read_record_cong [OF kept(3)])
  have st: "stored L J d s (record_key r) = ok_option (read_record L J (sys_fs s) d ?h ?v)"
    using wf by (simp add: stored_def record_key_def)
  have "write_record L J d r s = (case stored L J d s (record_key r) of
       None \<Rightarrow> write_file_atomically ?p (as_bytes t) (s\<lparr>sys_fs := fs1\<rparr>)
     | Some old \<Rightarrow> if old = r then (Ok (), s\<lparr>sys_fs := fs1\<rparr>)
         else if newer_placement r old then write_file_atomically ?p (as_bytes t) (s\<lparr>sys_fs := fs1\<rparr>)
         else (Err (DevRecordExists ?h ?v), s\<lparr>sys_fs := fs1\<rparr>))"
  proof (cases "path_exists (sys_fs s) ?p")
    case False
    then show ?thesis using fs1(1) kept(3) [of ?h ?v] read_record_absent [OF False, of L J]
      by (simp add: write_record_def Let_def valid t op_bind_Ok path_exists_def st)
  next
    case True
    then obtain old where old: "read_record L J (sys_fs s) d ?h ?v = Ok old"
      using ok wf unfolding store_ok_def by blast
    then show ?thesis using True fs1(1) kept(3) [of ?h ?v] same
      by (simp add: write_record_def Let_def valid t op_bind_Ok path_exists_def st newer_placement_def op_return_def)
  qed
  from that [OF t kept(1,2) _ this] fs1(2) show ?thesis by simp
qed

lemma storable_wf: "storable L J r \<Longrightarrow> key_hash_wf (rec_key_hash r) \<and> version_wf (rec_version r)"
  by (simp add: storable_def record_typed_def)

lemma newer_placement_trans: "newer_placement a b \<Longrightarrow> newer_placement b c \<Longrightarrow> newer_placement a c"
  by (auto simp: newer_placement_def same_body_def)

interpretation device_records: versioned_store "store_ok L J d" "storable L J" "stored L J d" record_key
  "write_record L J d" newer_placement for L J d
proof unfold_locales
  fix s r
  assume ok: "store_ok L J d s" and r: "storable L J r"
    and free: "\<And>old. stored L J d s (record_key r) = Some old \<Longrightarrow> old = r \<or> newer_placement r old"
  obtain s1 t where json: "to_json L J r = Ok t" and run: "from_json L J t = Ok r" "store_ok L J d s1"
    "stored L J d s1 = stored L J d s" "is_dir (sys_fs s1) (key_directory d (rec_key_hash r))"
    "write_record L J d r s = (case stored L J d s (record_key r) of
       None \<Rightarrow> write_file_atomically (record_path d (rec_key_hash r) (rec_version r)) (as_bytes t) s1
     | Some old \<Rightarrow> if old = r then (Ok (), s1)
         else if newer_placement r old
         then write_file_atomically (record_path d (rec_key_hash r) (rec_version r)) (as_bytes t) s1
         else (Err (DevRecordExists (rec_key_hash r) (rec_version r)), s1))"
    by (rule write_record_run [OF ok r])
  obtain s2 where s2: "write_file_atomically (record_path d (rec_key_hash r) (rec_version r)) (as_bytes t) s1 = (Ok (), s2)"
    "stored L J d s2 = (stored L J d s)(record_key r \<mapsto> r)" "store_ok L J d s2"
    using store_ok_write [OF run(2) _ _ run(4,1)] storable_wf [OF r] unfolding run(3) by blast
  show "fst (write_record L J d r s) = Ok () \<and>
    stored L J d (snd (write_record L J d r s)) = (stored L J d s)(record_key r \<mapsto> r) \<and>
    store_ok L J d (snd (write_record L J d r s))"
  proof (cases "stored L J d s (record_key r) = Some r")
    case True
    then have "write_record L J d r s = (Ok (), s1)" by (simp add: run(5))
    moreover have "(stored L J d s)(record_key r \<mapsto> r) = stored L J d s" using True by (rule fun_upd_idem)
    ultimately show ?thesis using run(2,3) by simp
  next
    case False
    then have "write_record L J d r s = (Ok (), s2)"
      unfolding run(5) s2(1) using free by (auto split: option.splits)
    then show ?thesis using s2(2,3) by simp
  qed
next
  fix s r old
  assume ok: "store_ok L J d s" and r: "storable L J r" and old: "stored L J d s (record_key r) = Some old"
    and no: "old \<noteq> r" "\<not> newer_placement r old"
  obtain s1 t where "to_json L J r = Ok t" "from_json L J t = Ok r" and kept: "store_ok L J d s1"
    "stored L J d s1 = stored L J d s" and "is_dir (sys_fs s1) (key_directory d (rec_key_hash r))"
    and run: "write_record L J d r s = (case stored L J d s (record_key r) of
       None \<Rightarrow> write_file_atomically (record_path d (rec_key_hash r) (rec_version r)) (as_bytes t) s1
     | Some old \<Rightarrow> if old = r then (Ok (), s1)
         else if newer_placement r old
         then write_file_atomically (record_path d (rec_key_hash r) (rec_version r)) (as_bytes t) s1
         else (Err (DevRecordExists (rec_key_hash r) (rec_version r)), s1))"
    by (rule write_record_run [OF ok r])
  have "write_record L J d r s = (Err (DevRecordExists (rec_key_hash r) (rec_version r)), s1)"
    using old no by (simp add: run)
  with kept show "(\<exists>e. fst (write_record L J d r s) = Err e) \<and>
    stored L J d (snd (write_record L J d r s)) = stored L J d s \<and> store_ok L J d (snd (write_record L J d r s))"
    by simp
qed (rule newer_placement_trans)

section \<open>What the record store promises\<close>

definition demo_device :: device where
  "demo_device = \<lparr>dev_root = [], dev_identity = \<lparr>id_system = SYSTEM_NAME, id_notice = [], id_format_version = 1,
     id_device_id = 10, id_cluster_id = 9, id_created = 0\<rparr>, dev_filesystem_id = 1\<rparr>"

definition demo_sys :: sys where
  "demo_sys = \<lparr>sys_fs = [([], Dir), ([OBJECTS_DIR], Dir), ([OBJECTS_DIR, DEFAULT_BUCKET], Dir)],
     sys_pid = 1, sys_counter = 0, sys_now = 100\<rparr>"

lemma demo_bucket: "bucket_path demo_device = [OBJECTS_DIR, DEFAULT_BUCKET]"
  by (simp add: bucket_path_def demo_device_def)

lemma demo_ready: "device_ready (sys_fs demo_sys) demo_device h"
  by (auto simp: device_ready_def demo_bucket is_dir_def is_file_def demo_sys_def split: if_splits)

lemma demo_fresh: "sys_fresh demo_sys"
proof -
  have "CHR ''.'' \<in> set (temporary_name 1 c name)" for c name by (simp add: temporary_name_def)
  moreover have "CHR ''.'' \<notin> set OBJECTS_DIR" "CHR ''.'' \<notin> set DEFAULT_BUCKET"
    by (simp_all add: OBJECTS_DIR_def DEFAULT_BUCKET_def)
  ultimately have "temporary_name 1 c name \<noteq> OBJECTS_DIR" "temporary_name 1 c name \<noteq> DEFAULT_BUCKET" for c name
    by metis+
  then show ?thesis by (auto simp: sys_fresh_def demo_sys_def append_eq_Cons_conv)
qed

lemma demo_no_dir: "length p > 2 \<Longrightarrow> map_of (sys_fs demo_sys) p = None"
  by (auto simp: demo_sys_def)


lemma demo_store_ok: "store_ok L J demo_device demo_sys"
  by (auto simp: store_ok_def demo_fresh demo_ready path_exists_def demo_no_dir length_record_path demo_bucket)

lemma demo_storable: "storable demo_libs (demo_records [demo_record]) demo_record"
  using demo_record_texts [of demo_record "[demo_record]"]
  by (simp add: storable_def demo_record_typed demo_record_valid demo_json_reads)
    (simp add: demo_record_def)

text \<open>C20: Writing a record refines the abstract store of records by key hash and version: it stores
  the record when there is none or when it describes the same body at a higher revision, it does
  nothing when the very record is there, it refuses anything else with an error, and it never
  changes any other record.\<close>

theorem write_record_refines:
  assumes "store_ok L J d s" "storable L J r"
  shows "store_ok L J d (snd (write_record L J d r s)) \<and>
    (if (case stored L J d s (record_key r) of None \<Rightarrow> True | Some old \<Rightarrow>
           old = r \<or> same_body old r \<and> rec_revision r > rec_revision old)
     then fst (write_record L J d r s) = Ok () \<and>
       stored L J d (snd (write_record L J d r s)) = (stored L J d s)(record_key r \<mapsto> r)
     else (\<exists>e. fst (write_record L J d r s) = Err e) \<and>
       stored L J d (snd (write_record L J d r s)) = stored L J d s)"
proof (cases "stored L J d s (record_key r)")
  case None
  then show ?thesis using device_records.put_accepts [OF assms] by simp
next
  case (Some old)
  then show ?thesis
    using device_records.put_accepts [OF assms] device_records.put_refuses [OF assms Some]
    by (cases "old = r \<or> newer_placement r old") (auto simp: newer_placement_def)
qed

theorem write_record_refines_witness:
  "store_ok demo_libs (demo_records [demo_record]) demo_device
     (snd (write_record demo_libs (demo_records [demo_record]) demo_device demo_record demo_sys)) \<and>
   (if (case stored demo_libs (demo_records [demo_record]) demo_device demo_sys (record_key demo_record) of
          None \<Rightarrow> True | Some old \<Rightarrow> old = demo_record \<or>
            same_body old demo_record \<and> rec_revision demo_record > rec_revision old)
    then fst (write_record demo_libs (demo_records [demo_record]) demo_device demo_record demo_sys) = Ok () \<and>
      stored demo_libs (demo_records [demo_record]) demo_device
        (snd (write_record demo_libs (demo_records [demo_record]) demo_device demo_record demo_sys)) =
      (stored demo_libs (demo_records [demo_record]) demo_device demo_sys)(record_key demo_record \<mapsto> demo_record)
    else (\<exists>e. fst (write_record demo_libs (demo_records [demo_record]) demo_device demo_record demo_sys) = Err e) \<and>
      stored demo_libs (demo_records [demo_record]) demo_device
        (snd (write_record demo_libs (demo_records [demo_record]) demo_device demo_record demo_sys)) =
      stored demo_libs (demo_records [demo_record]) demo_device demo_sys)"
  by (rule write_record_refines [OF demo_store_ok demo_storable])

text \<open>C21: Over any sequence of record writes to a device, whatever their order and whether or not they
  succeed, a record that is there stays or gives way to records of the same body with higher
  and higher revisions; it never disappears and its revision never goes back.\<close>

theorem records_move_forward:
  assumes "store_ok L J d s" "\<forall>r\<in>set rs. storable L J r" "stored L J d s k = Some old"
  shows "\<exists>r. stored L J d (fold (\<lambda>r s. snd (write_record L J d r s)) rs s) k = Some r \<and>
    (r = old \<or> same_body old r \<and> rec_revision r > rec_revision old)"
  using device_records.puts_forward [OF assms] by (simp add: newer_placement_def)

theorem records_move_forward_witness:
  "\<exists>r. stored demo_libs (demo_records [demo_record]) demo_device (fold (\<lambda>r s. snd (write_record demo_libs
       (demo_records [demo_record]) demo_device r s)) [demo_record]
       (snd (write_record demo_libs (demo_records [demo_record]) demo_device demo_record demo_sys)))
     (record_key demo_record) = Some r \<and>
    (r = demo_record \<or> same_body demo_record r \<and> rec_revision r > rec_revision demo_record)"
proof -
  let ?J = "demo_records [demo_record]"
  have none: "stored demo_libs ?J demo_device demo_sys (record_key demo_record) = None"
    using read_record_absent [of "sys_fs demo_sys" demo_device]
    by (simp add: stored_def record_key_def path_exists_def demo_no_dir length_record_path demo_bucket)
  have "stored demo_libs ?J demo_device (snd (write_record demo_libs ?J demo_device demo_record demo_sys)) =
      (stored demo_libs ?J demo_device demo_sys)(record_key demo_record \<mapsto> demo_record) \<and>
      store_ok demo_libs ?J demo_device (snd (write_record demo_libs ?J demo_device demo_record demo_sys))"
    using device_records.put_accepts [OF demo_store_ok demo_storable] none by simp
  then show ?thesis by (intro records_move_forward) (simp_all add: demo_storable)
qed

end
