(* ===== verification/DeviceShards.thy ===== *)
theory DeviceShards
  imports DeviceStore
begin

text \<open>
  Shard files on a device: a shard is written under a temporary name and shows
  under its own name only when it is complete, reads back block by block, and
  an unfinished write leaves nothing behind.
\<close>

section \<open>The course of a write\<close>

fun shard_appends :: "libs \<Rightarrow> shard_block list \<Rightarrow> shard_write \<Rightarrow> shard_write op" where
  "shard_appends L [] w = op_return (Ok w)"
| "shard_appends L (b # bs) w = op_bind (shard_append L True b w) (shard_appends L bs)"

definition write_shard ::
  "libs \<Rightarrow> device \<Rightarrow> key_hash \<Rightarrow> shard_file_header \<Rightarrow> nat \<Rightarrow> block_checksum \<Rightarrow> shard_block list \<Rightarrow> shard_file_footer op" where
  "write_shard L d h header osize osum blocks =
     op_bind (begin_shard L True d h header osize) (\<lambda>w.
     op_bind (shard_appends L blocks w) (\<lambda>w. shard_finish L True osize osum w))"

definition header_path :: "device \<Rightarrow> key_hash \<Rightarrow> shard_file_header \<Rightarrow> path" where
  "header_path d h header = shard_path d h (sfh_version_id header) (sfh_shard_index header)"

definition temp_of :: "sys \<Rightarrow> path \<Rightarrow> path" where
  "temp_of s p = butlast p @ [temporary_name (sys_pid s) (sys_counter s) (last p)]"

text \<open>A write in progress: its writer has taken the blocks \<open>bs\<close> and the temporary file is what it wrote.\<close>

definition writing :: "libs \<Rightarrow> shard_file_header \<Rightarrow> nat \<Rightarrow> bytes list \<Rightarrow> path \<Rightarrow> path \<Rightarrow> shard_write \<Rightarrow> sys \<Rightarrow> bool" where
  "writing L header n bs temp final w s \<longleftrightarrow>
     wr_temp_path w = temp \<and> wr_final_path w = final \<and>
     (\<exists>writer t. wr_writer w = Some writer \<and> writer_inv L header n bs writer \<and>
        map_of (sys_fs s) temp = Some (File (df_content (sw_file writer)) t))"

lemma temp_of_props:
  "butlast (temp_of s p) = butlast p" "temp_of s p \<noteq> []"
  "temp_of s (header_path d h header) \<noteq> header_path d h header"
  "temp_of s p \<notin> key_dirs d h"
  using temporary_name_not_shard by (auto simp: temp_of_def header_path_def shard_path_def key_dirs_no_temporary)

lemma begin_shard_Ok:
  assumes fresh: "sys_fresh s" and ready: "device_ready (sys_fs s) d h"
    and n: "shard_file_length (sfh_scheme header) (sfh_block_length header) osize = Ok (Some n)"
    and header: "header_wf header"
  obtains w s1 where "begin_shard L True d h header osize s = (Ok w, s1)"
    "writing L header n [] (temp_of s (header_path d h header)) (header_path d h header) w s1"
    "\<forall>q. q \<noteq> temp_of s (header_path d h header) \<longrightarrow> q \<notin> key_dirs d h \<longrightarrow> map_of (sys_fs s1) q = map_of (sys_fs s) q"
    "is_dir (sys_fs s1) (key_directory d h)" "sys_fresh s1"
proof -
  let ?final = "header_path d h header" and ?temp = "temp_of s (header_path d h header)"
  obtain fs1 where fs1: "create_key_directory d h s = (Ok (key_directory d h), s\<lparr>sys_fs := fs1\<rparr>)"
    "is_dir fs1 (key_directory d h)" "dirs_added (sys_fs s) fs1 (key_dirs d h)"
    by (rule create_key_directory_ready [OF ready])
  have fresh1: "sys_fresh (s\<lparr>sys_fs := fs1\<rparr>)" by (rule dirs_added_fresh [OF fresh fs1(3)])
  have temp: "map_of fs1 ?temp = None"
    using fresh_temporary [OF fresh1] by (simp add: temp_of_def)
  obtain writer where writer: "create_with_reservation L True header (Some n) = Ok writer"
    using header by (simp add: create_with_reservation_def header_wf_def Let_def)
  let ?fs2 = "AList.update ?temp (File (df_content (sw_file writer)) (sys_now s)) fs1"
  let ?s2 = "s\<lparr>sys_counter := Suc (sys_counter s), sys_fs := ?fs2\<rparr>"
  let ?w = "\<lparr>wr_writer = Some writer, wr_temp_path = ?temp, wr_final_path = ?final, wr_expected_length = n\<rparr>"
  have parent: "map_of fs1 (butlast ?temp) = Some Dir"
    using fs1(2) by (simp add: temp_of_props header_path_def is_dir_def)
  have "begin_shard L True d h header osize s = (Ok ?w, ?s2)"
    using parent temp
    by (simp add: begin_shard_def n op_bind_def [of "create_key_directory _ _"] fs1(1) Let_def op_bind_def [of "temporary_path _"]
        op_bind_def [of "create_shard_file _ _ _ _ _"] temporary_path_def with_file_name_def
        create_shard_file_def writer fs_write_def op_return_def header_path_def shard_path_def temp_of_def)
  moreover have "writing L header n [] ?temp ?final ?w ?s2"
    using create_writer_inv [OF writer] by (simp add: writing_def)
  moreover have "\<forall>q. q \<noteq> ?temp \<longrightarrow> q \<notin> key_dirs d h \<longrightarrow> map_of (sys_fs ?s2) q = map_of (sys_fs s) q"
    using dirs_added_other [OF fs1(3)] by simp
  moreover have "is_dir (sys_fs ?s2) (key_directory d h)"
    using fs1(2) temp by (auto simp: is_dir_def)
  moreover have "sys_fresh ?s2"
    by (rule sys_fresh_add [OF fresh1]) (auto simp: temp_of_def dest: temporary_name_counter)
  ultimately show ?thesis by (rule that)
qed

lemma shard_append_Ok:
  assumes w: "writing L header n bs temp final w s"
    and b: "append_block L True b (the (wr_writer w)) = Ok writer'"
  obtains w' s' where "shard_append L True b w s = (Ok w', s')" "wr_writer w' = Some writer'"
    "writing L header n (bs @ [sb_bytes b]) temp final w' s'"
    "\<forall>q. q \<noteq> temp \<longrightarrow> map_of (sys_fs s') q = map_of (sys_fs s) q" "sys_counter s' = sys_counter s" "sys_pid s' = sys_pid s"
proof -
  obtain writer t where wr: "wr_writer w = Some writer" "writer_inv L header n bs writer"
    "map_of (sys_fs s) temp = Some (File (df_content (sw_file writer)) t)" "wr_temp_path w = temp" "wr_final_path w = final"
    using w by (auto simp: writing_def)
  have inv: "writer_inv L header n (bs @ [sb_bytes b]) writer'"
    using append_block_inv [OF wr(2), of True b writer'] b wr(1) by simp
  let ?s' = "s\<lparr>sys_fs := AList.update temp (File (df_content (sw_file writer')) (sys_now s)) (sys_fs s)\<rparr>"
  have "shard_append L True b w s = (Ok (w\<lparr>wr_writer := Some writer'\<rparr>), ?s')"
    using b wr by (simp add: shard_append_def write_through_def is_file_def)
  moreover have "writing L header n (bs @ [sb_bytes b]) temp final (w\<lparr>wr_writer := Some writer'\<rparr>) ?s'"
    using inv wr by (simp add: writing_def)
  ultimately show ?thesis using that by simp
qed

lemma shard_appends_Ok:
  assumes "writing L header n bs temp final w s"
    and "fold_res (append_block L True) blocks (the (wr_writer w)) = Ok writer'"
  obtains w' s' where "shard_appends L blocks w s = (Ok w', s')" "wr_writer w' = Some writer'"
    "writing L header n (bs @ map sb_bytes blocks) temp final w' s'"
    "\<forall>q. q \<noteq> temp \<longrightarrow> map_of (sys_fs s') q = map_of (sys_fs s) q" "sys_counter s' = sys_counter s" "sys_pid s' = sys_pid s"
  using assms
proof (induction blocks arbitrary: bs w s thesis)
  case Nil
  then have "shard_appends L [] w s = (Ok w, s)" "wr_writer w = Some writer'"
    by (auto simp: op_return_def writing_def)
  then show ?case using Nil by simp
next
  case (Cons b blocks)
  obtain writer1 where w1: "append_block L True b (the (wr_writer w)) = Ok writer1"
    "fold_res (append_block L True) blocks writer1 = Ok writer'"
    using Cons.prems(3) by (auto simp: res_simps)
  obtain w1 s1 where s1: "shard_append L True b w s = (Ok w1, s1)" "wr_writer w1 = Some writer1"
    "writing L header n (bs @ [sb_bytes b]) temp final w1 s1"
    "\<forall>q. q \<noteq> temp \<longrightarrow> map_of (sys_fs s1) q = map_of (sys_fs s) q" "sys_counter s1 = sys_counter s" "sys_pid s1 = sys_pid s"
    by (rule shard_append_Ok [OF Cons.prems(2) w1(1)])
  obtain w2 s2 where s2: "shard_appends L blocks w1 s1 = (Ok w2, s2)" "wr_writer w2 = Some writer'"
    "writing L header n ((bs @ [sb_bytes b]) @ map sb_bytes blocks) temp final w2 s2"
    "\<forall>q. q \<noteq> temp \<longrightarrow> map_of (sys_fs s2) q = map_of (sys_fs s1) q" "sys_counter s2 = sys_counter s1" "sys_pid s2 = sys_pid s1"
    by (rule Cons.IH [OF _ s1(3)]) (use s1(2) w1(2) in auto)
  show ?case
  proof (rule Cons.prems(1))
    show "shard_appends L (b # blocks) w s = (Ok w2, s2)" using s1(1) s2(1) by (simp add: op_bind_def)
    show "writing L header n (bs @ map sb_bytes (b # blocks)) temp final w2 s2" using s2(3) by simp
    show "\<forall>q. q \<noteq> temp \<longrightarrow> map_of (sys_fs s2) q = map_of (sys_fs s) q" using s1(4) s2(4) by simp
  qed (use s1(5,6) s2(2,5,6) in simp_all)
qed

lemma shard_finish_Ok:
  assumes w: "writing L header n bs temp final w s"
    and f: "writer_finish L True osize osum (the (wr_writer w)) = Ok (footer, content)"
    and final: "\<not> is_dir (sys_fs s) final" "temp \<noteq> final"
  obtains s' t where "shard_finish L True osize osum w s = (Ok footer, s')"
    "map_of (sys_fs s') = (map_of (sys_fs s))(temp := None, final \<mapsto> File content t)"
proof -
  obtain writer t where wr: "wr_writer w = Some writer"
    "map_of (sys_fs s) temp = Some (File (df_content (sw_file writer)) t)" "wr_temp_path w = temp" "wr_final_path w = final"
    using w by (auto simp: writing_def)
  let ?fs1 = "AList.update temp (File content (sys_now s)) (sys_fs s)"
  let ?fs2 = "AList.update final (File content (sys_now s)) (AList.delete temp ?fs1)"
  have "shard_finish L True osize osum w s = (Ok footer, s\<lparr>sys_fs := ?fs2\<rparr>)"
    using f wr final by (simp add: shard_finish_def write_through_def is_file_def Let_def path_exists_def fs_rename_def is_dir_def)
  moreover have "map_of (sys_fs (s\<lparr>sys_fs := ?fs2\<rparr>)) = (map_of (sys_fs s))(temp := None, final \<mapsto> File content (sys_now s))"
    by (rule ext) simp
  ultimately show ?thesis by (rule that)
qed

section \<open>What a shard write promises\<close>

lemma open_shard_file:
  assumes "map_of fs (shard_path d h v i) = Some (File content t)"
  shows "open_shard L fs d h v i = map_err DevShardFile (reader_open L content)"
  using assms by (simp add: open_shard_def fs_read_def)

lemma write_shard_steps:
  assumes fresh: "sys_fresh s" and ready: "device_ready (sys_fs s) d h"
    and h: "header_wf header" and osize: "osize < u64_modulus"
    and geo: "shard_geometry (sfh_scheme header) (sfh_block_length header) osize = Ok (Some g)"
    and n: "shard_file_length (sfh_scheme header) (sfh_block_length header) osize = Ok (Some n)"
    and blocks: "length blocks = geo_block_count g" "blocks \<noteq> []" "blocks_for L header (geo_last_block_length g) blocks"
    and last: "0 < geo_last_block_length g" "geo_last_block_length g \<le> sfh_block_length header"
    and small: "4152 + length (concat (map sb_bytes blocks)) + 8 * length blocks < u64_modulus"
    and final: "\<not> is_dir (sys_fs s) (header_path d h header)"
  obtains w s1 w2 s2 footer s' r where "begin_shard L True d h header osize s = (Ok w, s1)"
    "shard_appends L blocks w s1 = (Ok w2, s2)" "shard_finish L True osize osum w2 s2 = (Ok footer, s')"
    "open_shard L (sys_fs s') d h (sfh_version_id header) (sfh_shard_index header) = Ok r"
    "sr_header r = header" "sr_footer r = footer" "sff_block_count footer = length blocks"
    "\<forall>i < length blocks. read_block r i = Ok (blocks ! i)"
    "\<forall>q. q \<noteq> header_path d h header \<longrightarrow> q \<notin> key_dirs d h \<longrightarrow> map_of (sys_fs s') q = map_of (sys_fs s) q"
proof -
  let ?final = "header_path d h header" and ?temp = "temp_of s (header_path d h header)"
  let ?bs = "map sb_bytes blocks" and ?image = "file_image L header (map sb_bytes blocks) osize osum"
  obtain w s1 where s1: "begin_shard L True d h header osize s = (Ok w, s1)"
    "writing L header n [] ?temp ?final w s1"
    "\<forall>q. q \<noteq> ?temp \<longrightarrow> q \<notin> key_dirs d h \<longrightarrow> map_of (sys_fs s1) q = map_of (sys_fs s) q"
    "is_dir (sys_fs s1) (key_directory d h)" "sys_fresh s1"
    by (rule begin_shard_Ok [OF fresh ready n h])
  have inv: "writer_inv L header n [] (the (wr_writer w))" using s1(2) by (auto simp: writing_def)
  have img: "length ?image < u64_modulus" using small by (simp add: length_file_image [OF h])
  obtain writer where wr: "fold_res (append_block L True) blocks (the (wr_writer w)) = Ok writer"
    "writer_finish L True osize osum writer = Ok (footer_for L ?bs osize osum, ?image)"
    "blocks_shape (sfh_block_length header) ?bs"
    "check_geometry header osize (length blocks) (length (last ?bs)) = Ok ()"
    using written_file_image [OF h osize geo blocks last img n inv] by blast
  obtain w2 s2 where s2: "shard_appends L blocks w s1 = (Ok w2, s2)" "wr_writer w2 = Some writer"
    "writing L header n ([] @ ?bs) ?temp ?final w2 s2"
    "\<forall>q. q \<noteq> ?temp \<longrightarrow> map_of (sys_fs s2) q = map_of (sys_fs s1) q"
    "sys_counter s2 = sys_counter s1" "sys_pid s2 = sys_pid s1"
    by (rule shard_appends_Ok [OF s1(2) wr(1)])
  have "map_of (sys_fs s2) ?final = map_of (sys_fs s) ?final"
    using s1(3) s2(4) temp_of_props(3) [of s d h header] path_not_key_dir(2) by (metis header_path_def)
  then have notdir: "\<not> is_dir (sys_fs s2) ?final" using final by (simp add: is_dir_def)
  obtain s3 t where s3: "shard_finish L True osize osum w2 s2 = (Ok (footer_for L ?bs osize osum), s3)"
    "map_of (sys_fs s3) = (map_of (sys_fs s2))(?temp := None, ?final \<mapsto> File ?image t)"
    using shard_finish_Ok [OF s2(3) _ notdir temp_of_props(3)] wr(2) s2(2) by (metis option.sel)
  obtain r where r: "reader_open L ?image = Ok r" "sr_header r = header"
    "sr_footer r = footer_for L ?bs osize osum" "\<forall>i < length blocks. read_block r i = Ok (blocks ! i)"
    using file_image_reads [OF h osize blocks(3,2) wr(3,4) img] by blast
  have op: "open_shard L (sys_fs s3) d h (sfh_version_id header) (sfh_shard_index header) =
      map_err DevShardFile (reader_open L ?image)"
    by (rule open_shard_file) (simp add: s3(2) header_path_def)
  have "map_of (sys_fs s) ?temp = None" using fresh_temporary [OF fresh] by (simp add: temp_of_def)
  then have other: "\<forall>q. q \<noteq> ?final \<longrightarrow> q \<notin> key_dirs d h \<longrightarrow> map_of (sys_fs s3) q = map_of (sys_fs s) q"
    using s1(3) s2(4) by (auto simp: s3(2))
  have "open_shard L (sys_fs s3) d h (sfh_version_id header) (sfh_shard_index header) = Ok r"
    using op r(1) by simp
  from that [OF s1(1) s2(1) s3(1) this r(2,3) _ r(4) other] show ?thesis by (simp add: footer_for_def)
qed

text \<open>C22: A shard written block by block and finished shows on the device under its own name with
  every block as it was sent, and no other file of the device has changed.\<close>

theorem shard_write_shows:
  assumes fresh: "sys_fresh s" and ready: "device_ready (sys_fs s) d h"
    and h: "header_wf header" and osize: "osize < u64_modulus"
    and geo: "shard_geometry (sfh_scheme header) (sfh_block_length header) osize = Ok (Some g)"
    and n: "shard_file_length (sfh_scheme header) (sfh_block_length header) osize = Ok (Some n)"
    and blocks: "length blocks = geo_block_count g" "blocks \<noteq> []" "blocks_for L header (geo_last_block_length g) blocks"
    and last: "0 < geo_last_block_length g" "geo_last_block_length g \<le> sfh_block_length header"
    and small: "4152 + length (concat (map sb_bytes blocks)) + 8 * length blocks < u64_modulus"
    and final: "\<not> is_dir (sys_fs s) (header_path d h header)"
  shows "\<exists>footer s' r. write_shard L d h header osize osum blocks s = (Ok footer, s') \<and>
    open_shard L (sys_fs s') d h (sfh_version_id header) (sfh_shard_index header) = Ok r \<and>
    sr_header r = header \<and> sr_footer r = footer \<and> (\<forall>i < length blocks. read_block r i = Ok (blocks ! i)) \<and>
    (\<forall>q. q \<noteq> header_path d h header \<longrightarrow> q \<notin> key_dirs d h \<longrightarrow> map_of (sys_fs s') q = map_of (sys_fs s) q)"
  using write_shard_steps [OF assms, of osum] by (fastforce simp: write_shard_def op_bind_def)

theorem shard_write_shows_witness:
  "\<exists>footer s' r. write_shard demo_libs demo_device (replicate 32 5) demo_header 6 77 demo_blocks demo_sys = (Ok footer, s') \<and>
    open_shard demo_libs (sys_fs s') demo_device (replicate 32 5) (sfh_version_id demo_header) (sfh_shard_index demo_header) = Ok r \<and>
    sr_header r = demo_header \<and> sr_footer r = footer \<and> (\<forall>i < length demo_blocks. read_block r i = Ok (demo_blocks ! i)) \<and>
    (\<forall>q. q \<noteq> header_path demo_device (replicate 32 5) demo_header \<longrightarrow> q \<notin> key_dirs demo_device (replicate 32 5) \<longrightarrow>
       map_of (sys_fs s') q = map_of (sys_fs demo_sys) q)"
proof (rule shard_write_shows [OF demo_fresh demo_ready demo_header_wf,
      where g = "\<lparr>geo_block_count = 2, geo_last_block_length = 1\<rparr>" and n = 4171])
  have "length (header_path demo_device (replicate 32 5) demo_header) = 6"
    by (simp add: header_path_def shard_path_def key_directory_bucket demo_bucket)
  then show "\<not> is_dir (sys_fs demo_sys) (header_path demo_device (replicate 32 5) demo_header)"
    by (simp add: is_dir_def demo_no_dir)
qed (simp_all add: demo_geometry demo_blocks_def demo_header_def blocks_for_def)

section \<open>Writes that do not finish\<close>

lemma shard_append_writing:
  assumes w: "writing L header n bs temp final w s" and run: "shard_append L True b w s = (Ok w', s')"
  shows "writing L header n (bs @ [sb_bytes b]) temp final w' s' \<and>
    (\<forall>q. q \<noteq> temp \<longrightarrow> map_of (sys_fs s') q = map_of (sys_fs s) q) \<and>
    sys_counter s' = sys_counter s \<and> sys_pid s' = sys_pid s"
proof -
  obtain writer where "wr_writer w = Some writer" using w by (auto simp: writing_def)
  then obtain writer' where "append_block L True b (the (wr_writer w)) = Ok writer'"
    using run by (auto simp: shard_append_def split: res.splits)
  from shard_append_Ok [OF w this] run show ?thesis by fastforce
qed

lemma shard_appends_writing:
  assumes "writing L header n bs temp final w s" "shard_appends L blocks w s = (Ok w', s')"
  shows "(\<exists>bs'. writing L header n bs' temp final w' s') \<and>
    (\<forall>q. q \<noteq> temp \<longrightarrow> map_of (sys_fs s') q = map_of (sys_fs s) q) \<and>
    sys_counter s' = sys_counter s \<and> sys_pid s' = sys_pid s"
  using assms
proof (induction blocks arbitrary: bs w s)
  case Nil
  then show ?case by (auto simp: op_return_def)
next
  case (Cons b blocks)
  obtain w1 s1 where s1: "shard_append L True b w s = (Ok w1, s1)" "shard_appends L blocks w1 s1 = (Ok w', s')"
    using Cons.prems(2) by (auto simp: op_bind_def split: prod.splits res.splits)
  note one = shard_append_writing [OF Cons.prems(1) s1(1)]
  from Cons.IH [OF conjunct1 [OF one] s1(2)] one show ?case by simp
qed

lemma begin_shard_inverse:
  assumes "begin_shard L True d h header osize s = (Ok w, s1)"
  shows "\<exists>n. shard_file_length (sfh_scheme header) (sfh_block_length header) osize = Ok (Some n)"
proof (cases "shard_file_length (sfh_scheme header) (sfh_block_length header) osize")
  case (Ok x)
  then show ?thesis using assms by (cases x) (simp_all add: begin_shard_def)
qed (use assms in \<open>simp_all add: begin_shard_def\<close>)

text \<open>C23: Until a shard write finishes, nothing but its own temporary file differs from before; when it
  is aborted or dropped, that file is gone too, and every file is what it was.\<close>

theorem unfinished_write_leaves_nothing:
  assumes fresh: "sys_fresh s" and ready: "device_ready (sys_fs s) d h" and header: "header_wf header"
    and start: "begin_shard L True d h header osize s = (Ok w, s1)" and app: "shard_appends L blocks w s1 = (Ok w2, s2)"
    and q: "q \<notin> key_dirs d h"
  shows "(q \<noteq> wr_temp_path w \<longrightarrow> map_of (sys_fs s2) q = map_of (sys_fs s) q) \<and>
    map_of (sys_fs (shard_abort w2 s2)) q = map_of (sys_fs s) q \<and>
    map_of (sys_fs (shard_drop w2 s2)) q = map_of (sys_fs s) q"
proof -
  let ?final = "header_path d h header" and ?temp = "temp_of s (header_path d h header)"
  obtain n where n: "shard_file_length (sfh_scheme header) (sfh_block_length header) osize = Ok (Some n)"
    using begin_shard_inverse [OF start] by blast
  obtain w' s1' where s1: "begin_shard L True d h header osize s = (Ok w', s1')"
    "writing L header n [] ?temp ?final w' s1'"
    "\<forall>q. q \<noteq> ?temp \<longrightarrow> q \<notin> key_dirs d h \<longrightarrow> map_of (sys_fs s1') q = map_of (sys_fs s) q"
    "is_dir (sys_fs s1') (key_directory d h)" "sys_fresh s1'"
    by (rule begin_shard_Ok [OF fresh ready n header])
  then have w: "writing L header n [] ?temp ?final w s1" "wr_temp_path w = ?temp"
    and same: "\<forall>q. q \<noteq> ?temp \<longrightarrow> q \<notin> key_dirs d h \<longrightarrow> map_of (sys_fs s1) q = map_of (sys_fs s) q"
    using start by (auto simp: writing_def)
  from shard_appends_writing [OF w(1) app] obtain bs where s2: "writing L header n bs ?temp ?final w2 s2"
    "\<forall>q. q \<noteq> ?temp \<longrightarrow> map_of (sys_fs s2) q = map_of (sys_fs s1) q" by blast
  then obtain writer content t where wr: "wr_temp_path w2 = ?temp" "wr_writer w2 = Some writer"
    "map_of (sys_fs s2) ?temp = Some (File content t)" by (auto simp: writing_def)
  have "map_of (sys_fs s) ?temp = None" using fresh_temporary [OF fresh] by (simp add: temp_of_def)
  moreover have "map_of (sys_fs (discard_file ?temp s2)) q = (if q = ?temp then None else map_of (sys_fs s2) q)"
    using wr(3) by (simp add: discard_file_def fs_remove_file_def)
  ultimately show ?thesis using q same s2(2) wr(1,2) w(2) by (auto simp: shard_abort_def shard_drop_def)
qed

text \<open>C24: The request that is to remove the temporary file of an unfinished shard write removes
  nothing: it looks for a name no write has used, reports success, and leaves every file, the
  temporary one included, where it is.\<close>

theorem remove_temporary_shard_misses:
  assumes fresh: "sys_fresh s" and ready: "device_ready (sys_fs s) d h" and header: "header_wf header"
    and start: "begin_shard L True d h header osize s = (Ok w, s1)"
    and abort: "remove_temporary_shard d h (sfh_version_id header) (sfh_shard_index header) s1 = (res, s2)"
  shows "res = Ok () \<and> sys_fs s2 = sys_fs s1 \<and> is_file (sys_fs s2) (wr_temp_path w)"
proof -
  let ?final = "header_path d h header" and ?temp = "temp_of s (header_path d h header)"
  obtain n where n: "shard_file_length (sfh_scheme header) (sfh_block_length header) osize = Ok (Some n)"
    using begin_shard_inverse [OF start] by blast
  obtain w' s1' where s1: "begin_shard L True d h header osize s = (Ok w', s1')"
    "writing L header n [] ?temp ?final w' s1'"
    "\<forall>q. q \<noteq> ?temp \<longrightarrow> q \<notin> key_dirs d h \<longrightarrow> map_of (sys_fs s1') q = map_of (sys_fs s) q"
    "is_dir (sys_fs s1') (key_directory d h)" "sys_fresh s1'"
    by (rule begin_shard_Ok [OF fresh ready n header])
  then have "is_file (sys_fs s1) (wr_temp_path w)" "sys_fresh s1"
    using start by (auto simp: writing_def is_file_def)
  then show ?thesis using abort fresh_temporary [of s1]
    by (auto simp: remove_temporary_shard_def op_bind_def temporary_path_def with_file_name_def
        remove_if_present_def fs_remove_file_def)
qed

lemma demo_begin:
  obtains w s1 where "begin_shard demo_libs True demo_device (replicate 32 5) demo_header 6 demo_sys = (Ok w, s1)"
  by (rule begin_shard_Ok [OF demo_fresh demo_ready _ demo_header_wf, of 6 4171])
    (use demo_geometry in \<open>auto simp: demo_header_def\<close>)

theorem unfinished_write_leaves_nothing_witness:
  "\<exists>w s1 w2 s2. begin_shard demo_libs True demo_device (replicate 32 5) demo_header 6 demo_sys = (Ok w, s1) \<and>
     shard_appends demo_libs [] w s1 = (Ok w2, s2) \<and>
     (([] :: path) \<noteq> wr_temp_path w \<longrightarrow> map_of (sys_fs s2) [] = map_of (sys_fs demo_sys) []) \<and>
     map_of (sys_fs (shard_abort w2 s2)) [] = map_of (sys_fs demo_sys) [] \<and>
     map_of (sys_fs (shard_drop w2 s2)) [] = map_of (sys_fs demo_sys) []"
proof -
  obtain w s1 where start: "begin_shard demo_libs True demo_device (replicate 32 5) demo_header 6 demo_sys = (Ok w, s1)"
    by (rule demo_begin)
  have "shard_appends demo_libs [] w s1 = (Ok w, s1)" by (simp add: op_return_def)
  moreover have "[] \<notin> key_dirs demo_device (replicate 32 5)" by (auto simp: key_dirs_def demo_bucket)
  ultimately show ?thesis
    using start unfinished_write_leaves_nothing [OF demo_fresh demo_ready demo_header_wf start] by blast
qed

theorem remove_temporary_shard_misses_witness:
  "\<exists>w s1 res s2. begin_shard demo_libs True demo_device (replicate 32 5) demo_header 6 demo_sys = (Ok w, s1) \<and>
     remove_temporary_shard demo_device (replicate 32 5) (sfh_version_id demo_header) (sfh_shard_index demo_header) s1 = (res, s2) \<and>
     res = Ok () \<and> sys_fs s2 = sys_fs s1 \<and> is_file (sys_fs s2) (wr_temp_path w)"
proof -
  obtain w s1 where start: "begin_shard demo_libs True demo_device (replicate 32 5) demo_header 6 demo_sys = (Ok w, s1)"
    by (rule demo_begin)
  obtain res s2 where run: "remove_temporary_shard demo_device (replicate 32 5) (sfh_version_id demo_header)
      (sfh_shard_index demo_header) s1 = (res, s2)" by fastforce
  from remove_temporary_shard_misses [OF demo_fresh demo_ready demo_header_wf start run] start run
  show ?thesis by blast
qed

end
