(* ===== verification/DeviceLife.thy ===== *)
theory DeviceLife
  imports DeviceShards
begin

text \<open>
  The other ends of a device's life: deleting one version and nothing else,
  making a directory a device and opening it again, and what every operation
  says when the disk is not there.
\<close>

section \<open>Deletion\<close>

lemma remove_if_present_Ok:
  assumes "\<not> is_dir (sys_fs s) p"
  obtains fs' where "remove_if_present p s = (Ok (), s\<lparr>sys_fs := fs'\<rparr>)"
    "map_of fs' = (map_of (sys_fs s))(p := None)"
proof (cases "map_of (sys_fs s) p")
  case None
  then have "remove_if_present p s = (Ok (), s\<lparr>sys_fs := sys_fs s\<rparr>)"
    by (simp add: remove_if_present_def fs_remove_file_def)
  moreover have "map_of (sys_fs s) = (map_of (sys_fs s))(p := None)" using None by (simp add: fun_upd_idem)
  ultimately show ?thesis by (rule that)
next
  case (Some i)
  then obtain bs t where "i = File bs t" using assms by (cases i) (auto simp: is_dir_def)
  then have "remove_if_present p s = (Ok (), s\<lparr>sys_fs := AList.delete p (sys_fs s)\<rparr>)"
    using Some by (simp add: remove_if_present_def fs_remove_file_def)
  moreover have "map_of (AList.delete p (sys_fs s)) = (map_of (sys_fs s))(p := None)" by (rule ext) simp
  ultimately show ?thesis by (rule that)
qed

lemma remove_all_Ok:
  assumes "\<forall>p\<in>set ps. \<not> is_dir (sys_fs s) p"
  shows "\<exists>fs'. remove_all ps s = (Ok (), s\<lparr>sys_fs := fs'\<rparr>) \<and>
    (\<forall>q. map_of fs' q = (if q \<in> set ps then None else map_of (sys_fs s) q))"
  using assms
proof (induction ps arbitrary: s)
  case Nil
  then show ?case by (intro exI [of _ "sys_fs s"]) simp
next
  case (Cons p ps)
  obtain fs1 where fs1: "remove_if_present p s = (Ok (), s\<lparr>sys_fs := fs1\<rparr>)"
    "map_of fs1 = (map_of (sys_fs s))(p := None)"
    using remove_if_present_Ok [of s p] Cons.prems by auto
  have "\<forall>p\<in>set ps. \<not> is_dir (sys_fs (s\<lparr>sys_fs := fs1\<rparr>)) p"
    using Cons.prems by (auto simp: is_dir_def fs1(2))
  from Cons.IH [OF this] obtain fs' where "remove_all ps (s\<lparr>sys_fs := fs1\<rparr>) = (Ok (), s\<lparr>sys_fs := fs'\<rparr>)"
    "\<forall>q. map_of fs' q = (if q \<in> set ps then None else map_of fs1 q)" by auto
  then show ?case using fs1 by (auto simp: op_bind_def)
qed

text \<open>The paths a deletion is about.\<close>

definition of_version :: "device \<Rightarrow> key_hash \<Rightarrow> version_id \<Rightarrow> path \<Rightarrow> bool" where
  "of_version d h v q \<longleftrightarrow> q = record_path d h v \<or>
     (\<exists>name. q = key_directory d h @ [name] \<and> shard_of_version v name)"

lemma children_empty: "children fs p = [] \<longleftrightarrow> (\<forall>name. map_of fs (p @ [name]) = None)"
  using children_iff [of _ fs p] by (metis empty_iff empty_set last_in_set)

lemma delete_version_Ok:
  assumes dir: "is_dir (sys_fs s) (key_directory d h)"
    and files: "\<And>q. of_version d h v q \<Longrightarrow> \<not> is_dir (sys_fs s) q"
  shows "\<exists>fs'. delete_version d h v s = (Ok (), s\<lparr>sys_fs := fs'\<rparr>) \<and>
    (\<forall>q. map_of fs' q = (if of_version d h v q then None
       else if q = key_directory d h \<and>
         (\<forall>name. of_version d h v (q @ [name]) \<or> map_of (sys_fs s) (q @ [name]) = None) then None
       else map_of (sys_fs s) q))"
proof -
  let ?dir = "key_directory d h" and ?rec = "record_path d h v"
  have rec: "of_version d h v ?rec" by (simp add: of_version_def)
  obtain fs1 where fs1: "remove_if_present ?rec s = (Ok (), s\<lparr>sys_fs := fs1\<rparr>)"
    "map_of fs1 = (map_of (sys_fs s))(?rec := None)"
    using remove_if_present_Ok [of s ?rec] files [OF rec] by auto
  have ne: "?rec \<noteq> ?dir" by (simp add: record_path_def)
  have dir1: "map_of fs1 ?dir = Some Dir" using dir ne by (simp add: fs1(2) is_dir_def)
  define ps where "ps = map (\<lambda>name. ?dir @ [name]) (filter (shard_of_version v) (children fs1 ?dir))"
  have ps: "q \<in> set ps \<longleftrightarrow> (\<exists>name. q = ?dir @ [name] \<and> shard_of_version v name \<and> map_of fs1 q \<noteq> None)" for q
    by (auto simp: ps_def children_iff)
  have "\<forall>p\<in>set ps. \<not> is_dir (sys_fs (s\<lparr>sys_fs := fs1\<rparr>)) p"
    using files ps by (auto simp: is_dir_def fs1(2) of_version_def)
  from remove_all_Ok [OF this] obtain fs2 where fs2: "remove_all ps (s\<lparr>sys_fs := fs1\<rparr>) = (Ok (), s\<lparr>sys_fs := fs2\<rparr>)"
    "\<forall>q. map_of fs2 q = (if q \<in> set ps then None else map_of fs1 q)" by auto
  have m2: "map_of fs2 q = (if of_version d h v q then None else map_of (sys_fs s) q)" for q
    using fs2(2) ps [of q] by (auto simp: fs1(2) of_version_def)
  have dir2: "map_of fs2 ?dir = Some Dir" using fs2(2) ps dir1 by simp
  let ?fs3 = "if children fs2 ?dir = [] then AList.delete ?dir fs2 else fs2"
  have "delete_version d h v s = (Ok (), s\<lparr>sys_fs := ?fs3\<rparr>)"
    using dir fs1(1) fs2(1) dir1 dir2
    by (simp add: delete_version_def Let_def path_exists_def is_dir_def op_bind_def fs_query_def fs_read_dir_def
        fs_remove_dir_def ps_def [symmetric])
  moreover have "children fs2 ?dir = [] \<longleftrightarrow>
      (\<forall>name. of_version d h v (?dir @ [name]) \<or> map_of (sys_fs s) (?dir @ [name]) = None)"
    by (auto simp: children_empty m2)
  moreover have "\<not> of_version d h v ?dir" using ne by (auto simp: of_version_def)
  ultimately show ?thesis by (intro exI [of _ ?fs3]) (auto simp: m2)
qed

lemma length_version_text: "length (version_to_text v) = 26"
  by (simp add: version_to_text_digits)

lemma shard_file_of_version:
  assumes "version_wf v" "version_wf v'"
  shows "shard_of_version v (shard_file_name v' i) \<longleftrightarrow> v' = v"
proof -
  have "starts_with (version_to_text v @ ''.'') (shard_file_name v' i) \<longleftrightarrow> version_to_text v = version_to_text v'"
    by (auto simp: starts_with_def shard_file_name_def length_version_text)
  moreover have "ends_with SHARD_SUFFIX (shard_file_name v' i)"
    unfolding ends_with_def shard_file_name_def
    by (metis append_assoc option.distinct(1) strip_suffix_append)
  ultimately show ?thesis using assms version_text.enc_inj by (auto simp: shard_of_version_def)
qed

lemma record_file_not_shard: "\<not> shard_of_version v (record_file_name v')"
proof
  assume "shard_of_version v (record_file_name v')"
  then have "last (record_file_name v') = last SHARD_SUFFIX"
    by (auto simp: shard_of_version_def ends_with_def strip_suffix_Some SHARD_SUFFIX_def)
  then show False by (simp add: record_file_name_def RECORD_SUFFIX_def SHARD_SUFFIX_def)
qed

text \<open>C25: Deleting a version succeeds, takes its record and all its shard files off the device, and
  leaves the record and the shards of every other version and key untouched.\<close>

theorem delete_version_exact:
  assumes dir: "is_dir (sys_fs s) (key_directory d h)"
    and files: "\<forall>q. of_version d h v q \<longrightarrow> \<not> is_dir (sys_fs s) q"
    and wf: "key_hash_wf h" "key_hash_wf h'" "version_wf v" "version_wf v'"
  shows "\<exists>s'. delete_version d h v s = (Ok (), s') \<and>
    map_of (sys_fs s') (record_path d h v) = None \<and> map_of (sys_fs s') (shard_path d h v i) = None \<and>
    ((h', v') \<noteq> (h, v) \<longrightarrow>
       map_of (sys_fs s') (record_path d h' v') = map_of (sys_fs s) (record_path d h' v') \<and>
       map_of (sys_fs s') (shard_path d h' v' i) = map_of (sys_fs s) (shard_path d h' v' i))"
proof -
  obtain fs' where fs': "delete_version d h v s = (Ok (), s\<lparr>sys_fs := fs'\<rparr>)"
    "\<forall>q. map_of fs' q = (if of_version d h v q then None
       else if q = key_directory d h \<and>
         (\<forall>name. of_version d h v (q @ [name]) \<or> map_of (sys_fs s) (q @ [name]) = None) then None
       else map_of (sys_fs s) q)"
    using delete_version_Ok [OF dir, of v] files by blast
  have len: "length (record_path d h' v') \<noteq> length (key_directory d h)"
    "length (shard_path d h' v' i) \<noteq> length (key_directory d h)"
    by (simp_all add: record_path_def shard_path_def key_directory_bucket)
  have ne: "record_path d h' v' \<noteq> key_directory d h" "shard_path d h' v' i \<noteq> key_directory d h"
    using len by metis+
  have gone: "of_version d h v (record_path d h v)" "of_version d h v (shard_path d h v i)"
    using shard_file_of_version [OF wf(3,3)] by (auto simp: of_version_def shard_path_def)
  have "\<not> of_version d h v (record_path d h' v')" "\<not> of_version d h v (shard_path d h' v' i)" if "(h', v') \<noteq> (h, v)"
    using that record_path_inj [OF wf(2,1,4,3)] record_file_not_shard shard_file_of_version [OF wf(3,4)]
      key_directory_inj [OF wf(2,1)] shard_name_not_record [of v' i] record_name.dec_enc [OF wf(3)]
    by (auto simp: of_version_def record_path_def shard_path_def)
  then show ?thesis using fs' gone ne by (intro exI [of _ "s\<lparr>sys_fs := fs'\<rparr>"]) simp
qed

definition demo_key_sys :: sys where
  "demo_key_sys = demo_sys\<lparr>sys_fs := (key_directory demo_device (replicate 32 5), Dir) # sys_fs demo_sys\<rparr>"

theorem delete_version_exact_witness:
  "\<exists>s'. delete_version demo_device (replicate 32 5) (replicate 16 9) demo_key_sys = (Ok (), s') \<and>
    map_of (sys_fs s') (record_path demo_device (replicate 32 5) (replicate 16 9)) = None \<and>
    map_of (sys_fs s') (shard_path demo_device (replicate 32 5) (replicate 16 9) 0) = None \<and>
    ((replicate 32 (6 :: 8 word), replicate 16 (9 :: 8 word)) \<noteq> (replicate 32 5, replicate 16 9) \<longrightarrow>
       map_of (sys_fs s') (record_path demo_device (replicate 32 6) (replicate 16 9)) =
         map_of (sys_fs demo_key_sys) (record_path demo_device (replicate 32 6) (replicate 16 9)) \<and>
       map_of (sys_fs s') (shard_path demo_device (replicate 32 6) (replicate 16 9) 0) =
         map_of (sys_fs demo_key_sys) (shard_path demo_device (replicate 32 6) (replicate 16 9) 0))"
proof (rule delete_version_exact)
  let ?dir = "key_directory demo_device (replicate 32 5)"
  have len: "length ?dir = 5" by (simp add: key_directory_bucket demo_bucket)
  show "is_dir (sys_fs demo_key_sys) ?dir" by (simp add: is_dir_def demo_key_sys_def)
  show "\<forall>q. of_version demo_device (replicate 32 5) (replicate 16 9) q \<longrightarrow> \<not> is_dir (sys_fs demo_key_sys) q"
    using len by (auto simp: is_dir_def demo_key_sys_def of_version_def record_path_def demo_no_dir)
qed (simp_all add: key_hash_wf_def version_wf_def)

section \<open>Making and opening a device\<close>

text \<open>The laws of the JSON library for an identity: what it prints it reads back.\<close>

definition identity_reads :: "json_lib \<Rightarrow> device_identity \<Rightarrow> bool" where
  "identity_reads J i \<longleftrightarrow>
     js_parse J (js_pretty J (identity_fields J i)) = Some (JObj (identity_fields J i)) \<and>
     uuid_parse J (uuid_text J (id_device_id i)) = Some (id_device_id i) \<and>
     uuid_parse J (uuid_text J (id_cluster_id i)) = Some (id_cluster_id i) \<and>
     time_parse J (time_text J (id_created i)) = Some (id_created i)"

lemma identity_round_trip:
  assumes "identity_reads J i" "id_format_version i < 4294967296"
  shows "identity_from_value J (JObj (identity_fields J i)) = Some i"
  using assms by (simp add: identity_reads_def identity_from_value_def identity_fields_def field_def)

lemma create_dir_all_new:
  assumes "is_dir (sys_fs s) p" "\<forall>q. map_of (sys_fs s) (p @ [c] @ q) = None"
  shows "\<exists>fs'. create_dir_all p [c, c'] s = (Ok (), s\<lparr>sys_fs := fs'\<rparr>) \<and>
    map_of fs' = (map_of (sys_fs s))(p @ [c] \<mapsto> Dir, p @ [c, c'] \<mapsto> Dir)"
proof -
  let ?fs1 = "AList.update (p @ [c]) Dir (sys_fs s)"
  let ?fs2 = "AList.update (p @ [c, c']) Dir ?fs1"
  have none: "map_of (sys_fs s) (p @ [c]) = None" "map_of (sys_fs s) (p @ [c, c']) = None"
    using assms(2) [rule_format, of "[]"] assms(2) [rule_format, of "[c']"] by simp_all
  have "create_dir_all p [c, c'] s = (Ok (), s\<lparr>sys_fs := ?fs2\<rparr>)"
    using assms(1) none
    by (simp add: is_dir_def op_bind_def fs_update_def fs_create_dir_def path_exists_def butlast_append)
  moreover have "map_of ?fs2 = (map_of (sys_fs s))(p @ [c] \<mapsto> Dir, p @ [c, c'] \<mapsto> Dir)" by (rule ext) simp
  ultimately show ?thesis by blast
qed

lemma fs_wf_below:
  assumes "fs_wf fs" "map_of fs p = None"
  shows "map_of fs (p @ q) = None"
proof (induction q rule: rev_induct)
  case (snoc x q)
  then show ?case using fs_wf_parent [OF assms(1), of "p @ q @ [x]"]
    by (cases "map_of fs (p @ q @ [x])") (auto simp: is_dir_def butlast_append)
qed (simp add: assms(2))

definition new_identity :: "string \<Rightarrow> uuid \<Rightarrow> timestamp \<Rightarrow> uuid \<Rightarrow> device_identity" where
  "new_identity notice new_id created cluster_id = \<lparr>id_system = SYSTEM_NAME, id_notice = notice,
     id_format_version = DEVICE_FORMAT_VERSION, id_device_id = new_id, id_cluster_id = cluster_id, id_created = created\<rparr>"

lemma initialise_Ok:
  assumes wf: "fs_wf (sys_fs s)" and fresh: "sys_fresh s" and p: "is_dir (sys_fs s) base"
    and empty: "\<forall>name. map_of (sys_fs s) (base @ [name]) \<noteq> None \<longrightarrow> name = LOST_AND_FOUND"
  obtains s' t where "device_initialise J notice new_id created dev base cluster_id s =
      (Ok \<lparr>dev_root = base, dev_identity = new_identity notice new_id created cluster_id, dev_filesystem_id = dev\<rparr>, s')"
    "map_of (sys_fs s') = (map_of (sys_fs s))(base @ [OBJECTS_DIR] \<mapsto> Dir, base @ [OBJECTS_DIR, DEFAULT_BUCKET] \<mapsto> Dir,
       base @ [DEVICE_IDENTITY_FILE] \<mapsto> File (as_bytes (js_pretty J (identity_fields J (new_identity notice new_id created cluster_id)))) t)"
proof -
  let ?i = "new_identity notice new_id created cluster_id"
  let ?bs = "as_bytes (js_pretty J (identity_fields J ?i))"
  have names: "OBJECTS_DIR \<noteq> LOST_AND_FOUND" "DEVICE_IDENTITY_FILE \<noteq> LOST_AND_FOUND" "DEVICE_IDENTITY_FILE \<noteq> OBJECTS_DIR"
    by (simp_all add: OBJECTS_DIR_def LOST_AND_FOUND_def DEVICE_IDENTITY_FILE_def)
  have none: "map_of (sys_fs s) (base @ [OBJECTS_DIR]) = None" "map_of (sys_fs s) (base @ [DEVICE_IDENTITY_FILE]) = None"
    using empty names by blast+
  have found: "filter (\<lambda>name. name \<noteq> LOST_AND_FOUND) (children (sys_fs s) base) = []"
    using empty children_iff [of _ "sys_fs s" base] by (auto simp: filter_empty_conv)
  obtain fs1 where fs1: "create_dir_all base [OBJECTS_DIR, DEFAULT_BUCKET] s = (Ok (), s\<lparr>sys_fs := fs1\<rparr>)"
    "map_of fs1 = (map_of (sys_fs s))(base @ [OBJECTS_DIR] \<mapsto> Dir, base @ [OBJECTS_DIR, DEFAULT_BUCKET] \<mapsto> Dir)"
    using create_dir_all_new [OF p, of OBJECTS_DIR DEFAULT_BUCKET] fs_wf_below [OF wf none(1)] by auto
  have dot: "temporary_name pid c name \<noteq> OBJECTS_DIR" "temporary_name pid c name \<noteq> DEFAULT_BUCKET"
    "temporary_name pid c name \<noteq> DEVICE_IDENTITY_FILE" for pid c name
    by (auto simp: temporary_name_def OBJECTS_DIR_def DEFAULT_BUCKET_def DEVICE_IDENTITY_FILE_def TEMPORARY_SUFFIX_def
        dest!: arg_cong [where f = last])
  let ?temp = "base @ [temporary_name (sys_pid s) (sys_counter s) DEVICE_IDENTITY_FILE]"
  have temp: "map_of fs1 ?temp = None" using fresh_temporary [OF fresh] dot by (simp add: fs1(2))
  obtain fs2 where fs2: "write_file_atomically (base @ [DEVICE_IDENTITY_FILE]) ?bs (s\<lparr>sys_fs := fs1\<rparr>) =
      (Ok (), s\<lparr>sys_fs := fs1, sys_counter := Suc (sys_counter s), sys_fs := fs2\<rparr>)"
    "\<And>q. map_of fs2 q = (if q = base @ [DEVICE_IDENTITY_FILE] then Some (File ?bs (sys_now s)) else map_of fs1 q)"
    by (rule write_file_atomically_Ok [of "s\<lparr>sys_fs := fs1\<rparr>" "base @ [DEVICE_IDENTITY_FILE]" ?bs])
      (use p none temp dot names in \<open>auto simp: is_dir_def fs1(2)\<close>)
  have "device_initialise J notice new_id created dev base cluster_id s =
      (Ok \<lparr>dev_root = base, dev_identity = ?i, dev_filesystem_id = dev\<rparr>,
       s\<lparr>sys_fs := fs1, sys_counter := Suc (sys_counter s), sys_fs := fs2\<rparr>)"
    using p found fs1(1) fs2(1)
    by (simp add: device_initialise_def is_dir_def op_bind_def op_return_def new_identity_def)
  moreover have "map_of fs2 = (map_of (sys_fs s))(base @ [OBJECTS_DIR] \<mapsto> Dir, base @ [OBJECTS_DIR, DEFAULT_BUCKET] \<mapsto> Dir,
       base @ [DEVICE_IDENTITY_FILE] \<mapsto> File ?bs (sys_now s))"
    by (rule ext) (simp add: fs2(2) fs1(2))
  ultimately show ?thesis using that by simp
qed

text \<open>C26: An empty directory is made a device, and opening it for its cluster gives that very device;
  opening it for another cluster is refused.\<close>

theorem initialise_then_open:
  assumes wf: "fs_wf (sys_fs s)" and fresh: "sys_fresh s" and p: "is_dir (sys_fs s) base"
    and empty: "\<forall>name. map_of (sys_fs s) (base @ [name]) \<noteq> None \<longrightarrow> name = LOST_AND_FOUND"
    and json: "identity_reads J (new_identity notice new_id created cluster_id)"
  shows "\<exists>device s'. device_initialise J notice new_id created dev base cluster_id s = (Ok device, s') \<and>
    device_open J dev base (Some cluster_id) s' = (Ok device, s') \<and> dev_root device = base \<and>
    is_dir (sys_fs s') (bucket_path device) \<and>
    (other \<noteq> cluster_id \<longleftrightarrow> device_open J dev base (Some other) s' = (Err (DevWrongCluster new_id other cluster_id), s'))"
proof -
  let ?i = "new_identity notice new_id created cluster_id"
  let ?d = "\<lparr>dev_root = base, dev_identity = ?i, dev_filesystem_id = dev\<rparr>"
  obtain s' t where s': "device_initialise J notice new_id created dev base cluster_id s = (Ok ?d, s')"
    "map_of (sys_fs s') = (map_of (sys_fs s))(base @ [OBJECTS_DIR] \<mapsto> Dir, base @ [OBJECTS_DIR, DEFAULT_BUCKET] \<mapsto> Dir,
       base @ [DEVICE_IDENTITY_FILE] \<mapsto> File (as_bytes (js_pretty J (identity_fields J ?i))) t)"
    by (rule initialise_Ok [OF wf fresh p empty])
  have "identity_from_value J (JObj (identity_fields J ?i)) = Some ?i"
    by (rule identity_round_trip [OF json]) (simp add: new_identity_def DEVICE_FORMAT_VERSION_def)
  then have "device_open J dev base (Some c) s' =
      (if cluster_id = c then Ok ?d else Err (DevWrongCluster new_id c cluster_id), s')" for c
    using p json
    by (simp add: device_open_def fs_query_def s'(2) is_dir_def fs_read_def identity_reads_def)
      (simp add: new_identity_def)
  moreover have "is_dir (sys_fs s') (bucket_path ?d)"
    by (simp add: is_dir_def s'(2) bucket_path_def)
  ultimately show ?thesis using s'(1) by (intro exI [of _ ?d] exI [of _ s']) auto
qed

definition demo_empty_sys :: sys where
  "demo_empty_sys = \<lparr>sys_fs = [([], Dir)], sys_pid = 1, sys_counter = 0, sys_now = 100\<rparr>"

theorem initialise_then_open_witness:
  "\<exists>J device s'. device_initialise J ''n'' 10 0 1 [] 9 demo_empty_sys = (Ok device, s') \<and>
    device_open J 1 [] (Some 9) s' = (Ok device, s') \<and> dev_root device = [] \<and> is_dir (sys_fs s') (bucket_path device) \<and>
    ((8 :: uuid) \<noteq> 9 \<longleftrightarrow> device_open J 1 [] (Some 8) s' = (Err (DevWrongCluster 10 8 9), s'))"
proof -
  let ?fs = "identity_fields (demo_json []) (new_identity ''n'' 10 0 9)"
  let ?J = "demo_json [?fs]"
  have f: "identity_fields ?J (new_identity ''n'' 10 0 9) = ?fs" by (simp add: identity_fields_def demo_json_def)
  have "js_parse ?J (js_pretty ?J ?fs) = Some (JObj ?fs)" by (simp add: demo_json_def)
  then have "identity_reads ?J (new_identity ''n'' 10 0 9)"
    unfolding identity_reads_def f by (simp add: demo_json_uuid demo_json_time new_identity_def)
  moreover have "fs_wf (sys_fs demo_empty_sys)" "sys_fresh demo_empty_sys" "is_dir (sys_fs demo_empty_sys) []"
    by (auto simp: demo_empty_sys_def fs_wf_def sys_fresh_def is_dir_def)
  ultimately show ?thesis
    by (intro exI [of _ ?J] initialise_then_open) (simp_all add: demo_empty_sys_def)
qed

section \<open>A disk that is not there\<close>

text \<open>C27: When the tree of a device has gone, every write and every reading of the whole device says
  that the device is unavailable, and nothing is created in its place.\<close>

theorem missing_device_unavailable:
  assumes wf: "fs_wf (sys_fs s)" and gone: "map_of (sys_fs s) (bucket_path d) = None"
    and r: "record_validate L r = Ok ()"
    and n: "shard_file_length (sfh_scheme header) (sfh_block_length header) osize = Ok (Some n)"
  shows "write_record L J d r s = (Err DevUnavailable, s) \<and>
    begin_shard L room d h header osize s = (Err DevUnavailable, s) \<and>
    read_records L J (sys_fs s) d h = Err DevUnavailable \<and>
    key_directories (sys_fs s) d = Err DevUnavailable \<and>
    walk_records_from L J (sys_fs s) d after f st = Err DevUnavailable"
proof -
  have below: "map_of (sys_fs s) (bucket_path d @ q) = None" for q by (rule fs_wf_below [OF wf gone])
  have make: "create_key_directory d h' s = (Err DevUnavailable, s)" for h'
    using below [of "[_]"] gone
    by (simp add: create_key_directory_def directory_components_def Let_def fs_create_dir_def path_exists_def)
  have bucket: "bucket_directory (sys_fs s) d = Err DevUnavailable"
    using gone by (simp add: bucket_directory_def path_exists_def)
  have "map_of (sys_fs s) (key_directory d h) = None" unfolding key_directory_bucket by (rule below)
  then show ?thesis using r n make bucket
    by (simp add: write_record_def Let_def op_bind_def [of "create_key_directory _ _"] begin_shard_def
        read_records_def fs_read_dir_def key_directories_def read_bucket_def walk_records_from_def walk_level_def)
qed

theorem missing_device_unavailable_witness:
  "write_record demo_libs (demo_json []) demo_device demo_record demo_empty_sys = (Err DevUnavailable, demo_empty_sys) \<and>
   begin_shard demo_libs True demo_device (replicate 32 5) demo_header 6 demo_empty_sys = (Err DevUnavailable, demo_empty_sys) \<and>
   read_records demo_libs (demo_json []) (sys_fs demo_empty_sys) demo_device (replicate 32 5) = Err DevUnavailable \<and>
   key_directories (sys_fs demo_empty_sys) demo_device = Err DevUnavailable \<and>
   walk_records_from demo_libs (demo_json []) (sys_fs demo_empty_sys) demo_device None (\<lambda>e (n :: nat). (Continue, Suc n)) 0
     = Err DevUnavailable"
  by (rule missing_device_unavailable [where n = 4171])
    (use demo_geometry in \<open>simp_all add: demo_empty_sys_def fs_wf_def demo_bucket record_validate_iff demo_record_valid demo_header_def\<close>)

end
