(* ===== verification/Scrub.thy ===== *)
theory Scrub
  imports DeviceLife
begin

text \<open>
  The scrub of one device (\<open>djbod-core/src/scrub.rs\<close>): every file under every
  key directory is read and checked.  The file system does not change during
  the scrub, the pacing of the reads has no effect here, and the texts of the
  findings are left out: a misplaced shard carries the list of what disagrees.
\<close>

datatype mismatch =
    MisVersion
  | MisShardIndex
  | MisKeyHash
  | MisScheme
  | MisBlockLength
  | MisObjectSize
  | MisObjectChecksum
  | MisBlockCount

datatype finding =
    RecordCorrupt path
  | ShardUnreadable path "string option" version_id nat
  | ShardMisplaced path "string option" "mismatch list"
  | ShardBlocksCorrupt path "string option" version_id nat "nat list"
  | ShardWithoutRecord path version_id nat
  | RecordWithoutShard path string version_id nat
  | RecordNotForThisDevice path string version_id
  | StaleTemporary path nat
  | DeviceUnavailable

fun repair_key :: "finding \<Rightarrow> string option" where
  "repair_key (ShardUnreadable _ key _ _) = key"
| "repair_key (ShardMisplaced _ key _) = key"
| "repair_key (ShardBlocksCorrupt _ key _ _ _) = key"
| "repair_key (RecordWithoutShard _ key _ _) = Some key"
| "repair_key _ = None"

record scrub_summary =
  ss_device :: "device_id option"
  ss_records_checked :: nat
  ss_shards_checked :: nat
  ss_blocks_checked :: nat
  ss_bytes_read :: nat
  ss_findings :: "finding list"

definition report :: "finding \<Rightarrow> scrub_summary \<Rightarrow> scrub_summary" where
  "report f su = su\<lparr>ss_findings := ss_findings su @ [f]\<rparr>"

definition check_record ::
  "libs \<Rightarrow> json_lib \<Rightarrow> fs \<Rightarrow> path \<Rightarrow> key_hash option \<Rightarrow> scrub_summary
   \<Rightarrow> (device_error, metadata_record option \<times> scrub_summary) res" where
  "check_record L J fs p expected_hash su =
     (case fs_read fs p of
        Err IoNotFound \<Rightarrow> Ok (None, su)
      | Err k \<Rightarrow> Ok (None, report (RecordCorrupt p) su)
      | Panic \<Rightarrow> Panic
      | Ok bs \<Rightarrow>
          let su = su\<lparr>ss_bytes_read := ss_bytes_read su + length bs\<rparr> in
          (case from_json L J (text_of bs) of
             Err e \<Rightarrow> Ok (None, report (RecordCorrupt p) su)
           | Panic \<Rightarrow> Panic
           | Ok record \<Rightarrow>
               if expected_hash \<noteq> None \<and> Some (rec_key_hash record) \<noteq> expected_hash
               then Ok (None, report (RecordCorrupt p) su)
               else Ok (Some record, su)))"

definition shard_mismatches ::
  "version_id \<Rightarrow> shard_index \<Rightarrow> key_hash option \<Rightarrow> metadata_record option \<Rightarrow> shard_file_reader
   \<Rightarrow> (shard_file_error, mismatch list) res" where
  "shard_mismatches version index expected_hash record reader =
     (let header = sr_header reader; footer = sr_footer reader;
          own = (if sfh_version_id header \<noteq> version then [MisVersion] else []) @
                (if sfh_shard_index header \<noteq> index then [MisShardIndex] else []) @
                (case expected_hash of
                   Some expected \<Rightarrow> if sfh_key_hash header \<noteq> expected then [MisKeyHash] else []
                 | None \<Rightarrow> [])
      in case record of
        None \<Rightarrow> Ok own
      | Some r \<Rightarrow>
          bind_res (shard_geometry (sfh_scheme header) (sfh_block_length header) (rec_size r)) (\<lambda>geometry.
          Ok (own @
            (if data_shards (sfh_scheme header) \<noteq> rec_k r \<or> parity_shards (sfh_scheme header) \<noteq> rec_m r
             then [MisScheme] else []) @
            (if sfh_block_length header \<noteq> rec_block_size r then [MisBlockLength] else []) @
            (if sff_object_size footer \<noteq> rec_size r then [MisObjectSize] else []) @
            (if sff_object_checksum footer \<noteq> rec_object_checksum r then [MisObjectChecksum] else []) @
            (case geometry of
               Some g \<Rightarrow> if geo_block_count g \<noteq> sff_block_count footer then [MisBlockCount] else []
             | None \<Rightarrow> []))))"

text \<open>
  The blocks from \<open>index\<close> on, with those that failed so far: the numbers of the
  bad ones, or \<open>None\<close> when a block could not be read.
\<close>

fun scrub_blocks ::
  "libs \<Rightarrow> shard_file_reader \<Rightarrow> nat list \<Rightarrow> nat list \<Rightarrow> scrub_summary
   \<Rightarrow> (device_error, nat list option \<times> scrub_summary) res" where
  "scrub_blocks L reader [] bad su = Ok (Some bad, su)"
| "scrub_blocks L reader (block_number # rest) bad su =
     (case read_block reader block_number of
        Ok block \<Rightarrow>
          scrub_blocks L reader rest
            (if block_matches_checksum L (sb_bytes block) (sb_checksum block) then bad else bad @ [block_number])
            (su\<lparr>ss_blocks_checked := ss_blocks_checked su + 1,
                ss_bytes_read := ss_bytes_read su + length (sb_bytes block)\<rparr>)
      | Err _ \<Rightarrow> Ok (None, su)
      | Panic \<Rightarrow> Panic)"

definition check_shard ::
  "libs \<Rightarrow> fs \<Rightarrow> path \<Rightarrow> version_id \<Rightarrow> shard_index \<Rightarrow> key_hash option \<Rightarrow> metadata_record option
   \<Rightarrow> scrub_summary \<Rightarrow> (device_error, scrub_summary) res" where
  "check_shard L fs p version index expected_hash record su =
     (let key = map_option rec_key record in
      case fs_read fs p of
        Err IoNotFound \<Rightarrow> Ok su
      | Err k \<Rightarrow> Ok (report (ShardUnreadable p key version index) su)
      | Panic \<Rightarrow> Panic
      | Ok bs \<Rightarrow>
          (case reader_open L bs of
             Err e \<Rightarrow> Ok (report (ShardUnreadable p key version index) su)
           | Panic \<Rightarrow> Panic
           | Ok reader \<Rightarrow>
               let su = su\<lparr>ss_bytes_read := ss_bytes_read su + 4096 + encoded_length (sr_footer reader)\<rparr> in
               bind_res (map_err DevShardFile (shard_mismatches version index expected_hash record reader)) (\<lambda>mismatches.
               let su = (if mismatches \<noteq> [] then report (ShardMisplaced p key mismatches) su else su) in
               bind_res (scrub_blocks L reader [0..<sff_block_count (sr_footer reader)] [] su) (\<lambda>(bad_stripes, su).
               Ok (case bad_stripes of
                     None \<Rightarrow> report (ShardUnreadable p key version index) su
                   | Some bad \<Rightarrow>
                       if bad \<noteq> [] then report (ShardBlocksCorrupt p key version index bad) su else su)))))"

type_synonym record_entry = "version_id \<times> path \<times> metadata_record option"
type_synonym shard_entry = "version_id \<times> shard_index \<times> path"

text \<open>One entry of a key directory: a temporary, a record, a shard, or nothing of ours.\<close>

definition scrub_entry ::
  "libs \<Rightarrow> json_lib \<Rightarrow> fs \<Rightarrow> nat \<Rightarrow> nat \<Rightarrow> key_hash option \<Rightarrow> path
   \<Rightarrow> record_entry list \<times> shard_entry list \<times> scrub_summary
   \<Rightarrow> (device_error, record_entry list \<times> shard_entry list \<times> scrub_summary) res" where
  "scrub_entry L J fs now temporary_max_age expected_hash entry = (\<lambda>(records, shards, su).
     let name = last entry in
     if ends_with TEMPORARY_SUFFIX name
     then Ok (records, shards,
       case map_of fs entry of
         Some (File _ modified) \<Rightarrow>
           if now - modified > temporary_max_age then report (StaleTemporary entry (now - modified)) su else su
       | _ \<Rightarrow> su)
     else case parse_record_file_name name of
       Some version \<Rightarrow>
         bind_res (check_record L J fs entry expected_hash
           (su\<lparr>ss_records_checked := ss_records_checked su + 1\<rparr>)) (\<lambda>(record, su).
         Ok (records @ [(version, entry, record)], shards, su))
     | None \<Rightarrow>
         (case parse_shard_file_name name of
            Some (version, index) \<Rightarrow> Ok (records, shards @ [(version, index, entry)], su)
          | None \<Rightarrow> Ok (records, shards, su)))"

definition scrub_record_shard ::
  "device \<Rightarrow> shard_entry list \<Rightarrow> record_entry \<Rightarrow> scrub_summary \<Rightarrow> scrub_summary" where
  "scrub_record_shard d shards = (\<lambda>(version, record_path, record) su.
     case record of
       None \<Rightarrow> su
     | Some r \<Rightarrow>
         (case shard_on r (dev_id d) of
            None \<Rightarrow> report (RecordNotForThisDevice record_path (rec_key r) version) su
          | Some index \<Rightarrow>
              if \<not> list_ex (\<lambda>(v, i, _). v = version \<and> i = index) shards \<and> rec_size r > 0
              then report (RecordWithoutShard record_path (rec_key r) version index) su
              else su))"

definition scrub_shard ::
  "libs \<Rightarrow> fs \<Rightarrow> key_hash option \<Rightarrow> record_entry list \<Rightarrow> shard_entry \<Rightarrow> scrub_summary
   \<Rightarrow> (device_error, scrub_summary) res" where
  "scrub_shard L fs expected_hash records = (\<lambda>(version, index, shard_path) su.
     let record = Option.bind (find (\<lambda>(v, _, _). v = version) records) (\<lambda>(_, _, r). r);
         su = (if record = None \<and> \<not> list_ex (\<lambda>(v, _, _). v = version) records
               then report (ShardWithoutRecord shard_path version index) su else su)
     in check_shard L fs shard_path version index expected_hash record
          (su\<lparr>ss_shards_checked := ss_shards_checked su + 1\<rparr>))"

definition scrub_key_dir ::
  "libs \<Rightarrow> json_lib \<Rightarrow> fs \<Rightarrow> nat \<Rightarrow> nat \<Rightarrow> device \<Rightarrow> path \<Rightarrow> scrub_summary \<Rightarrow> (device_error, scrub_summary) res" where
  "scrub_key_dir L J fs now temporary_max_age d key_dir su =
     (case keyhash_from_hex (last key_dir) of
        Panic \<Rightarrow> Panic
      | hash \<Rightarrow>
          let expected_hash = ok_option hash in
          bind_res (read_dir_sorted fs key_dir) (\<lambda>entries.
          bind_res (fold_res (scrub_entry L J fs now temporary_max_age expected_hash) entries ([], [], su))
            (\<lambda>(records, shards, su).
          fold_res (scrub_shard L fs expected_hash records) shards
            (fold (scrub_record_shard d shards) records su))))"

definition scrub_device ::
  "libs \<Rightarrow> json_lib \<Rightarrow> fs \<Rightarrow> nat \<Rightarrow> nat \<Rightarrow> device \<Rightarrow> (device_error, scrub_summary) res" where
  "scrub_device L J fs now temporary_max_age d =
     (let su = \<lparr>ss_device = Some (dev_id d), ss_records_checked = 0, ss_shards_checked = 0,
               ss_blocks_checked = 0, ss_bytes_read = 0, ss_findings = []\<rparr>
      in if \<not> path_exists fs (dev_root d @ [DEVICE_IDENTITY_FILE]) then Ok (report DeviceUnavailable su)
         else case key_directories fs d of
           Err DevUnavailable \<Rightarrow> Ok (report DeviceUnavailable su)
         | Err e \<Rightarrow> Err e
         | Panic \<Rightarrow> Panic
         | Ok dirs \<Rightarrow> fold_res (scrub_key_dir L J fs now temporary_max_age d) dirs su)"

section \<open>Findings only accumulate\<close>

abbreviation quiet :: "scrub_summary \<Rightarrow> bool" where
  "quiet su \<equiv> ss_findings su = []"

lemma quiet_report [simp]: "\<not> quiet (report f su)"
  by (simp add: report_def)

lemma check_record_quiet:
  assumes "check_record L J fs p expected su = Ok (r, su')" "quiet su'"
  shows "quiet su \<and> (map_of fs p \<noteq> None \<longrightarrow> (\<exists>bs t record. map_of fs p = Some (File bs t) \<and>
    from_json L J (text_of bs) = Ok record \<and> (expected = None \<or> expected = Some (rec_key_hash record)) \<and> r = Some record))"
  using assms
  by (auto simp: check_record_def fs_read_def Let_def report_def
      split: res.splits io_kind.splits option.splits inode.splits if_splits)

lemma scrub_blocks_quiet:
  assumes "scrub_blocks L reader ns bad su = Ok (out, su')"
  shows "ss_findings su' = ss_findings su \<and> (\<forall>b. out = Some b \<longrightarrow>
    (\<exists>more. b = bad @ more) \<and> (b = [] \<longrightarrow> (\<forall>n\<in>set ns. \<exists>block. read_block reader n = Ok block \<and>
       checksum_block L (sb_bytes block) = sb_checksum block)))"
  using assms
proof (induction ns arbitrary: bad su)
  case (Cons n ns)
  show ?case
  proof (cases "read_block reader n")
    case (Ok block)
    from Cons.IH [OF Cons.prems [simplified Ok scrub_blocks.simps res.case]] Ok show ?thesis
      by (auto simp: block_matches_checksum_def split: if_splits)
  qed (use Cons.prems in auto)
qed auto

text \<open>What a quiet check of a shard file says about it.\<close>

definition shard_intact ::
  "libs \<Rightarrow> fs \<Rightarrow> path \<Rightarrow> version_id \<Rightarrow> shard_index \<Rightarrow> key_hash option \<Rightarrow> metadata_record option \<Rightarrow> bool" where
  "shard_intact L fs p version index expected record \<longleftrightarrow> (\<exists>bs t reader.
     map_of fs p = Some (File bs t) \<and> reader_open L bs = Ok reader \<and>
     shard_mismatches version index expected record reader = Ok [] \<and>
     (\<forall>n < sff_block_count (sr_footer reader). \<exists>block. read_block reader n = Ok block \<and>
        checksum_block L (sb_bytes block) = sb_checksum block))"

lemma check_shard_quiet:
  assumes run: "check_shard L fs p version index expected record su = Ok su'" and q: "quiet su'"
  shows "quiet su \<and> (map_of fs p \<noteq> None \<longrightarrow> shard_intact L fs p version index expected record)"
proof (cases "map_of fs p")
  case None
  then show ?thesis using run q by (simp add: check_shard_def fs_read_def)
next
  case (Some i)
  show ?thesis
  proof (cases i)
    case Dir
    then show ?thesis using run q Some by (auto simp: check_shard_def fs_read_def)
  next
    case (File bs t)
    then obtain reader where reader: "reader_open L bs = Ok reader"
      using run q Some by (cases "reader_open L bs") (auto simp: check_shard_def fs_read_def)
    obtain mis where mis: "shard_mismatches version index expected record reader = Ok mis"
      using run Some File reader
      by (cases "shard_mismatches version index expected record reader") (auto simp: check_shard_def fs_read_def Let_def)
    let ?su1 = "su\<lparr>ss_bytes_read := ss_bytes_read su + 4096 + encoded_length (sr_footer reader)\<rparr>"
    let ?su2 = "if mis \<noteq> [] then report (ShardMisplaced p (map_option rec_key record) mis) ?su1 else ?su1"
    obtain bad su3 where bad: "scrub_blocks L reader [0..<sff_block_count (sr_footer reader)] [] ?su2 = Ok (bad, su3)"
      using run Some File reader mis
      by (cases "scrub_blocks L reader [0..<sff_block_count (sr_footer reader)] [] ?su2")
        (auto simp: check_shard_def fs_read_def Let_def)
    have out: "su' = (case bad of
         None \<Rightarrow> report (ShardUnreadable p (map_option rec_key record) version index) su3
       | Some b \<Rightarrow> if b \<noteq> [] then report (ShardBlocksCorrupt p (map_option rec_key record) version index b) su3 else su3)"
      using run Some File reader mis bad by (simp add: check_shard_def fs_read_def Let_def)
    then have b: "bad = Some []" "quiet su3" using q by (auto split: option.splits if_splits)
    note blocks = scrub_blocks_quiet [OF bad]
    have "quiet ?su2" using blocks b by simp
    then have "mis = []" "quiet su" by (auto split: if_splits)
    then show ?thesis using Some File reader mis blocks b by (auto simp: shard_intact_def)
  qed
qed

section \<open>What a scrub without findings means\<close>

lemma last_of_suffix: "strip_suffix suf name = Some stem \<Longrightarrow> suf \<noteq> [] \<Longrightarrow> last name = last suf"
  by (auto simp: strip_suffix_Some)

lemma shard_name_kind:
  assumes "parse_shard_file_name name = Some x"
  shows "parse_record_file_name name = None" "\<not> ends_with TEMPORARY_SUFFIX name"
proof -
  obtain stem where "strip_suffix SHARD_SUFFIX name = Some stem"
    using assms by (auto simp: parse_shard_file_name_def split: option.splits)
  then have l: "last name = CHR ''d''" by (auto simp: SHARD_SUFFIX_def dest: last_of_suffix)
  show "parse_record_file_name name = None"
    using l last_of_suffix [of RECORD_SUFFIX name]
    by (auto simp: parse_record_file_name_def RECORD_SUFFIX_def split: option.splits)
  show "\<not> ends_with TEMPORARY_SUFFIX name"
    using l by (auto simp: ends_with_def TEMPORARY_SUFFIX_def strip_suffix_Some)
qed

lemma record_name_kind:
  assumes "parse_record_file_name name = Some v"
  shows "\<not> ends_with TEMPORARY_SUFFIX name"
proof -
  obtain stem where "strip_suffix RECORD_SUFFIX name = Some stem"
    using assms by (auto simp: parse_record_file_name_def split: option.splits)
  then have "last name = CHR ''n''" by (auto simp: RECORD_SUFFIX_def dest: last_of_suffix)
  then show ?thesis by (auto simp: ends_with_def TEMPORARY_SUFFIX_def strip_suffix_Some)
qed

text \<open>A record entry the scrub has gathered without complaint.\<close>

definition gathered ::
  "libs \<Rightarrow> json_lib \<Rightarrow> fs \<Rightarrow> key_hash option \<Rightarrow> path set \<Rightarrow> record_entry \<Rightarrow> bool" where
  "gathered L J fs expected entries = (\<lambda>(v, entry, r). entry \<in> entries \<and>
     parse_record_file_name (last entry) = Some v \<and>
     (\<exists>bs t record. map_of fs entry = Some (File bs t) \<and> from_json L J (text_of bs) = Ok record \<and>
        (expected = None \<or> expected = Some (rec_key_hash record)) \<and> r = Some record))"

lemma scrub_entry_step:
  assumes run: "scrub_entry L J fs now age expected entry (recs, shs, su) = Ok (recs', shs', su')" and q: "quiet su'"
    and e: "map_of fs entry \<noteq> None"
  shows "quiet su \<and> (\<exists>more. recs' = recs @ more \<and> (\<forall>x\<in>set more. gathered L J fs expected {entry} x) \<and>
      (\<forall>v. parse_record_file_name (last entry) = Some v \<longrightarrow> (\<exists>r. (v, entry, r) \<in> set more))) \<and>
    shs' = shs @ (case parse_shard_file_name (last entry) of Some (v, i) \<Rightarrow> [(v, i, entry)] | None \<Rightarrow> [])"
proof -
  consider (temp) "ends_with TEMPORARY_SUFFIX (last entry)"
    | (rec) v where "\<not> ends_with TEMPORARY_SUFFIX (last entry)" "parse_record_file_name (last entry) = Some v"
    | (other) "\<not> ends_with TEMPORARY_SUFFIX (last entry)" "parse_record_file_name (last entry) = None" by fastforce
  then show ?thesis
  proof cases
    case temp
    have "parse_record_file_name (last entry) = None"
      using record_name_kind [of "last entry"] temp by (cases "parse_record_file_name (last entry)") auto
    moreover have "parse_shard_file_name (last entry) = None"
      using shard_name_kind(2) [of "last entry"] temp by (cases "parse_shard_file_name (last entry)") auto
    ultimately show ?thesis using temp run q
      by (auto simp: scrub_entry_def split: option.splits inode.splits if_splits)
  next
    case rec
    then obtain r su1 where c: "check_record L J fs entry expected (su\<lparr>ss_records_checked := ss_records_checked su + 1\<rparr>) = Ok (r, su1)"
      and eq: "recs' = recs @ [(v, entry, r)]" "shs' = shs" "su' = su1"
      using run by (auto simp: scrub_entry_def res_simps)
    have "quiet su1" using q eq by simp
    from check_record_quiet [OF c this] show ?thesis
      using rec e eq shard_name_kind(1) [of "last entry"] by (auto simp: gathered_def split: option.splits)
  next
    case other
    then show ?thesis using run q by (auto simp: scrub_entry_def split: option.splits)
  qed
qed

lemma gathered_mono: "gathered L J fs expected A x \<Longrightarrow> A \<subseteq> B \<Longrightarrow> gathered L J fs expected B x"
  by (auto simp: gathered_def)

abbreviation shards_of :: "path list \<Rightarrow> shard_entry list" where
  "shards_of entries \<equiv> concat (map (\<lambda>e. case parse_shard_file_name (last e) of Some (v, i) \<Rightarrow> [(v, i, e)] | None \<Rightarrow> []) entries)"

lemma scrub_entries:
  assumes "fold_res (scrub_entry L J fs now age expected) entries (recs, shs, su) = Ok (recs', shs', su')" "quiet su'"
    "\<forall>e\<in>set entries. map_of fs e \<noteq> None"
  shows "quiet su \<and> (\<exists>more. recs' = recs @ more \<and> (\<forall>x\<in>set more. gathered L J fs expected (set entries) x) \<and>
      (\<forall>e\<in>set entries. \<forall>v. parse_record_file_name (last e) = Some v \<longrightarrow> (\<exists>r. (v, e, r) \<in> set more))) \<and>
    shs' = shs @ shards_of entries"
  using assms
proof (induction entries arbitrary: recs shs su)
  case (Cons e entries)
  then obtain recs1 shs1 su1 where one: "scrub_entry L J fs now age expected e (recs, shs, su) = Ok (recs1, shs1, su1)"
    "fold_res (scrub_entry L J fs now age expected) entries (recs1, shs1, su1) = Ok (recs', shs', su')"
    by (auto simp: res_simps)
  have ex: "\<forall>e\<in>set entries. map_of fs e \<noteq> None" and e: "map_of fs e \<noteq> None" using Cons.prems by auto
  note IH = Cons.IH [OF one(2) Cons.prems(2) ex]
  note S = scrub_entry_step [OF one(1) conjunct1 [OF IH] e]
  obtain m1 where m1: "recs1 = recs @ m1" "\<forall>x\<in>set m1. gathered L J fs expected {e} x"
    "\<forall>v. parse_record_file_name (last e) = Some v \<longrightarrow> (\<exists>r. (v, e, r) \<in> set m1)" using S by blast
  obtain m2 where m2: "recs' = recs1 @ m2" "\<forall>x\<in>set m2. gathered L J fs expected (set entries) x"
    "\<forall>e\<in>set entries. \<forall>v. parse_record_file_name (last e) = Some v \<longrightarrow> (\<exists>r. (v, e, r) \<in> set m2)"
    using IH by blast
  have "\<forall>x\<in>set (m1 @ m2). gathered L J fs expected (set (e # entries)) x"
    using m1(2) m2(2) by (auto intro: gathered_mono)
  moreover have "\<forall>e\<in>set (e # entries). \<forall>v. parse_record_file_name (last e) = Some v \<longrightarrow> (\<exists>r. (v, e, r) \<in> set (m1 @ m2))"
    using m1(3) m2(3) unfolding set_append set_simps by blast
  ultimately have "\<exists>more. recs' = recs @ more \<and> (\<forall>x\<in>set more. gathered L J fs expected (set (e # entries)) x) \<and>
      (\<forall>e\<in>set (e # entries). \<forall>v. parse_record_file_name (last e) = Some v \<longrightarrow> (\<exists>r. (v, e, r) \<in> set more))"
    using m1(1) m2(1) by (intro exI [of _ "m1 @ m2"]) simp
  then show ?case using S IH by simp
qed simp

lemma scrub_record_shards_quiet:
  assumes "quiet (fold (scrub_record_shard d shards) records su)"
  shows "quiet su \<and> (\<forall>(v, p, r)\<in>set records. \<forall>record. r = Some record \<longrightarrow> (\<exists>i. shard_on record (dev_id d) = Some i \<and>
    (0 < rec_size record \<longrightarrow> (\<exists>q. (v, i, q) \<in> set shards))))"
  using assms
proof (induction records arbitrary: su)
  case (Cons x records)
  obtain v p r where x: "x = (v, p, r)" by (cases x)
  have q: "quiet (scrub_record_shard d shards x su)" using Cons by auto
  then show ?case using Cons.IH [of "scrub_record_shard d shards x su"] Cons.prems
    by (auto simp: x scrub_record_shard_def list_ex_iff split: option.splits if_splits)
qed simp

lemma scrub_shard_keeps_quiet:
  assumes "scrub_shard L fs expected records x su = Ok su'" "quiet su'"
  shows "quiet su"
proof -
  obtain v i p where x: "x = (v, i, p)" by (cases x)
  from assms obtain r su1 where "check_shard L fs p v i expected r su1 = Ok su'" "quiet su1 \<longrightarrow> quiet su"
    by (auto simp: x scrub_shard_def Let_def split: if_splits)
  then show ?thesis using check_shard_quiet assms(2) by blast
qed

lemma scrub_shard_quiet:
  assumes "scrub_shard L fs expected records (v, i, p) su = Ok su'" "quiet su'" "map_of fs p \<noteq> None"
    and all: "\<forall>(v, q, r)\<in>set records. r \<noteq> None"
  shows "quiet su \<and> (\<exists>q r. (v, q, Some r) \<in> set records \<and> shard_intact L fs p v i expected (Some r))"
proof -
  let ?found = "Option.bind (find (\<lambda>(v', _, _). v' = v) records) (\<lambda>(_, _, r). r)"
  define su1 where "su1 = (if ?found = None \<and> \<not> list_ex (\<lambda>(v', _, _). v' = v) records
    then report (ShardWithoutRecord p v i) su else su)"
  have "check_shard L fs p v i expected ?found (su1\<lparr>ss_shards_checked := ss_shards_checked su1 + 1\<rparr>) = Ok su'"
    using assms(1) by (simp add: scrub_shard_def su1_def Let_def)
  from check_shard_quiet [OF this assms(2)] assms(3)
  have s: "quiet su1" "shard_intact L fs p v i expected ?found" by auto
  have known: "list_ex (\<lambda>(v', _, _). v' = v) records"
  proof (rule ccontr)
    assume no: "\<not> list_ex (\<lambda>(v', _, _). v' = v) records"
    then have "find (\<lambda>(v', _, _). v' = v) records = None" by (auto simp: find_None_iff list_ex_iff)
    then show False using s(1) no by (simp add: su1_def)
  qed
  then obtain q r where f: "find (\<lambda>(v', _, _). v' = v) records = Some (v, q, r)" "(v, q, r) \<in> set records"
    by (cases "find (\<lambda>(v', _, _). v' = v) records")
      (auto simp: find_None_iff find_Some_iff list_ex_iff dest: nth_mem)
  then obtain rc where "r = Some rc" using all by fastforce
  then show ?thesis using f s known by (auto simp: su1_def)
qed

lemma read_dir_sorted_set:
  assumes "read_dir_sorted fs dir = Ok entries" "is_dir fs dir"
  shows "set entries = (\<lambda>name. dir @ [name]) ` set (children fs dir)"
  using assms
  by (auto simp: read_dir_sorted_def fs_read_dir_def is_dir_def split: option.splits inode.splits res.splits io_kind.splits)

lemma flat_map_res_all:
  assumes "flat_map_res f xs = Ok ys" "\<And>x zs. x \<in> set xs \<Longrightarrow> f x = Ok zs \<Longrightarrow> \<forall>z\<in>set zs. P z"
  shows "\<forall>y\<in>set ys. P y"
  using assms
proof (induction xs arbitrary: ys)
  case (Cons x xs)
  then obtain zs ws where "f x = Ok zs" "flat_map_res f xs = Ok ws" "ys = zs @ ws" by (auto simp: res_simps)
  then show ?case using Cons.IH [of ws] Cons.prems(2) by auto
qed simp

lemma key_directories_are_dirs:
  assumes "key_directories fs d = Ok dirs"
  shows "\<forall>dir\<in>set dirs. is_dir fs dir"
proof -
  obtain firsts where "flat_map_res (\<lambda>first. bind_res (read_dir_sorted fs first) (\<lambda>seconds.
      flat_map_res (\<lambda>second. bind_res (read_dir_sorted fs second) (\<lambda>keys. Ok (filter (is_dir fs) keys))) seconds)) firsts = Ok dirs"
    using assms by (auto simp: key_directories_def bind_res_eq_Ok)
  then show ?thesis
  proof (rule flat_map_res_all)
    fix x zs assume "bind_res (read_dir_sorted fs x) (\<lambda>seconds.
      flat_map_res (\<lambda>second. bind_res (read_dir_sorted fs second) (\<lambda>keys. Ok (filter (is_dir fs) keys))) seconds) = Ok zs"
    then obtain seconds where
      "flat_map_res (\<lambda>second. bind_res (read_dir_sorted fs second) (\<lambda>keys. Ok (filter (is_dir fs) keys))) seconds = Ok zs"
      by (auto simp: bind_res_eq_Ok)
    then show "\<forall>z\<in>set zs. is_dir fs z" by (rule flat_map_res_all) (auto simp: bind_res_eq_Ok)
  qed
qed

text \<open>What a quiet scrub of one key directory says about its files.\<close>

definition record_stands :: "libs \<Rightarrow> json_lib \<Rightarrow> fs \<Rightarrow> path \<Rightarrow> string \<Rightarrow> metadata_record \<Rightarrow> bool" where
  "record_stands L J fs dir name record \<longleftrightarrow> (\<exists>bs t. map_of fs (dir @ [name]) = Some (File bs t) \<and>
     from_json L J (text_of bs) = Ok record \<and> (\<forall>h. keyhash_from_hex (last dir) = Ok h \<longrightarrow> rec_key_hash record = h))"

definition key_dir_sound :: "libs \<Rightarrow> json_lib \<Rightarrow> fs \<Rightarrow> device \<Rightarrow> path \<Rightarrow> bool" where
  "key_dir_sound L J fs d dir \<longleftrightarrow> (\<forall>name \<in> set (children fs dir).
     (\<forall>v. parse_record_file_name name = Some v \<longrightarrow> (\<exists>record i. record_stands L J fs dir name record \<and>
        shard_on record (dev_id d) = Some i \<and>
        (0 < rec_size record \<longrightarrow> (\<exists>other \<in> set (children fs dir). parse_shard_file_name other = Some (v, i))))) \<and>
     (\<forall>v i. parse_shard_file_name name = Some (v, i) \<longrightarrow> (\<exists>other \<in> set (children fs dir). \<exists>record.
        parse_record_file_name other = Some v \<and> record_stands L J fs dir other record \<and>
        shard_intact L fs (dir @ [name]) v i (ok_option (keyhash_from_hex (last dir))) (Some record))))"

lemma gathered_stands:
  assumes "gathered L J fs (ok_option (keyhash_from_hex (last dir))) ((\<lambda>name. dir @ [name]) ` names) (v, e, r)"
  shows "\<exists>name record. e = dir @ [name] \<and> name \<in> names \<and> parse_record_file_name name = Some v \<and> r = Some record \<and>
    record_stands L J fs dir name record"
  using assms by (auto simp: gathered_def record_stands_def split: res.splits)

lemma scrub_key_dir_quiet:
  assumes run: "scrub_key_dir L J fs now age d dir su = Ok su'" and q: "quiet su'" and dir: "is_dir fs dir"
  shows "quiet su \<and> key_dir_sound L J fs d dir"
proof -
  let ?h = "ok_option (keyhash_from_hex (last dir))"
  obtain entries records shards su1 where
    entries: "read_dir_sorted fs dir = Ok entries"
    and first: "fold_res (scrub_entry L J fs now age ?h) entries ([], [], su) = Ok (records, shards, su1)"
    and rest: "fold_res (scrub_shard L fs ?h records) shards (fold (scrub_record_shard d shards) records su1) = Ok su'"
    using run by (auto simp: scrub_key_dir_def Let_def bind_res_eq_Ok split: res.splits)
  note names = read_dir_sorted_set [OF entries dir]
  have ex: "\<forall>e\<in>set entries. map_of fs e \<noteq> None" by (auto simp: names children_iff)

  have shards_quiet: "quiet (fold (scrub_record_shard d shards) records su1) \<and>
      (\<forall>x\<in>set shards. \<exists>s s'. scrub_shard L fs ?h records x s = Ok s' \<and> quiet s')"
    using fold_res_backwards [where Q = quiet, OF rest q] scrub_shard_keeps_quiet by blast
  note lists = scrub_record_shards_quiet [OF conjunct1 [OF shards_quiet]]
  note gather = scrub_entries [OF first conjunct1 [OF lists] ex]
  have shs: "shards = shards_of entries" using gather by simp
  have found: "\<forall>e\<in>set entries. \<forall>v. parse_record_file_name (last e) = Some v \<longrightarrow> (\<exists>r. (v, e, r) \<in> set records)"
    using gather by simp
  have stands: "\<exists>name rc. e = dir @ [name] \<and> name \<in> set (children fs dir) \<and> parse_record_file_name name = Some v \<and>
      r = Some rc \<and> record_stands L J fs dir name rc" if "(v, e, r) \<in> set records" for v e r
    using gather that gathered_stands [of L J fs dir "set (children fs dir)" v e r] by (auto simp: names)
  have shard: "\<exists>name. p = dir @ [name] \<and> name \<in> set (children fs dir) \<and> parse_shard_file_name name = Some (v, i)"
    if "(v, i, p) \<in> set shards" for v i p
    using that names by (auto simp: shs split: option.splits)
  have listed: "(v, i, dir @ [name]) \<in> set shards"
    if "name \<in> set (children fs dir)" "parse_shard_file_name name = Some (v, i)" for name v i
    using that names by (force simp: shs)
  have recs: "\<exists>rc i. record_stands L J fs dir name rc \<and> shard_on rc (dev_id d) = Some i \<and>
      (0 < rec_size rc \<longrightarrow> (\<exists>other \<in> set (children fs dir). parse_shard_file_name other = Some (v, i)))"
    if n: "name \<in> set (children fs dir)" "parse_record_file_name name = Some v" for name v
  proof -
    have "dir @ [name] \<in> set entries" "parse_record_file_name (last (dir @ [name])) = Some v" using n by (simp_all add: names)
    then obtain r where r: "(v, dir @ [name], r) \<in> set records" using found by blast
    then obtain rc where rc: "r = Some rc" "record_stands L J fs dir name rc" using stands [OF r] by auto
    obtain i where i: "shard_on rc (dev_id d) = Some i" "0 < rec_size rc \<longrightarrow> (\<exists>q. (v, i, q) \<in> set shards)"
      using bspec [OF conjunct2 [OF lists] r] rc(1) by auto
    have "\<exists>other \<in> set (children fs dir). parse_shard_file_name other = Some (v, i)" if big: "0 < rec_size rc"
    proof -
      obtain q where "(v, i, q) \<in> set shards" using i(2) big by blast
      from shard [OF this] show ?thesis by blast
    qed
    then show ?thesis using rc(2) i(1) by auto
  qed
  have shs: "\<exists>other \<in> set (children fs dir). \<exists>rc. parse_record_file_name other = Some v \<and>
      record_stands L J fs dir other rc \<and> shard_intact L fs (dir @ [name]) v i ?h (Some rc)"
    if n: "name \<in> set (children fs dir)" "parse_shard_file_name name = Some (v, i)" for name v i
  proof -
    obtain s s' where "scrub_shard L fs ?h records (v, i, dir @ [name]) s = Ok s'" "quiet s'"
      using shards_quiet listed [OF n] by blast
    moreover have "\<forall>(v, q, r)\<in>set records. r \<noteq> None" by (clarify dest!: stands) blast
    moreover have "map_of fs (dir @ [name]) \<noteq> None" using n(1) by (simp add: children_iff)
    ultimately obtain q rc where rc: "(v, q, Some rc) \<in> set records" "shard_intact L fs (dir @ [name]) v i ?h (Some rc)"
      using scrub_shard_quiet [of L fs ?h records v i "dir @ [name]" s s'] by blast
    then show ?thesis using stands [OF rc(1)] by blast
  qed
  show ?thesis unfolding key_dir_sound_def using conjunct1 [OF gather] recs shs by simp
qed

text \<open>A device that holds the record of one empty object.\<close>

definition demo_empty_record :: metadata_record where
  "demo_empty_record = demo_record\<lparr>rec_size := 0\<rparr>"

definition demo_scrub_dir :: path where
  "demo_scrub_dir = [OBJECTS_DIR, DEFAULT_BUCKET, ''aa'', ''bb'', ''aabb'']"

definition demo_scrub_fs :: "string \<Rightarrow> fs" where
  "demo_scrub_fs t = [([], Dir), ([DEVICE_IDENTITY_FILE], File [] 0), ([OBJECTS_DIR], Dir), ([OBJECTS_DIR, DEFAULT_BUCKET], Dir),
     ([OBJECTS_DIR, DEFAULT_BUCKET, ''aa''], Dir), ([OBJECTS_DIR, DEFAULT_BUCKET, ''aa'', ''bb''], Dir), (demo_scrub_dir, Dir),
     (demo_scrub_dir @ [record_file_name (replicate 16 9)], File (as_bytes t) 0)]"

lemma demo_empty_record_reads:
  obtains t where "from_json demo_libs (demo_records [demo_empty_record]) t = Ok demo_empty_record"
proof -
  have "record_typed demo_empty_record" using demo_record_typed by (simp add: demo_empty_record_def record_typed_def)
  moreover have "record_valid demo_libs demo_empty_record"
    using demo_record_valid by (simp add: demo_empty_record_def record_valid_def)
  moreover have "record_texts (demo_records [demo_empty_record]) demo_empty_record"
    by (simp add: demo_record_texts demo_empty_record_def demo_record_def)
  ultimately show ?thesis
    using that from_json_to_json [of demo_empty_record "demo_records [demo_empty_record]" demo_libs]
      demo_json_reads [of demo_empty_record "[demo_empty_record]" demo_libs] by auto
qed

lemma demo_scrub_key_directories: "key_directories (demo_scrub_fs t) demo_device = Ok [demo_scrub_dir]"
  by (simp add: key_directories_def read_bucket_def bucket_directory_def demo_bucket demo_scrub_fs_def demo_scrub_dir_def
      read_dir_sorted_def fs_read_dir_def children_def is_dir_def path_exists_def res_simps OBJECTS_DIR_def DEFAULT_BUCKET_def DEVICE_IDENTITY_FILE_def)

lemma demo_scrub_run:
  assumes "from_json demo_libs J t = Ok demo_empty_record"
  shows "\<exists>su. scrub_device demo_libs J (demo_scrub_fs t) 0 0 demo_device = Ok su \<and> quiet su \<and> ss_records_checked su = 1"
proof -
  let ?v = "replicate 16 9 :: version_id" and ?fs = "demo_scrub_fs t"
  let ?entry = "demo_scrub_dir @ [record_file_name ?v]"
  have entry: "read_dir_sorted ?fs demo_scrub_dir = Ok [?entry]"
    by (simp add: demo_scrub_fs_def demo_scrub_dir_def read_dir_sorted_def fs_read_dir_def children_def
        OBJECTS_DIR_def DEFAULT_BUCKET_def DEVICE_IDENTITY_FILE_def)
  have hash: "keyhash_from_hex (last demo_scrub_dir) = Err ()"
    by (simp add: demo_scrub_dir_def keyhash_from_hex_def)
  have name: "parse_record_file_name (record_file_name ?v) = Some ?v"
    by (rule record_name.dec_enc) (simp add: version_wf_def)
  have contents: "fs_read ?fs ?entry = Ok (as_bytes t)"
    by (simp add: fs_read_def demo_scrub_fs_def demo_scrub_dir_def OBJECTS_DIR_def)
  have listed: "shard_on demo_empty_record (dev_id demo_device) = Some 0"
    by (simp add: shard_on_def demo_empty_record_def demo_record_def demo_device_def)
  have present: "path_exists ?fs (dev_root demo_device @ [DEVICE_IDENTITY_FILE])"
    by (simp add: path_exists_def demo_scrub_fs_def demo_device_def)
  show ?thesis
    by (simp add: scrub_device_def demo_scrub_key_directories present scrub_key_dir_def hash entry scrub_entry_def name
        record_name_kind [OF name] check_record_def contents assms scrub_record_shard_def listed Let_def res_simps)
      (simp add: demo_empty_record_def)
qed

text \<open>C28: A scrub that reports nothing has found the device sound.  In every key directory the
  files named as records hold a valid record with the directory's key hash that lists this device, with its
  shard file beside it when the object is not empty; and each shard file has its record beside it,
  opens, agrees with its name and its record, and all its blocks have the recorded checksums.\<close>

theorem clean_scrub_means_sound:
  assumes "scrub_device L J fs now temporary_max_age d = Ok su" "ss_findings su = []"
  shows "\<exists>dirs. key_directories fs d = Ok dirs \<and> (\<forall>dir\<in>set dirs. key_dir_sound L J fs d dir)"
proof -
  obtain dirs su0 where dirs: "key_directories fs d = Ok dirs"
    and run: "fold_res (scrub_key_dir L J fs now temporary_max_age d) dirs su0 = Ok su"
    using assms by (auto simp: scrub_device_def Let_def split: if_splits res.splits device_error.splits)
  from fold_res_backwards [where Q = quiet, OF run assms(2)]
  have "\<forall>dir\<in>set dirs. \<exists>s s'. scrub_key_dir L J fs now temporary_max_age d dir s = Ok s' \<and> quiet s'"
    using scrub_key_dir_quiet key_directories_are_dirs [OF dirs] by blast
  then show ?thesis using dirs scrub_key_dir_quiet key_directories_are_dirs [OF dirs] by blast
qed

theorem clean_scrub_means_sound_witness:
  "\<exists>t su. scrub_device demo_libs (demo_records [demo_empty_record]) (demo_scrub_fs t) 0 0 demo_device = Ok su \<and>
     ss_findings su = [] \<and> ss_records_checked su = 1 \<and>
     key_dir_sound demo_libs (demo_records [demo_empty_record]) (demo_scrub_fs t) demo_device demo_scrub_dir"
proof -
  obtain t where "from_json demo_libs (demo_records [demo_empty_record]) t = Ok demo_empty_record"
    by (rule demo_empty_record_reads)
  from demo_scrub_run [OF this] obtain su where
    su: "scrub_device demo_libs (demo_records [demo_empty_record]) (demo_scrub_fs t) 0 0 demo_device = Ok su"
      "ss_findings su = []" "ss_records_checked su = 1" by blast
  then show ?thesis using clean_scrub_means_sound [OF su(1,2)] by (auto simp: demo_scrub_key_directories)
qed

end
