(* ===== verification/Message.thy ===== *)
theory Message
  imports Cluster Scrub
begin

text \<open>
  The native protocol (\<open>djbod-proto/src/frame.rs\<close>, \<open>handshake.rs\<close>,
  \<open>message.rs\<close>) and the reading of messages from a byte stream
  (\<open>djbod-client/src/wire.rs\<close>).  The texts of errors and reasons are left out of
  the messages.  The CBOR library is a parameter: for each kind of payload an
  encoder and a decoder, either of which may fail.  A stream is the bytes the
  peer sends before it closes the connection.
\<close>

section \<open>Errors\<close>

datatype error_code =
    EcNodeUnreachable
  | EcDeviceUnavailable
  | EcBlockChecksumMismatch
  | EcObjectChecksumMismatch
  | EcRecordsInconsistent
  | EcKeyMismatch
  | EcNotFound
  | EcInsufficientDevices
  | EcWriteFailed
  | EcDocumentVersionMismatch
  | EcKeyTooLong
  | EcObjectTooLarge
  | EcMetadataTooLarge
  | EcProtocolViolation
  | EcUnauthorised
  | EcTlsRequired
  | EcInternal

record error_detail =
  ed_code :: error_code
  ed_node :: "node_id option"
  ed_device :: "device_id option"
  ed_key :: "string option"
  ed_version :: "version_id option"
  ed_shard_index :: "nat option"
  ed_stripe :: "nat option"

definition error_detail_new :: "error_code \<Rightarrow> error_detail" where
  "error_detail_new code = \<lparr>ed_code = code, ed_node = None, ed_device = None, ed_key = None,
     ed_version = None, ed_shard_index = None, ed_stripe = None\<rparr>"

section \<open>Handshake\<close>

definition PROTOCOL_VERSION :: nat where
  "PROTOCOL_VERSION = 1"

datatype peer_kind = PeerNode | PeerClient

record hello =
  he_protocol_version :: nat
  he_kind :: peer_kind
  he_node_id :: "node_id option"
  he_cluster_id :: uuid
  he_document_version :: nat
  he_build :: string
  he_cluster_name :: "string option"

datatype hello_error =
    HeProtocolVersion nat nat
  | HeClusterId uuid uuid
  | HeDocumentVersion nat nat
  | HeNodeIdMissing

text \<open>The nil UUID is 0.\<close>

definition asks_cluster_id :: "hello \<Rightarrow> bool" where
  "asks_cluster_id h = (he_kind h = PeerClient \<and> he_cluster_id h = 0)"

definition check_against :: "hello \<Rightarrow> uuid \<Rightarrow> nat \<Rightarrow> (hello_error, unit) res" where
  "check_against h our_cluster_id our_document_version =
     (if he_protocol_version h \<noteq> PROTOCOL_VERSION
      then Err (HeProtocolVersion (he_protocol_version h) PROTOCOL_VERSION)
      else if he_cluster_id h \<noteq> our_cluster_id \<and> \<not> asks_cluster_id h
      then Err (HeClusterId (he_cluster_id h) our_cluster_id)
      else if he_kind h = PeerNode
      then if he_node_id h = None then Err HeNodeIdMissing
           else if he_document_version h \<noteq> our_document_version
           then Err (HeDocumentVersion (he_document_version h) our_document_version)
           else Ok ()
      else Ok ())"

section \<open>Requests\<close>

definition MAX_LIST_PAGE_BYTES :: nat where
  "MAX_LIST_PAGE_BYTES = 8 * 1024 * 1024"

record record_cursor =
  rc_key_hash :: key_hash
  rc_version :: version_id

record device_record =
  dr_record :: metadata_record
  dr_shard_present :: bool

record lookup_cursor =
  lc_version :: version_id
  lc_device :: device_id

record list_query =
  lq_prefix :: "string option"
  lq_start_after :: "string option"
  lq_limit :: "nat option"

datatype object_state = StWhole | StDegradedParity | StDegradedData | StUnreadable | StInconsistent

record inventory_query =
  iq_keys :: "object_state option"

record put_shard_params =
  ps_device :: device_id
  ps_key_hash :: key_hash
  ps_version :: version_id
  ps_shard_index :: nat
  ps_k :: nat
  ps_m :: nat
  ps_block_length :: nat
  ps_object_size :: nat

datatype request =
    ReqStatus
  | ReqDeviceContents device_id
  | ReqPutObject string nat "string option" "(string \<times> string) list"
  | ReqGetObject string
  | ReqHeadObject string
  | ReqDeleteObject string
  | ReqListKeys list_query
  | ReqRepairObject string
  | ReqMoveShard string nat "device_id option"
  | ReqScrub "nat option" bool
  | ReqDrain device_id bool
  | ReqInventory inventory_query
  | ReqLocalStatus
  | ReqLocalLookup key_hash "lookup_cursor option"
  | ReqLocalList list_query
  | ReqLocalRecords device_id "record_cursor option"
  | ReqLocalDeviceContents device_id
  | ReqPutShard put_shard_params
  | ReqLocalScrub "nat option"
  | ReqGetShard device_id key_hash version_id nat nat nat
  | ReqPutMeta device_id metadata_record
  | ReqGetMeta device_id key_hash version_id bool
  | ReqDeleteVersion device_id key_hash version_id
  | ReqAbortShard device_id key_hash version_id nat
  | ReqGetClusterConfig
  | ReqApplyClusterConfig cluster_document

section \<open>Responses\<close>

record device_contents =
  dc_device :: device_id
  dc_node :: node_id
  dc_state :: device_state
  dc_versions :: nat
  dc_keys :: nat
  dc_blocks :: nat
  dc_shard_bytes :: nat

record device_counts =
  cn_versions :: nat
  cn_keys :: nat
  cn_blocks :: nat
  cn_shard_bytes :: nat

record node_status =
  ns_node :: node_id
  ns_state :: node_state
  ns_reachable :: bool
  ns_build :: "string option"
  ns_error :: bool

record device_status =
  ds_device :: device_id
  ds_node :: node_id
  ds_state :: device_state
  ds_available :: bool
  ds_label :: "string option"
  ds_node_label :: "string option"
  ds_total_bytes :: nat
  ds_free_bytes :: nat

record key_entry =
  ke_key :: string
  ke_size :: nat
  ke_version :: version_id

datatype shard_condition = ScIntact | ScUnreadable | ScCorruptBlocks "nat list" | ScLost

record shard_repair =
  sp_index :: nat
  sp_device :: device_id
  sp_condition :: shard_condition
  sp_rewritten :: bool
  sp_relocated_to :: "device_id option"

record repair_report =
  rr_key :: string
  rr_version :: version_id
  rr_shards :: "shard_repair list"
  rr_record_copies_rewritten :: "device_id list"
  rr_stale_copies_removed :: "device_id list"

record located_record =
  lr_device :: device_id
  lr_record :: metadata_record

record unavailable_device =
  ud_device :: device_id
  ud_node :: node_id

datatype record_copy_fault = CopyMissing | CopyStale nat | CopyUnavailable

record missing_record_copy =
  mr_device :: device_id
  mr_fault :: record_copy_fault

record reconstruction =
  rx_shard_index :: nat
  rx_device :: device_id
  rx_fault :: fault_kind
  rx_first_stripe :: nat
  rx_stripes :: nat

datatype response =
    RespError error_detail
  | RespStatus uuid "string option" nat node_id "node_status list" transport "device_status list"
  | RespDeviceContents device_contents
  | RespPutObject version_id "unavailable_device list"
  | RespGetObject metadata_record
  | RespHeadObject metadata_record "missing_record_copy list"
  | RespDeleteObject
  | RespListKeys "key_entry list" bool "unavailable_device list" bool
  | RespRepairObject repair_report
  | RespMoveShard metadata_record device_id bool bool
  | RespScrubStarted
  | RespDrainStarted
  | RespInventoryStarted
  | RespLocalStatus node_id nat bool string "device_status list"
  | RespLocalLookup "located_record list" bool "device_id list"
  | RespLocalList "key_entry list" bool "device_id list"
  | RespLocalRecords "device_record list" bool
  | RespLocalDeviceContents device_counts
  | RespPutShardReady
  | RespPutShardDone
  | RespGetShard nat
  | RespLocalScrubStarted
  | RespPutMeta
  | RespGetMeta "metadata_record option" "bool option"
  | RespDeleteVersion
  | RespAbortShard
  | RespGetClusterConfig cluster_document
  | RespApplyClusterConfig

section \<open>Events\<close>

datatype scrub_item =
    ItemFinding device_id finding
  | ItemSummary device_id scrub_summary

datatype cluster_finding =
    CfRecordsInconsistent string "version_id option"
  | CfShardMissingOnDevice string version_id device_id nat
  | CfShardLost string version_id device_id nat
  | CfStaleCopy string version_id device_id nat nat

record shard_availability =
  sa_shards_total :: nat
  sa_shards_available :: nat
  sa_k :: nat
  sa_versions :: nat

record device_exposure =
  dx_device :: device_id
  dx_versions :: nat

datatype scrub_event =
    EvNodeFinding node_id device_id finding
  | EvNodeSummary node_id device_id scrub_summary
  | EvNodeFailed node_id error_detail
  | EvClusterFinding cluster_finding
  | EvCrossCheckStopped node_id error_detail nat "nat option"
  | EvCrossCheckProgress nat key_hash
  | EvCrossCheckAvailability nat "shard_availability list" bool
  | EvCrossCheckExposure "device_exposure list" nat nat nat nat
  | EvRepaired string repair_report
  | EvRepairFailed string error_detail

datatype inventory_event =
    EvObject string version_id object_state nat nat
  | EvProgress nat
  | EvSummary nat nat nat nat nat nat "unavailable_device list" bool

datatype drain_event =
    EvEstimate device_id node_id nat nat nat nat nat
  | EvMoved string version_id nat device_id bool nat
  | EvSkipped string version_id error_detail
  | EvDeleted string version_id

section \<open>Streams\<close>

record data_frame =
  df_sequence :: nat
  df_checksum :: block_checksum
  df_bytes :: bytes

record object_write =
  ow_version :: version_id
  ow_unavailable :: "unavailable_device list"

record object_read =
  or_record :: metadata_record
  or_reconstructed :: "reconstruction list"
  or_missing_records :: "missing_record_copy list"

record stream_end =
  se_error :: "error_detail option"
  se_object_size :: "nat option"
  se_object_checksum :: "block_checksum option"
  se_reconstructed :: "reconstruction list"
  se_missing_records :: "missing_record_copy list"

definition stream_end_ok :: stream_end where
  "stream_end_ok = \<lparr>se_error = None, se_object_size = None, se_object_checksum = None,
     se_reconstructed = [], se_missing_records = []\<rparr>"

definition stream_end_failed :: "error_detail \<Rightarrow> stream_end" where
  "stream_end_failed e = \<lparr>se_error = Some e, se_object_size = None, se_object_checksum = None,
     se_reconstructed = [], se_missing_records = []\<rparr>"

section \<open>Frames\<close>

definition FRAME_HEADER_LEN :: nat where
  "FRAME_HEADER_LEN = 12"

definition MAX_PAYLOAD_LEN :: nat where
  "MAX_PAYLOAD_LEN = 64 * 1024 * 1024 + 4096"

datatype message_type = MtHello | MtRequest | MtResponse | MtData | MtEndOfStream

fun message_type_number :: "message_type \<Rightarrow> nat" where
  "message_type_number MtHello = 1"
| "message_type_number MtRequest = 2"
| "message_type_number MtResponse = 3"
| "message_type_number MtData = 4"
| "message_type_number MtEndOfStream = 5"

definition message_type_from_u16 :: "nat \<Rightarrow> message_type option" where
  "message_type_from_u16 n =
     (if n = 1 then Some MtHello else if n = 2 then Some MtRequest else if n = 3 then Some MtResponse
      else if n = 4 then Some MtData else if n = 5 then Some MtEndOfStream else None)"

record frame_header =
  fh_message_type :: message_type
  fh_flags :: nat
  fh_request_id :: nat
  fh_payload_len :: nat

record frame =
  fr_header :: frame_header
  fr_payload :: bytes

datatype frame_error =
    FeIncomplete nat nat
  | FeUnknownMessageType nat
  | FePayloadTooLarge nat
  | FeUnknownFlags nat

definition frame_header_encode :: "frame_header \<Rightarrow> bytes" where
  "frame_header_encode h =
     write_at (write_at (write_at (write_at (replicate FRAME_HEADER_LEN 0)
       0 (le_bytes 2 (message_type_number (fh_message_type h))))
       2 (le_bytes 2 (fh_flags h)))
       4 (le_bytes 4 (fh_request_id h)))
       8 (le_bytes 4 (fh_payload_len h))"

definition frame_header_decode :: "bytes \<Rightarrow> (frame_error, frame_header) res" where
  "frame_header_decode bs =
     (if length bs < FRAME_HEADER_LEN then Err (FeIncomplete (length bs) FRAME_HEADER_LEN)
      else let raw_type = le_nat (slice bs 0 2) in
      bind_res (ok_or (FeUnknownMessageType raw_type) (message_type_from_u16 raw_type)) (\<lambda>message_type.
      let flags = le_nat (slice bs 2 2) in
      if flags \<noteq> 0 then Err (FeUnknownFlags flags)
      else let request_id = le_nat (slice bs 4 4); payload_len = le_nat (slice bs 8 4) in
      if payload_len > MAX_PAYLOAD_LEN then Err (FePayloadTooLarge payload_len)
      else Ok \<lparr>fh_message_type = message_type, fh_flags = flags, fh_request_id = request_id,
                fh_payload_len = payload_len\<rparr>))"

text \<open>The payload length is cast to \<open>u32\<close>.\<close>

definition frame_new :: "message_type \<Rightarrow> nat \<Rightarrow> bytes \<Rightarrow> frame" where
  "frame_new message_type request_id payload =
     \<lparr>fr_header = \<lparr>fh_message_type = message_type, fh_flags = 0, fh_request_id = request_id,
                   fh_payload_len = length payload mod 4294967296\<rparr>,
      fr_payload = payload\<rparr>"

definition frame_encode :: "frame \<Rightarrow> bytes" where
  "frame_encode f = frame_header_encode (fr_header f) @ fr_payload f"

definition frame_decode :: "bytes \<Rightarrow> (frame_error, frame \<times> nat) res" where
  "frame_decode bs =
     bind_res (frame_header_decode bs) (\<lambda>header.
     let total = FRAME_HEADER_LEN + fh_payload_len header in
     if length bs < total then Err (FeIncomplete (length bs) total)
     else Ok (\<lparr>fr_header = header, fr_payload = slice bs FRAME_HEADER_LEN (fh_payload_len header)\<rparr>, total))"

section \<open>Messages\<close>

datatype message =
    MsgHello hello
  | MsgRequest nat request
  | MsgResponse nat response
  | MsgData nat data_frame
  | MsgEndOfStream nat stream_end

datatype message_error =
    MeFrame frame_error
  | MeEncode
  | MeDecode
  | MeDataFrameTooShort nat

fun request_id :: "message \<Rightarrow> nat option" where
  "request_id (MsgHello _) = None"
| "request_id (MsgRequest n _) = Some n"
| "request_id (MsgResponse n _) = Some n"
| "request_id (MsgData n _) = Some n"
| "request_id (MsgEndOfStream n _) = Some n"

definition DATA_PREFIX_LEN :: nat where
  "DATA_PREFIX_LEN = 16"

definition encode_payload :: "data_frame \<Rightarrow> bytes" where
  "encode_payload d = le_bytes 8 (df_sequence d) @ le_bytes 8 (unat (df_checksum d)) @ df_bytes d"

definition decode_payload :: "bytes \<Rightarrow> (message_error, data_frame) res" where
  "decode_payload payload =
     (if length payload < DATA_PREFIX_LEN then Err (MeDataFrameTooShort (length payload))
      else Ok \<lparr>df_sequence = le_nat (slice payload 0 8), df_checksum = word_of_nat (le_nat (slice payload 8 8)),
               df_bytes = drop DATA_PREFIX_LEN payload\<rparr>)"

text \<open>The CBOR library on the payloads of the protocol.\<close>

record cbor_lib =
  cb_hello :: "hello \<Rightarrow> bytes option"
  cb_to_hello :: "bytes \<Rightarrow> hello option"
  cb_request :: "request \<Rightarrow> bytes option"
  cb_to_request :: "bytes \<Rightarrow> request option"
  cb_response :: "response \<Rightarrow> bytes option"
  cb_to_response :: "bytes \<Rightarrow> response option"
  cb_end :: "stream_end \<Rightarrow> bytes option"
  cb_to_end :: "bytes \<Rightarrow> stream_end option"

fun to_frame :: "cbor_lib \<Rightarrow> message \<Rightarrow> (message_error, frame) res" where
  "to_frame C (MsgHello h) = bind_res (ok_or MeEncode (cb_hello C h)) (\<lambda>p. Ok (frame_new MtHello 0 p))"
| "to_frame C (MsgRequest n r) = bind_res (ok_or MeEncode (cb_request C r)) (\<lambda>p. Ok (frame_new MtRequest n p))"
| "to_frame C (MsgResponse n r) = bind_res (ok_or MeEncode (cb_response C r)) (\<lambda>p. Ok (frame_new MtResponse n p))"
| "to_frame C (MsgData n d) = Ok (frame_new MtData n (encode_payload d))"
| "to_frame C (MsgEndOfStream n e) = bind_res (ok_or MeEncode (cb_end C e)) (\<lambda>p. Ok (frame_new MtEndOfStream n p))"

definition from_frame :: "cbor_lib \<Rightarrow> frame \<Rightarrow> (message_error, message) res" where
  "from_frame C f =
     (let n = fh_request_id (fr_header f); payload = fr_payload f in
      case fh_message_type (fr_header f) of
        MtHello \<Rightarrow> bind_res (ok_or MeDecode (cb_to_hello C payload)) (\<lambda>h. Ok (MsgHello h))
      | MtRequest \<Rightarrow> bind_res (ok_or MeDecode (cb_to_request C payload)) (\<lambda>r. Ok (MsgRequest n r))
      | MtResponse \<Rightarrow> bind_res (ok_or MeDecode (cb_to_response C payload)) (\<lambda>r. Ok (MsgResponse n r))
      | MtData \<Rightarrow> bind_res (decode_payload payload) (\<lambda>d. Ok (MsgData n d))
      | MtEndOfStream \<Rightarrow> bind_res (ok_or MeDecode (cb_to_end C payload)) (\<lambda>e. Ok (MsgEndOfStream n e)))"

definition message_encode :: "cbor_lib \<Rightarrow> message \<Rightarrow> (message_error, bytes) res" where
  "message_encode C m = bind_res (to_frame C m) (\<lambda>f. Ok (frame_encode f))"

definition message_decode :: "cbor_lib \<Rightarrow> bytes \<Rightarrow> (message_error, message \<times> nat) res" where
  "message_decode C bs =
     bind_res (map_err MeFrame (frame_decode bs)) (\<lambda>(f, consumed).
     bind_res (from_frame C f) (\<lambda>m. Ok (m, consumed)))"

section \<open>Reading from a stream\<close>

datatype wire_error =
    WeClosed
  | WeIo
  | WeFrame frame_error
  | WeMessage message_error
  | WeIdle
  | WeUndecodableRequest nat

definition read_frame :: "bytes \<Rightarrow> (wire_error, frame \<times> bytes) res" where
  "read_frame s =
     (if length s < FRAME_HEADER_LEN then Err WeClosed
      else bind_res (map_err WeFrame (frame_header_decode (take FRAME_HEADER_LEN s))) (\<lambda>header.
      let rest = drop FRAME_HEADER_LEN s in
      if length rest < fh_payload_len header then Err WeIo
      else Ok (\<lparr>fr_header = header, fr_payload = take (fh_payload_len header) rest\<rparr>,
               drop (fh_payload_len header) rest)))"

definition read_message :: "cbor_lib \<Rightarrow> bytes \<Rightarrow> (wire_error, message \<times> bytes) res" where
  "read_message C s =
     bind_res (read_frame s) (\<lambda>(f, rest).
     case from_frame C f of
       Ok m \<Rightarrow> Ok (m, rest)
     | Err MeDecode \<Rightarrow>
         if fh_message_type (fr_header f) = MtRequest
         then Err (WeUndecodableRequest (fh_request_id (fr_header f)))
         else Err (WeMessage MeDecode)
     | Err e \<Rightarrow> Err (WeMessage e)
     | Panic \<Rightarrow> Panic)"

definition write_message :: "cbor_lib \<Rightarrow> message \<Rightarrow> (wire_error, bytes) res" where
  "write_message C m = map_err WeMessage (message_encode C m)"

section \<open>A header is read back as it was written\<close>

definition frame_header_wf :: "frame_header \<Rightarrow> bool" where
  "frame_header_wf h \<longleftrightarrow> fh_flags h = 0 \<and> fh_request_id h < 4294967296 \<and> fh_payload_len h \<le> MAX_PAYLOAD_LEN"

lemma frame_header_encode_parts:
  "frame_header_encode h = le_bytes 2 (message_type_number (fh_message_type h)) @ le_bytes 2 (fh_flags h) @
     le_bytes 4 (fh_request_id h) @ le_bytes 4 (fh_payload_len h)"
  by (simp add: frame_header_encode_def FRAME_HEADER_LEN_def write_at_def)

lemma length_frame_header_encode [simp]: "length (frame_header_encode h) = 12"
  by (simp add: frame_header_encode_parts)

lemma message_type_number_lt: "message_type_number t < 65536"
  by (cases t) auto

lemma message_type_numbers [simp]: "message_type_from_u16 (message_type_number t) = Some t"
  by (cases t) (simp_all add: message_type_from_u16_def)

lemma message_type_from_u16_Some: "message_type_from_u16 n = Some t \<longleftrightarrow> n = message_type_number t"
  by (cases t) (auto simp: message_type_from_u16_def split: if_splits)

lemma frame_header_decode_encode:
  assumes "frame_header_wf h"
  shows "frame_header_decode (frame_header_encode h @ rest) = Ok h"
proof -
  let ?bs = "frame_header_encode h @ rest"
  have "slice ?bs 0 2 = le_bytes 2 (message_type_number (fh_message_type h))" "slice ?bs 2 2 = le_bytes 2 (fh_flags h)"
    "slice ?bs 4 4 = le_bytes 4 (fh_request_id h)" "slice ?bs 8 4 = le_bytes 4 (fh_payload_len h)"
    by (simp_all add: frame_header_encode_parts slice_def)
  then show ?thesis
    using assms message_type_number_lt [of "fh_message_type h"]
    by (cases h) (auto simp: frame_header_decode_def frame_header_wf_def FRAME_HEADER_LEN_def MAX_PAYLOAD_LEN_def le_nat_le_bytes Let_def)
qed

lemma split4:
  assumes "length bs \<ge> 12"
  shows "take 12 bs = slice bs 0 2 @ slice bs 2 2 @ slice bs 4 4 @ slice bs 8 4"
proof -
  have "take 12 bs = take 2 bs @ take 2 (drop 2 bs) @ take 4 (drop 4 bs) @ take 4 (drop 8 bs)"
    using take_add [of 2 10 bs] take_add [of 2 8 "drop 2 bs"] take_add [of 4 4 "drop 4 bs"] by simp
  then show ?thesis by (simp add: slice_def)
qed

lemma frame_header_decode_Ok:
  assumes "frame_header_decode bs = Ok h"
  shows "frame_header_wf h \<and> 12 \<le> length bs \<and> take 12 bs = frame_header_encode h"
proof -
  have len: "12 \<le> length bs" and
    h: "le_nat (slice bs 0 2) = message_type_number (fh_message_type h)" "le_nat (slice bs 2 2) = 0" "fh_flags h = 0"
      "fh_request_id h = le_nat (slice bs 4 4)" "fh_payload_len h = le_nat (slice bs 8 4)" "fh_payload_len h \<le> MAX_PAYLOAD_LEN"
    using assms
    by (auto simp: frame_header_decode_def FRAME_HEADER_LEN_def message_type_from_u16_Some res_simps Let_def split: if_splits)
  have sl: "length (slice bs 0 2) = 2" "length (slice bs 2 2) = 2" "length (slice bs 4 4) = 4" "length (slice bs 8 4) = 4"
    using len by (simp_all add: slice_def)
  have "slice bs 0 2 = le_bytes 2 (message_type_number (fh_message_type h))" "slice bs 2 2 = le_bytes 2 (fh_flags h)"
    "slice bs 4 4 = le_bytes 4 (fh_request_id h)" "slice bs 8 4 = le_bytes 4 (fh_payload_len h)"
    using le_bytes_le_nat [of "slice bs 0 2"] le_bytes_le_nat [of "slice bs 2 2"] le_bytes_le_nat [of "slice bs 4 4"]
      le_bytes_le_nat [of "slice bs 8 4"] sl h by simp_all
  moreover have "fh_request_id h < 4294967296" using le_nat_lt [of "slice bs 4 4"] sl h(4) by simp
  ultimately show ?thesis using len h by (simp add: frame_header_wf_def frame_header_encode_parts split4)
qed

section \<open>Frames\<close>

definition frame_wf :: "frame \<Rightarrow> bool" where
  "frame_wf f \<longleftrightarrow> frame_header_wf (fr_header f) \<and> fh_payload_len (fr_header f) = length (fr_payload f)"

lemma frame_decode_encode:
  assumes "frame_wf f"
  shows "frame_decode (frame_encode f @ rest) = Ok (f, length (frame_encode f))"
  using assms frame_header_decode_encode [of "fr_header f" "fr_payload f @ rest"]
  by (cases f) (simp add: frame_decode_def frame_encode_def frame_wf_def FRAME_HEADER_LEN_def slice_def)

lemma frame_decode_Ok:
  assumes "frame_decode bs = Ok (f, n)"
  shows "frame_wf f \<and> n \<le> length bs \<and> take n bs = frame_encode f"
proof -
  obtain h where h: "frame_header_decode bs = Ok h" "n = 12 + fh_payload_len h" "n \<le> length bs"
    "f = \<lparr>fr_header = h, fr_payload = slice bs 12 (fh_payload_len h)\<rparr>"
    using assms by (auto simp: frame_decode_def FRAME_HEADER_LEN_def res_simps Let_def split: if_splits)
  then show ?thesis using frame_header_decode_Ok [OF h(1)]
    by (simp add: frame_wf_def frame_encode_def slice_def take_add)
qed

interpretation frame_codec: codec frame_wf frame_encode
  "\<lambda>bs. case frame_decode bs of Ok (f, n) \<Rightarrow> if n = length bs then Some f else None | _ \<Rightarrow> None"
  by unfold_locales
    (auto simp: frame_decode_encode [where rest = "[]", simplified] dest: frame_decode_Ok split: res.splits if_splits)

lemma frame_decode_prefix:
  assumes "frame_wf f" "n < length (frame_encode f)"
  shows "\<exists>needed. frame_decode (take n (frame_encode f)) = Err (FeIncomplete n needed) \<and>
    n < needed \<and> needed \<le> length (frame_encode f)"
proof (cases "n < 12")
  case True
  then show ?thesis using assms
    by (simp add: frame_decode_def frame_header_decode_def FRAME_HEADER_LEN_def frame_encode_def)
next
  case False
  then have "take n (frame_encode f) = frame_header_encode (fr_header f) @ take (n - 12) (fr_payload f)"
    by (simp add: frame_encode_def)
  then show ?thesis
    using assms frame_header_decode_encode [of "fr_header f" "take (n - 12) (fr_payload f)"] False
    by (simp add: frame_decode_def frame_wf_def FRAME_HEADER_LEN_def frame_encode_def)
qed

section \<open>Messages on a stream\<close>

text \<open>The law of the CBOR library on the payload of a message, and the sizes a frame can carry.\<close>

fun sendable :: "cbor_lib \<Rightarrow> message \<Rightarrow> bool" where
  "sendable C (MsgHello h) = (\<exists>p. cb_hello C h = Some p \<and> cb_to_hello C p = Some h \<and> length p \<le> MAX_PAYLOAD_LEN)"
| "sendable C (MsgRequest n r) = (n < 4294967296 \<and>
     (\<exists>p. cb_request C r = Some p \<and> cb_to_request C p = Some r \<and> length p \<le> MAX_PAYLOAD_LEN))"
| "sendable C (MsgResponse n r) = (n < 4294967296 \<and>
     (\<exists>p. cb_response C r = Some p \<and> cb_to_response C p = Some r \<and> length p \<le> MAX_PAYLOAD_LEN))"
| "sendable C (MsgData n d) = (n < 4294967296 \<and> df_sequence d < u64_modulus \<and>
     16 + length (df_bytes d) \<le> MAX_PAYLOAD_LEN)"
| "sendable C (MsgEndOfStream n e) = (n < 4294967296 \<and>
     (\<exists>p. cb_end C e = Some p \<and> cb_to_end C p = Some e \<and> length p \<le> MAX_PAYLOAD_LEN))"

lemma decode_encode_payload:
  assumes "df_sequence d < u64_modulus"
  shows "decode_payload (encode_payload d) = Ok d"
proof -
  have "slice (encode_payload d) 0 8 = le_bytes 8 (df_sequence d)"
    "slice (encode_payload d) 8 8 = le_bytes 8 (unat (df_checksum d))" "drop 16 (encode_payload d) = df_bytes d"
    by (simp_all add: encode_payload_def slice_def)
  then show ?thesis using assms
    by (cases d) (simp add: decode_payload_def DATA_PREFIX_LEN_def encode_payload_def unat_u64_lt)
qed

lemma frame_new_wf:
  "n < 4294967296 \<Longrightarrow> length p \<le> MAX_PAYLOAD_LEN \<Longrightarrow> frame_wf (frame_new t n p)"
  by (simp add: frame_wf_def frame_header_wf_def frame_new_def MAX_PAYLOAD_LEN_def)

lemma frame_new_simps [simp]:
  "fr_payload (frame_new t n p) = p" "fh_message_type (fr_header (frame_new t n p)) = t"
  "fh_request_id (fr_header (frame_new t n p)) = n"
  by (simp_all add: frame_new_def)

lemma sendable_frame:
  assumes "sendable C m"
  obtains f where "to_frame C m = Ok f" "frame_wf f" "from_frame C f = Ok m"
proof (cases m)
  case (MsgData n d)
  have "length (encode_payload d) \<le> MAX_PAYLOAD_LEN" using assms MsgData by (simp add: encode_payload_def)
  then show ?thesis using assms MsgData that
    by (simp add: frame_new_wf from_frame_def decode_encode_payload)
qed (use assms that in \<open>auto simp: frame_new_wf from_frame_def\<close>)

lemma read_frame_decode:
  "read_frame s = (case frame_decode s of
     Ok (f, n) \<Rightarrow> Ok (f, drop n s)
   | Err (FeIncomplete have needed) \<Rightarrow> if length s < FRAME_HEADER_LEN then Err WeClosed else Err WeIo
   | Err e \<Rightarrow> Err (WeFrame e)
   | Panic \<Rightarrow> Panic)"
proof (cases "length s < 12")
  case True
  then show ?thesis by (simp add: read_frame_def frame_decode_def frame_header_decode_def FRAME_HEADER_LEN_def)
next
  case False
  then have "slice (take 12 s) 0 2 = slice s 0 2" "slice (take 12 s) 2 2 = slice s 2 2"
    "slice (take 12 s) 4 4 = slice s 4 4" "slice (take 12 s) 8 4 = slice s 8 4"
    by (simp_all add: slice_def take_drop min_def)
  with False have "frame_header_decode (take 12 s) = frame_header_decode s"
    by (simp add: frame_header_decode_def FRAME_HEADER_LEN_def Let_def cong: if_cong)
  moreover have "frame_header_decode s \<noteq> Err (FeIncomplete a b)" for a b
    using False
    by (cases "message_type_from_u16 (le_nat (slice s 0 2))")
      (auto simp: frame_header_decode_def FRAME_HEADER_LEN_def Let_def split: if_splits)
  ultimately show ?thesis using False
    by (cases "frame_header_decode s")
      (auto simp: read_frame_def frame_decode_def FRAME_HEADER_LEN_def slice_def Let_def add.commute split: frame_error.splits)
qed

lemma read_message_written:
  assumes "sendable C m"
  obtains bs where "write_message C m = Ok bs" "12 \<le> length bs" "\<forall>rest. read_message C (bs @ rest) = Ok (m, rest)"
    "\<forall>n < length bs. read_message C (take n bs) = Err (if n < 12 then WeClosed else WeIo)"
proof -
  obtain f where f: "to_frame C m = Ok f" "frame_wf f" "from_frame C f = Ok m"
    using sendable_frame [OF assms] by blast
  have "read_message C (frame_encode f @ rest) = Ok (m, rest)" for rest
    using frame_decode_encode [OF f(2), of rest] f(3) by (simp add: read_message_def read_frame_decode)
  moreover have "read_message C (take n (frame_encode f)) = Err (if n < 12 then WeClosed else WeIo)"
    if "n < length (frame_encode f)" for n
    using frame_decode_prefix [OF f(2) that] that by (auto simp: read_message_def read_frame_decode FRAME_HEADER_LEN_def min_def)
  moreover have "write_message C m = Ok (frame_encode f)" using f(1) by (simp add: write_message_def message_encode_def)
  ultimately show ?thesis using that [of "frame_encode f"] by (simp add: frame_encode_def)
qed

lemma read_message_shorter:
  assumes "read_message C s = Ok (m, rest)"
  shows "length rest < length s"
proof -
  obtain f r where f: "read_frame s = Ok (f, r)" using assms by (auto simp: read_message_def res_simps)
  then have "r = rest"
    using assms by (cases "from_frame C f") (auto simp: read_message_def split: message_error.splits if_splits)
  with f show ?thesis by (auto simp: read_frame_def FRAME_HEADER_LEN_def res_simps Let_def split: if_splits)
qed

text \<open>All the messages of a stream, and the error that ends the reading.\<close>

function read_stream :: "cbor_lib \<Rightarrow> bytes \<Rightarrow> message list \<times> wire_error option" where
  "read_stream C s =
     (case read_message C s of
        Ok (m, rest) \<Rightarrow> (let (ms, e) = read_stream C rest in (m # ms, e))
      | Err e \<Rightarrow> ([], Some e)
      | Panic \<Rightarrow> ([], None))"
  by auto
termination by (relation "measure (\<lambda>(C, s). length s)") (auto dest: read_message_shorter)

declare read_stream.simps [simp del]

fun write_messages :: "cbor_lib \<Rightarrow> message list \<Rightarrow> (wire_error, bytes list) res" where
  "write_messages C [] = Ok []"
| "write_messages C (m # ms) = bind_res (write_message C m) (\<lambda>b. bind_res (write_messages C ms) (\<lambda>bs. Ok (b # bs)))"

lemma read_stream_written:
  assumes "\<forall>m\<in>set ms. sendable C m"
  shows "\<exists>bss. write_messages C ms = Ok bss \<and> read_stream C (concat bss) = (ms, Some WeClosed) \<and>
    (\<forall>n \<le> length (concat bss). \<exists>k \<le> length ms. \<exists>e \<in> {WeClosed, WeIo}.
       read_stream C (take n (concat bss)) = (take k ms, Some e) \<and> length (concat (take k bss)) \<le> n \<and>
       (k < length ms \<longrightarrow> n < length (concat (take (Suc k) bss))))"
  using assms
proof (induction ms)
  case Nil
  have "read_stream C [] = ([], Some WeClosed)"
    by (subst read_stream.simps) (simp add: read_message_def read_frame_def FRAME_HEADER_LEN_def)
  then show ?case by simp
next
  case (Cons m ms)
  obtain b where b: "write_message C m = Ok b" "12 \<le> length b" "\<forall>rest. read_message C (b @ rest) = Ok (m, rest)"
    "\<forall>n < length b. read_message C (take n b) = Err (if n < 12 then WeClosed else WeIo)"
    using read_message_written [of C m] Cons.prems by auto
  obtain bss where bss: "write_messages C ms = Ok bss" "read_stream C (concat bss) = (ms, Some WeClosed)"
    "\<forall>n \<le> length (concat bss). \<exists>k \<le> length ms. \<exists>e \<in> {WeClosed, WeIo}.
       read_stream C (take n (concat bss)) = (take k ms, Some e) \<and> length (concat (take k bss)) \<le> n \<and>
       (k < length ms \<longrightarrow> n < length (concat (take (Suc k) bss)))" using Cons by auto
  have step: "\<exists>k \<le> length (m # ms). \<exists>e \<in> {WeClosed, WeIo}.
       read_stream C (take n (concat (b # bss))) = (take k (m # ms), Some e) \<and> length (concat (take k (b # bss))) \<le> n \<and>
       (k < length (m # ms) \<longrightarrow> n < length (concat (take (Suc k) (b # bss))))"
    if n: "n \<le> length (concat (b # bss))" for n
  proof (cases "n < length b")
    case True
    then have "read_stream C (take n (concat (b # bss))) = ([], Some (if n < 12 then WeClosed else WeIo))"
      using b(4) by (subst read_stream.simps) simp
    then show ?thesis using True by (intro exI [of _ 0]) simp
  next
    case False
    then have "n - length b \<le> length (concat bss)" using n by simp
    with bss(3) obtain k e where k: "k \<le> length ms" "e \<in> {WeClosed, WeIo}"
      "read_stream C (take (n - length b) (concat bss)) = (take k ms, Some e)" "length (concat (take k bss)) \<le> n - length b"
      "k < length ms \<longrightarrow> n - length b < length (concat (take (Suc k) bss))" by blast
    have "read_stream C (take n (concat (b # bss))) = (m # take k ms, Some e)"
      using False b(3) k(3) by (subst read_stream.simps) simp
    then show ?thesis using False k(1,2,4,5) by (intro exI [of _ "Suc k"]) auto
  qed
  have "read_stream C (concat (b # bss)) = (m # ms, Some WeClosed)"
    using b(3) bss(2) by (subst read_stream.simps) simp
  then show ?case using b(1) bss(1) step by (intro exI [of _ "b # bss"]) simp
qed

text \<open>C29: Messages written one after another to a connection are read back in order, and the stream
  ends as closed.  Wherever the stream is cut, the reader gets exactly the messages that arrived
  whole and then an error, never a message that was not sent.\<close>

theorem message_stream_faithful:
  assumes "\<forall>m\<in>set ms. sendable C m"
  shows "\<exists>bss. write_messages C ms = Ok bss \<and> read_stream C (concat bss) = (ms, Some WeClosed) \<and>
    (\<forall>n \<le> length (concat bss). \<exists>k e. read_stream C (take n (concat bss)) = (take k ms, Some e) \<and>
       length (concat (take k bss)) \<le> n \<and> (k < length ms \<longrightarrow> n < length (concat (take (Suc k) bss))))"
  using read_stream_written [OF assms] by blast

definition demo_hello :: hello where
  "demo_hello = \<lparr>he_protocol_version = 1, he_kind = PeerClient, he_node_id = None, he_cluster_id = 9,
     he_document_version = 0, he_build = [], he_cluster_name = None\<rparr>"

text \<open>A library that knows one value of each kind.\<close>

definition demo_cbor :: cbor_lib where
  "demo_cbor = \<lparr>cb_hello = (\<lambda>_. Some [1]), cb_to_hello = (\<lambda>_. Some demo_hello),
     cb_request = (\<lambda>_. Some [2]), cb_to_request = (\<lambda>_. Some (ReqGetObject ''a'')),
     cb_response = (\<lambda>_. Some [3]), cb_to_response = (\<lambda>_. Some RespPutShardReady),
     cb_end = (\<lambda>_. Some [4]), cb_to_end = (\<lambda>_. Some stream_end_ok)\<rparr>"

theorem message_stream_faithful_witness:
  "\<exists>bss. write_messages demo_cbor [MsgHello demo_hello, MsgRequest 1 (ReqGetObject ''a''), MsgEndOfStream 1 stream_end_ok] = Ok bss \<and>
     read_stream demo_cbor (concat bss) =
       ([MsgHello demo_hello, MsgRequest 1 (ReqGetObject ''a''), MsgEndOfStream 1 stream_end_ok], Some WeClosed)"
proof -
  let ?ms = "[MsgHello demo_hello, MsgRequest 1 (ReqGetObject ''a''), MsgEndOfStream 1 stream_end_ok]"
  have "\<forall>m\<in>set ?ms. sendable demo_cbor m" by (simp add: demo_cbor_def MAX_PAYLOAD_LEN_def)
  from message_stream_faithful [OF this] show ?thesis by blast
qed

text \<open>C30: A frame is accepted from the front of the bytes exactly when those bytes are its encoding:
  no other bytes are read as a frame, and as many are consumed as were written.  On every proper
  part of a frame the decoder asks for more, for a number of bytes the frame really has.\<close>

theorem frame_decode_exact:
  "(frame_decode bs = Ok (f, n) \<longleftrightarrow>
      frame_wf f \<and> n = length (frame_encode f) \<and> (\<exists>rest. bs = frame_encode f @ rest)) \<and>
   (frame_wf f \<and> k < length (frame_encode f) \<longrightarrow> (\<exists>needed. k < needed \<and> needed \<le> length (frame_encode f) \<and>
      frame_decode (take k (frame_encode f)) = Err (FeIncomplete k needed)))"
proof
  show "frame_decode bs = Ok (f, n) \<longleftrightarrow> frame_wf f \<and> n = length (frame_encode f) \<and> (\<exists>rest. bs = frame_encode f @ rest)"
  proof
    assume "frame_decode bs = Ok (f, n)"
    from frame_decode_Ok [OF this] show "frame_wf f \<and> n = length (frame_encode f) \<and> (\<exists>rest. bs = frame_encode f @ rest)"
      by (metis append_take_drop_id length_take min.absorb2)
  qed (auto simp: frame_decode_encode)
qed (use frame_decode_prefix in blast)

theorem frame_decode_exact_witness:
  "frame_wf (frame_new MtData 7 [1, 2]) \<and>
   (\<exists>needed. 13 < needed \<and> needed \<le> length (frame_encode (frame_new MtData 7 [1, 2])) \<and>
      frame_decode (take 13 (frame_encode (frame_new MtData 7 [1, 2]))) = Err (FeIncomplete 13 needed))"
proof -
  have "frame_wf (frame_new MtData 7 [1, 2])" by (rule frame_new_wf) (simp_all add: MAX_PAYLOAD_LEN_def)
  moreover have "13 < length (frame_encode (frame_new MtData 7 [1, 2]))" by (simp add: frame_encode_def)
  ultimately show ?thesis
    using frame_decode_exact [of "[]" "frame_new MtData 7 [1, 2]" 0 13] by blast
qed

end
