(* ===== verification/Node.thy ===== *)
theory Node
  imports Message
begin

text \<open>
  A node's own state (\<open>djbod-node/src/node.rs\<close>, \<open>config.rs\<close>): its configuration,
  its devices, its copy of the cluster document in memory and on disk, the shard
  writes in progress.  The JSON text of a document is a parameter.  What the
  host gives is an argument: the file system number of a path, the identifiers
  it draws, the time, and whether the TLS material loads.  Locks, logging and
  the count of connections have no effect here.
\<close>

section \<open>Configuration\<close>

record node_config =
  cfg_node_id :: node_id
  cfg_listen :: string
  cfg_advertise :: "string option"
  cfg_state_dir :: path
  cfg_devices :: "path list"
  cfg_bootstrap_peers :: "string list"
  cfg_temporary_max_age_secs :: nat
  cfg_stream_idle_timeout_secs :: nat
  cfg_allow_shared_filesystem :: bool
  cfg_tls :: bool

datatype config_error = CfgNoDevices | CfgDuplicateDevice path

definition config_validate :: "node_config \<Rightarrow> (config_error, unit) res" where
  "config_validate c =
     (if cfg_devices c = [] then Err CfgNoDevices
      else fold_res (\<lambda>i _. if cfg_devices c ! i \<in> set (take i (cfg_devices c))
                            then Err (CfgDuplicateDevice (cfg_devices c ! i)) else Ok ())
             [0..<length (cfg_devices c)] ())"

definition advertised_address :: "node_config \<Rightarrow> string" where
  "advertised_address c = (case cfg_advertise c of Some a \<Rightarrow> a | None \<Rightarrow> cfg_listen c)"

record cluster_parameters =
  cp_name :: "string option"
  cp_k :: nat
  cp_m :: nat
  cp_block_size :: nat
  cp_headroom :: float64
  cp_max_key_bytes :: nat
  cp_max_object_bytes :: nat
  cp_max_user_metadata_bytes :: nat

section \<open>State\<close>

record shard_write_key =
  sk_device :: device_id
  sk_key_hash :: key_hash
  sk_version :: version_id
  sk_shard_index :: nat

record node =
  nd_config :: node_config
  nd_document :: cluster_document
  nd_devices :: "device list"
  nd_writes_in_flight :: "shard_write_key list"
  nd_removed :: bool
  nd_unavailable_reported :: "device_id list"
  nd_tls :: bool

datatype node_error =
    NeDevice device_error
  | NeSameFilesystem path path
  | NeIo io_kind
  | NeBadDocument
  | NeInvalidDocument cluster_document_error
  | NeNotAMember node_id
  | NeUnknownDevice device_id
  | NeNotNewer nat nat
  | NeWrongCluster uuid uuid
  | NeTlsRequired transport
  | NeTls

type_synonym 'a node_op = "(sys, node_error, 'a) act"

definition lift_op :: "('e \<Rightarrow> 'f) \<Rightarrow> ('s, 'e, 'a) act \<Rightarrow> ('s, 'f, 'a) act" where
  "lift_op f m s = (case m s of (r, s') \<Rightarrow> (map_err f r, s'))"

abbreviation nd_id :: "node \<Rightarrow> node_id" where
  "nd_id n \<equiv> cfg_node_id (nd_config n)"

text \<open>The map by identifier: a later device of the same identifier replaces an earlier one.\<close>

definition node_device :: "node \<Rightarrow> device_id \<Rightarrow> device option" where
  "node_device n i = map_of (rev (map (\<lambda>d. (dev_id d, d)) (nd_devices n))) i"

definition begin_shard_write :: "shard_write_key \<Rightarrow> node \<Rightarrow> node option" where
  "begin_shard_write key n =
     (if key \<in> set (nd_writes_in_flight n) then None
      else Some (n\<lparr>nd_writes_in_flight := key # nd_writes_in_flight n\<rparr>))"

definition guard_drop :: "shard_write_key \<Rightarrow> node \<Rightarrow> node" where
  "guard_drop key n = n\<lparr>nd_writes_in_flight := removeAll key (nd_writes_in_flight n)\<rparr>"

definition unavailable_devices :: "node \<Rightarrow> device_id list" where
  "unavailable_devices n =
     map de_id (filter (\<lambda>d. de_node d = nd_id n \<and> de_state d \<noteq> DevRemoved \<and> node_device n (de_id d) = None)
       (doc_devices (nd_document n)))"

definition note_availability :: "device_id \<Rightarrow> bool \<Rightarrow> node \<Rightarrow> bool \<times> node" where
  "note_availability device available n =
     (let reported = nd_unavailable_reported n in
      if available
      then (device \<in> set reported, n\<lparr>nd_unavailable_reported := removeAll device reported\<rparr>)
      else (device \<notin> set reported, n\<lparr>nd_unavailable_reported := List.insert device reported\<rparr>))"

section \<open>The saved document\<close>

record document_lib =
  dl_text :: "cluster_document \<Rightarrow> string"
  dl_parse :: "string \<Rightarrow> cluster_document option"

definition CLUSTER_DOCUMENT_FILE :: string where
  "CLUSTER_DOCUMENT_FILE = ''cluster.json''"

definition document_path :: "node_config \<Rightarrow> path" where
  "document_path c = cfg_state_dir c @ [CLUSTER_DOCUMENT_FILE]"

text \<open>A file name with its extension, from the last dot on, replaced.\<close>

definition with_extension :: "path \<Rightarrow> string \<Rightarrow> path" where
  "with_extension p ext =
     (let name = last p; stem = rev (drop 1 (dropWhile (\<lambda>c. c \<noteq> CHR ''.'') (rev name))) in
      with_file_name p ((if stem = [] then name else stem) @ ''.'' @ ext))"

definition save_document :: "document_lib \<Rightarrow> path \<Rightarrow> cluster_document \<Rightarrow> unit node_op" where
  "save_document D p doc s =
     (let temp = with_extension p ''json.tmp'' in
      case fs_write (sys_now s) (sys_fs s) temp (as_bytes (dl_text D doc)) of
        Err k \<Rightarrow> (Err (NeIo k), s)
      | Panic \<Rightarrow> (Panic, s)
      | Ok fs1 \<Rightarrow>
          (case fs_rename fs1 temp p of
             Ok fs2 \<Rightarrow> (Ok (), s\<lparr>sys_fs := fs2\<rparr>)
           | Err k \<Rightarrow> (Err (NeIo k), s\<lparr>sys_fs := fs1\<rparr>)
           | Panic \<Rightarrow> (Panic, s\<lparr>sys_fs := fs1\<rparr>)))"

definition load_document :: "json_lib \<Rightarrow> document_lib \<Rightarrow> path \<Rightarrow> fs \<Rightarrow> (node_error, cluster_document) res" where
  "load_document J D p fs =
     bind_res (map_err NeIo (fs_read fs p)) (\<lambda>bs.
     bind_res (ok_or NeBadDocument (dl_parse D (text_of bs))) (\<lambda>doc.
     bind_res (map_err NeInvalidDocument (document_validate J doc)) (\<lambda>_. Ok doc)))"

definition save_document_for :: "document_lib \<Rightarrow> node_config \<Rightarrow> cluster_document \<Rightarrow> unit node_op" where
  "save_document_for D c doc =
     op_bind (lift_op (\<lambda>e. case e of DevIo k \<Rightarrow> NeIo k | _ \<Rightarrow> NeDevice e) (create_dir_all [] (cfg_state_dir c))) (\<lambda>_.
     save_document D (document_path c) doc)"

definition load_document_for ::
  "json_lib \<Rightarrow> document_lib \<Rightarrow> node_config \<Rightarrow> fs \<Rightarrow> (node_error, cluster_document option) res" where
  "load_document_for J D c fs =
     (if \<not> path_exists fs (document_path c) then Ok None
      else bind_res (load_document J D (document_path c) fs) (\<lambda>doc. Ok (Some doc)))"

section \<open>Making and opening a node\<close>

record host =
  ho_fsid :: "path \<Rightarrow> nat"
  ho_uuid :: "path \<Rightarrow> uuid"
  ho_created :: timestamp
  ho_notice :: string
  ho_tls_loads :: bool

text \<open>The first group of devices on one file system, by the number of the file system.\<close>

definition shared_group :: "device list \<Rightarrow> device list option" where
  "shared_group devices =
     find (\<lambda>g. length g > 1) (map (\<lambda>i. filter (\<lambda>d. dev_filesystem_id d = i) devices)
       (sort (remdups (map dev_filesystem_id devices))))"

definition assemble :: "host \<Rightarrow> node_config \<Rightarrow> cluster_document \<Rightarrow> device list \<Rightarrow> (node_error, node) res" where
  "assemble H c doc devices =
     (if cfg_tls c \<and> \<not> ho_tls_loads H then Err NeTls
      else case (if cfg_allow_shared_filesystem c then None else shared_group devices) of
        Some g \<Rightarrow> Err (NeSameFilesystem (dev_root (g ! 0)) (dev_root (g ! 1)))
      | None \<Rightarrow>
          if \<not> (case doc_node doc (cfg_node_id c) of Some e \<Rightarrow> ne_state e = NodeActive | None \<Rightarrow> False)
          then Err (NeNotAMember (cfg_node_id c))
          else case find (\<lambda>d. doc_device doc (dev_id d) = None) devices of
            Some d \<Rightarrow> Err (NeUnknownDevice (dev_id d))
          | None \<Rightarrow> Ok \<lparr>nd_config = c, nd_document = doc, nd_devices = devices, nd_writes_in_flight = [],
                      nd_removed = False, nd_unavailable_reported = [], nd_tls = cfg_tls c\<rparr>)"

fun initialise_all :: "json_lib \<Rightarrow> host \<Rightarrow> uuid \<Rightarrow> path list \<Rightarrow> device list node_op" where
  "initialise_all J H cluster_id [] s = (Ok [], s)"
| "initialise_all J H cluster_id (p # ps) s =
     op_bind (lift_op NeDevice (device_initialise J (ho_notice H) (ho_uuid H p) (ho_created H) (ho_fsid H p) p cluster_id)) (\<lambda>d.
     op_bind (initialise_all J H cluster_id ps) (\<lambda>ds. op_return (Ok (d # ds)))) s"

definition first_document :: "node_config \<Rightarrow> cluster_parameters \<Rightarrow> uuid \<Rightarrow> device list \<Rightarrow> cluster_document" where
  "first_document c p cluster_id devices =
     \<lparr>doc_version = 1, doc_cluster_id = cluster_id, doc_name = cp_name p, doc_k = cp_k p, doc_m = cp_m p,
      doc_block_size = cp_block_size p, doc_headroom = cp_headroom p, doc_max_key_bytes = cp_max_key_bytes p,
      doc_max_object_bytes = cp_max_object_bytes p, doc_max_user_metadata_bytes = cp_max_user_metadata_bytes p,
      doc_transport = Plain,
      doc_nodes = [\<lparr>ne_id = cfg_node_id c, ne_addresses = [advertised_address c], ne_label = None, ne_state = NodeActive\<rparr>],
      doc_devices = map (\<lambda>d. \<lparr>de_id = dev_id d, de_node = cfg_node_id c, de_state = DevActive, de_label = None\<rparr>) devices\<rparr>"

definition init_cluster ::
  "json_lib \<Rightarrow> document_lib \<Rightarrow> host \<Rightarrow> node_config \<Rightarrow> cluster_parameters \<Rightarrow> uuid \<Rightarrow> node node_op" where
  "init_cluster J D H c p cluster_id =
     op_bind (lift_op (\<lambda>e. case e of DevIo k \<Rightarrow> NeIo k | _ \<Rightarrow> NeDevice e) (create_dir_all [] (cfg_state_dir c))) (\<lambda>_.
     op_bind (initialise_all J H cluster_id (cfg_devices c)) (\<lambda>devices.
     let doc = first_document c p cluster_id devices in
     op_bind (op_return (map_err NeInvalidDocument (document_validate J doc))) (\<lambda>_.
     op_bind (save_document D (document_path c) doc) (\<lambda>_.
     op_return (assemble H c doc devices)))))"

text \<open>A path that is not there or not initialised is passed over; any other failure stops the opening.\<close>

fun open_devices :: "json_lib \<Rightarrow> host \<Rightarrow> uuid \<Rightarrow> path list \<Rightarrow> device list node_op" where
  "open_devices J H cluster_id [] s = (Ok [], s)"
| "open_devices J H cluster_id (p # ps) s =
     (case device_open J (ho_fsid H p) p (Some cluster_id) s of
        (Ok d, s') \<Rightarrow> op_bind (open_devices J H cluster_id ps) (\<lambda>ds. op_return (Ok (d # ds))) s'
      | (Err DevNotInitialised, s') \<Rightarrow> open_devices J H cluster_id ps s'
      | (Err (DevIo IoNotFound), s') \<Rightarrow> open_devices J H cluster_id ps s'
      | (Err e, s') \<Rightarrow> (Err (NeDevice e), s')
      | (Panic, s') \<Rightarrow> (Panic, s'))"

fun cleanup_all :: "nat \<Rightarrow> device list \<Rightarrow> unit node_op" where
  "cleanup_all max_age [] s = (Ok (), s)"
| "cleanup_all max_age (d # ds) s =
     op_bind (lift_op NeDevice (cleanup_temporaries d max_age)) (\<lambda>_. cleanup_all max_age ds) s"

definition node_open :: "json_lib \<Rightarrow> document_lib \<Rightarrow> host \<Rightarrow> node_config \<Rightarrow> node node_op" where
  "node_open J D H c =
     op_bind (\<lambda>s. (load_document J D (document_path c) (sys_fs s), s)) (\<lambda>doc.
     if doc_transport doc \<noteq> Plain \<and> \<not> cfg_tls c then op_return (Err (NeTlsRequired (doc_transport doc)))
     else op_bind (open_devices J H (doc_cluster_id doc) (cfg_devices c)) (\<lambda>devices.
     op_bind (cleanup_all (cfg_temporary_max_age_secs c) devices) (\<lambda>_.
     op_return (assemble H c doc devices))))"

section \<open>Changing the document\<close>

definition apply_document ::
  "json_lib \<Rightarrow> document_lib \<Rightarrow> cluster_document \<Rightarrow> (node \<times> sys, node_error, unit) act" where
  "apply_document J D proposed = (\<lambda>(n, s).
     case document_validate J proposed of
       Err e \<Rightarrow> (Err (NeInvalidDocument e), (n, s))
     | Panic \<Rightarrow> (Panic, (n, s))
     | Ok _ \<Rightarrow>
         let current = nd_document n in
         if doc_cluster_id proposed \<noteq> doc_cluster_id current
         then (Err (NeWrongCluster (doc_cluster_id current) (doc_cluster_id proposed)), (n, s))
         else if doc_version proposed \<le> doc_version current
         then (Err (NeNotNewer (doc_version current) (doc_version proposed)), (n, s))
         else if doc_transport proposed \<noteq> Plain \<and> \<not> nd_tls n
         then (Err (NeTlsRequired (doc_transport proposed)), (n, s))
         else case save_document D (document_path (nd_config n)) proposed s of
           (Err e, s') \<Rightarrow> (Err e, (n, s'))
         | (Panic, s') \<Rightarrow> (Panic, (n, s'))
         | (Ok _, s') \<Rightarrow>
             let still_active = (case doc_node proposed (nd_id n) of Some e \<Rightarrow> ne_state e = NodeActive | None \<Rightarrow> False)
             in (Ok (), (n\<lparr>nd_document := proposed, nd_removed := (nd_removed n \<or> \<not> still_active)\<rparr>, s')))"

definition document_with_this_node :: "node_config \<Rightarrow> cluster_document \<Rightarrow> device_id list \<Rightarrow> cluster_document" where
  "document_with_this_node c current devices =
     (let next = current\<lparr>doc_version := wrap64 (doc_version current + 1)\<rparr>;
          next = (if doc_node next (cfg_node_id c) = None
                  then next\<lparr>doc_nodes := doc_nodes next @
                         [\<lparr>ne_id = cfg_node_id c, ne_addresses = [advertised_address c], ne_label = None, ne_state = NodeActive\<rparr>]\<rparr>
                  else next)
      in fold (\<lambda>device next.
           if doc_device next device = None
           then next\<lparr>doc_devices := doc_devices next @
                  [\<lparr>de_id = device, de_node = cfg_node_id c, de_state = DevActive, de_label = None\<rparr>]\<rparr>
           else next) devices next)"

section \<open>The document on disk is the document in use\<close>

definition node_saved :: "json_lib \<Rightarrow> document_lib \<Rightarrow> node \<times> sys \<Rightarrow> bool" where
  "node_saved J D = (\<lambda>(n, s). load_document J D (document_path (nd_config n)) (sys_fs s) = Ok (nd_document n))"

lemma document_temp_path:
  "with_extension (document_path c) ''json.tmp'' = cfg_state_dir c @ [''cluster.json.tmp'']"
  by (simp add: document_path_def with_extension_def with_file_name_def CLUSTER_DOCUMENT_FILE_def)

lemma load_document_cong:
  "map_of fs p = map_of fs' p \<Longrightarrow> load_document J D p fs = load_document J D p fs'"
  by (simp add: load_document_def fs_read_def)

lemma save_document_cases:
  assumes "save_document D (document_path c) doc s = (r, s')"
    and "dl_parse D (dl_text D doc) = Some doc" "document_validate J doc = Ok ()"
  shows "(r = Ok () \<and> load_document J D (document_path c) (sys_fs s') = Ok doc) \<or>
    ((\<exists>e. r = Err e) \<and> load_document J D (document_path c) (sys_fs s') = load_document J D (document_path c) (sys_fs s))"
proof -
  let ?p = "document_path c" and ?t = "cfg_state_dir c @ [''cluster.json.tmp'']"
  have ne: "?t \<noteq> ?p" by (simp add: document_path_def CLUSTER_DOCUMENT_FILE_def)
  have panic: "fs_write now fs q b \<noteq> Panic" "fs_rename fs q q' \<noteq> Panic" for now fs q q' b
    by (auto simp: fs_write_def fs_rename_def split: option.splits inode.splits)
  show ?thesis
  proof (cases "fs_write (sys_now s) (sys_fs s) ?t (as_bytes (dl_text D doc))")
    case (Ok fs1)
    then have fs1: "fs1 = AList.update ?t (File (as_bytes (dl_text D doc)) (sys_now s)) (sys_fs s)"
      by (auto simp: fs_write_def split: option.splits inode.splits)
    then have same: "map_of fs1 ?p = map_of (sys_fs s) ?p" using ne by simp
    show ?thesis
    proof (cases "fs_rename fs1 ?t ?p")
      case (Ok fs2)
      then have "map_of fs2 ?p = Some (File (as_bytes (dl_text D doc)) (sys_now s))"
        by (auto simp: fs_rename_def fs1 split: if_splits)
      then have "load_document J D ?p fs2 = Ok doc"
        using assms(2,3) by (simp add: load_document_def fs_read_def)
      then show ?thesis
        using assms(1) Ok \<open>fs_write _ _ _ _ = Ok fs1\<close> by (auto simp: save_document_def document_temp_path)
    next
      case (Err e)
      then show ?thesis using assms(1) \<open>fs_write _ _ _ _ = Ok fs1\<close> load_document_cong [OF same]
        by (auto simp: save_document_def document_temp_path)
    qed (simp add: panic)
  next
    case (Err e)
    then show ?thesis using assms(1) by (auto simp: save_document_def document_temp_path)
  qed (simp add: panic)
qed

lemma apply_document_step:
  assumes "node_saved J D (n, s)" "dl_parse D (dl_text D doc) = Some doc"
  obtains n' s' where "snd (apply_document J D doc (n, s)) = (n', s')" "node_saved J D (n', s')"
    "n' = n \<or> (nd_document n' = doc \<and> nd_config n' = nd_config n \<and> doc_version (nd_document n) < doc_version doc \<and>
      doc_cluster_id doc = doc_cluster_id (nd_document n) \<and> document_validate J doc = Ok ())"
    "nd_removed n \<longrightarrow> nd_removed n'"
proof (cases "document_validate J doc = Ok () \<and> doc_cluster_id doc = doc_cluster_id (nd_document n) \<and>
    doc_version (nd_document n) < doc_version doc \<and> (doc_transport doc = Plain \<or> nd_tls n)")
  case True
  obtain r s1 where run: "save_document D (document_path (nd_config n)) doc s = (r, s1)" by fastforce
  from save_document_cases [OF run assms(2), of J] True
  consider "r = Ok ()" "load_document J D (document_path (nd_config n)) (sys_fs s1) = Ok doc"
    | e where "r = Err e" "load_document J D (document_path (nd_config n)) (sys_fs s1) =
        load_document J D (document_path (nd_config n)) (sys_fs s)" by blast
  then show ?thesis
  proof cases
    case 1
    then show ?thesis using True run that [of "n\<lparr>nd_document := doc, nd_removed := nd_removed n \<or>
        \<not> (case doc_node doc (nd_id n) of Some e \<Rightarrow> ne_state e = NodeActive | None \<Rightarrow> False)\<rparr>" s1]
      by (auto simp: apply_document_def node_saved_def Let_def)
  next
    case 2
    then show ?thesis using True run assms(1) that [of n s1]
      by (auto simp: apply_document_def node_saved_def Let_def)
  qed
next
  case False
  then have "snd (apply_document J D doc (n, s)) = (n, s)"
    by (auto simp: apply_document_def Let_def split: res.splits)
  then show ?thesis using assms(1) that [of n s] by simp
qed


text \<open>A library for the versions of one document: the text of a document is as long as its version.\<close>

definition demo_documents :: document_lib where
  "demo_documents = \<lparr>dl_text = (\<lambda>doc. replicate (doc_version doc) (CHR ''v'')),
     dl_parse = (\<lambda>t. Some (demo_document\<lparr>doc_version := length t\<rparr>))\<rparr>"

definition demo_config :: node_config where
  "demo_config = \<lparr>cfg_node_id = 1, cfg_listen = ''10.0.0.1:7000'', cfg_advertise = None, cfg_state_dir = [''state''],
     cfg_devices = [], cfg_bootstrap_peers = [], cfg_temporary_max_age_secs = 3600, cfg_stream_idle_timeout_secs = 120,
     cfg_allow_shared_filesystem = False, cfg_tls = False\<rparr>"

definition demo_node :: node where
  "demo_node = \<lparr>nd_config = demo_config, nd_document = demo_document, nd_devices = [demo_device], nd_writes_in_flight = [],
     nd_removed = False, nd_unavailable_reported = [], nd_tls = False\<rparr>"

definition demo_node_sys :: sys where
  "demo_node_sys = demo_sys\<lparr>sys_fs := ([''state''], Dir) #
     ([''state'', ''cluster.json''], File (as_bytes ''vvv'') 0) # sys_fs demo_sys\<rparr>"

lemma demo_document_versions: "document_valid (demo_json []) (demo_document\<lparr>doc_version := v\<rparr>)"
  using demo_document_valid by (simp add: document_valid_def doc_scheme_def active_nodes_def)

lemma demo_node_saved: "node_saved (demo_json []) demo_documents (demo_node, demo_node_sys)"
proof -
  have "document_validate (demo_json []) demo_document = Ok ()" by (simp add: document_validate_iff demo_document_valid)
  moreover have "demo_document\<lparr>doc_version := Suc (Suc (Suc 0))\<rparr> = demo_document" by (simp add: demo_document_def)
  ultimately show ?thesis
    by (simp add: node_saved_def load_document_def demo_node_def demo_config_def document_path_def fs_read_def
        demo_node_sys_def CLUSTER_DOCUMENT_FILE_def demo_documents_def)
qed


section \<open>Joining\<close>

lemma doc_node_known: "(doc_node doc i = None) = (i \<notin> ne_id ` set (doc_nodes doc))"
  by (auto simp: doc_node_def find_None_iff)

lemma doc_device_known: "(doc_device doc i = None) = (i \<notin> de_id ` set (doc_devices doc))"
  by (auto simp: doc_device_def find_None_iff)

lemma add_node_valid:
  assumes "document_valid J doc" "doc_node doc i = None" "socket_addr_ok a"
    "a \<notin> set (concat (map ne_addresses (active_nodes doc)))"
  shows "document_valid J (doc\<lparr>doc_nodes := doc_nodes doc @
    [\<lparr>ne_id = i, ne_addresses = [a], ne_label = None, ne_state = NodeActive\<rparr>]\<rparr>)"
proof -
  have "i \<notin> ne_id ` set (doc_nodes doc)" using assms(2) by (simp add: doc_node_known)
  then show ?thesis using assms(1,3,4)
    by (auto simp: document_valid_def doc_scheme_def active_nodes_def labels_of_def List.map_filter_def)
qed

lemma add_device_valid:
  assumes "document_valid J doc" "doc_device doc i = None" "doc_node doc n \<noteq> None"
  shows "document_valid J (doc\<lparr>doc_devices := doc_devices doc @
    [\<lparr>de_id = i, de_node = n, de_state = DevActive, de_label = None\<rparr>]\<rparr>)"
proof -
  have "i \<notin> de_id ` set (doc_devices doc)" using assms(2) by (simp add: doc_device_known)
  moreover have "n \<in> ne_id ` set (doc_nodes doc)" using assms(3) by (simp add: doc_node_known del: not_None_eq)
  ultimately show ?thesis using assms(1)
    by (auto simp: document_valid_def doc_scheme_def active_nodes_def labels_of_def List.map_filter_def)
qed



end
