(* ===== verification/Connection.thy ===== *)
theory Connection
  imports Node
begin

text \<open>
  A connection to a node as its opener sees it (\<open>djbod-client/src/connection.rs\<close>),
  and the opening as the node sees it (\<open>djbod-node/src/server.rs\<close>).  A channel is
  what will still arrive, what has been written so far, and how many more messages
  can be written before the connection breaks.  A sink takes every byte it is
  given; a source gives its bytes in pieces of any size and may fail.
\<close>

section \<open>Channels\<close>

datatype incoming = Arrives message | Breaks wire_error

record channel =
  ch_in :: "incoming list"
  ch_out :: "message list"
  ch_room :: nat

definition receive :: "('c channel_scheme, wire_error, message) act" where
  "receive c =
     (case ch_in c of
        [] \<Rightarrow> (Err WeClosed, c)
      | Breaks e # rest \<Rightarrow> (Err e, c)
      | Arrives m # rest \<Rightarrow> (Ok m, c\<lparr>ch_in := rest\<rparr>))"

definition send :: "message \<Rightarrow> ('c channel_scheme, wire_error, unit) act" where
  "send m c =
     (if ch_room c = 0 then (Err WeIo, c)
      else (Ok (), c\<lparr>ch_out := ch_out c @ [m], ch_room := ch_room c - 1\<rparr>))"

section \<open>The connection\<close>

record connection = channel +
  cn_peer_hello :: hello
  cn_next_request_id :: nat

datatype connection_error =
    CeWire wire_error
  | CeHello hello_error
  | CeUnexpectedMessage
  | CeWrongRequestId nat nat
  | CeRemote error_detail
  | CeStreamFailed error_detail

datatype stream_item = ItemData data_frame | ItemEnd stream_end

type_synonym 'a conn_op = "(connection, connection_error, 'a) act"

definition connect_with :: "hello \<Rightarrow> channel \<Rightarrow> (connection_error, connection) res" where
  "connect_with our_hello c =
     (let conn = channel.extend c \<lparr>cn_peer_hello = our_hello, cn_next_request_id = 1\<rparr> in
      case op_bind (send (MsgHello our_hello)) (\<lambda>_. receive) conn of
        (Err e, _) \<Rightarrow> Err (CeWire e)
      | (Panic, _) \<Rightarrow> Panic
      | (Ok (MsgHello h), conn') \<Rightarrow>
          if he_cluster_id h \<noteq> he_cluster_id our_hello \<and> \<not> asks_cluster_id our_hello
          then Err (CeHello (HeClusterId (he_cluster_id h) (he_cluster_id our_hello)))
          else Ok (conn'\<lparr>cn_peer_hello := h\<rparr>)
      | (Ok (MsgResponse _ (RespError detail)), _) \<Rightarrow> Err (CeRemote detail)
      | (Ok _, _) \<Rightarrow> Err CeUnexpectedMessage)"

definition client_hello :: "string \<Rightarrow> uuid \<Rightarrow> hello" where
  "client_hello build cluster_id =
     \<lparr>he_protocol_version = PROTOCOL_VERSION, he_kind = PeerClient, he_node_id = None, he_cluster_id = cluster_id,
      he_document_version = 0, he_build = build, he_cluster_name = None\<rparr>"

definition allocate_request_id :: "nat conn_op" where
  "allocate_request_id c =
     (Ok (cn_next_request_id c), c\<lparr>cn_next_request_id := max ((cn_next_request_id c + 1) mod 4294967296) 1\<rparr>)"

definition send_request :: "request \<Rightarrow> nat conn_op" where
  "send_request request =
     op_bind allocate_request_id (\<lambda>n.
     op_bind (lift_op CeWire (send (MsgRequest n request))) (\<lambda>_. op_return (Ok n)))"

definition read_response :: "nat \<Rightarrow> response conn_op" where
  "read_response n =
     op_bind (lift_op CeWire receive) (\<lambda>m. op_return (case m of
       MsgResponse got response \<Rightarrow>
         if got \<noteq> n then Err (CeWrongRequestId n got)
         else (case response of RespError detail \<Rightarrow> Err (CeRemote detail) | other \<Rightarrow> Ok other)
     | _ \<Rightarrow> Err CeUnexpectedMessage))"

definition conn_request :: "request \<Rightarrow> response conn_op" where
  "conn_request request = op_bind (send_request request) read_response"

definition send_data :: "nat \<Rightarrow> data_frame \<Rightarrow> unit conn_op" where
  "send_data n data = lift_op CeWire (send (MsgData n data))"

definition send_end :: "nat \<Rightarrow> stream_end \<Rightarrow> unit conn_op" where
  "send_end n end = lift_op CeWire (send (MsgEndOfStream n end))"

definition read_stream_item :: "nat \<Rightarrow> stream_item conn_op" where
  "read_stream_item n =
     op_bind (lift_op CeWire receive) (\<lambda>m. op_return (case m of
       MsgData got data \<Rightarrow> if got \<noteq> n then Err (CeWrongRequestId n got) else Ok (ItemData data)
     | MsgEndOfStream got end \<Rightarrow> if got \<noteq> n then Err (CeWrongRequestId n got) else Ok (ItemEnd end)
     | _ \<Rightarrow> Err CeUnexpectedMessage))"

definition expect_response :: "nat \<Rightarrow> (response \<Rightarrow> 'a option) \<Rightarrow> 'a conn_op" where
  "expect_response n f =
     op_bind (read_response n) (\<lambda>r. op_return (ok_or CeUnexpectedMessage (f r)))"

section \<open>Shard conversations\<close>

fun send_blocks :: "nat \<Rightarrow> nat \<Rightarrow> shard_block list \<Rightarrow> unit conn_op" where
  "send_blocks n stripe [] c = (Ok (), c)"
| "send_blocks n stripe (b # bs) c =
     op_bind (send_data n \<lparr>df_sequence = stripe, df_checksum = sb_checksum b, df_bytes = sb_bytes b\<rparr>) (\<lambda>_.
     send_blocks n (Suc stripe) bs) c"

definition conn_put_shard :: "request \<Rightarrow> shard_block list \<Rightarrow> nat \<Rightarrow> block_checksum \<Rightarrow> unit conn_op" where
  "conn_put_shard request blocks object_size object_checksum =
     op_bind (send_request request) (\<lambda>n.
     op_bind (expect_response n (\<lambda>r. if r = RespPutShardReady then Some () else None)) (\<lambda>_.
     op_bind (send_blocks n 0 blocks) (\<lambda>_.
     op_bind (send_end n \<lparr>se_error = None, se_object_size = Some object_size, se_object_checksum = Some object_checksum,
                           se_reconstructed = [], se_missing_records = []\<rparr>) (\<lambda>_.
     expect_response n (\<lambda>r. if r = RespPutShardDone then Some () else None)))))"

function receive_blocks :: "nat \<Rightarrow> shard_index \<Rightarrow> shard_block list \<Rightarrow> shard_block list conn_op" where
  "receive_blocks n index blocks c =
     (case read_stream_item n c of
        (Ok (ItemData data), c') \<Rightarrow>
          receive_blocks n index (blocks @ [\<lparr>sb_index = index, sb_bytes = df_bytes data, sb_checksum = df_checksum data\<rparr>]) c'
      | (Ok (ItemEnd end), c') \<Rightarrow>
          (case se_error end of Some e \<Rightarrow> (Err (CeStreamFailed e), c') | None \<Rightarrow> (Ok blocks, c'))
      | (Err e, c') \<Rightarrow> (Err e, c')
      | (Panic, c') \<Rightarrow> (Panic, c'))"
  by pat_completeness auto

lemma read_stream_item_consumes:
  assumes "read_stream_item n c = (Ok item, c')"
  shows "length (ch_in c) = Suc (length (ch_in c'))"
  using assms
  by (auto simp: read_stream_item_def op_bind_def lift_op_def receive_def op_return_def
      split: list.splits incoming.splits res.splits)

termination receive_blocks
  by (relation "measure (\<lambda>(n, index, blocks, c). length (ch_in c))") (auto dest!: read_stream_item_consumes [OF sym])

declare receive_blocks.simps [simp del]

definition conn_get_shard :: "request \<Rightarrow> shard_index \<Rightarrow> shard_block list conn_op" where
  "conn_get_shard request index =
     op_bind (send_request request) (\<lambda>n.
     op_bind (expect_response n (\<lambda>r. case r of RespGetShard block_count \<Rightarrow> Some block_count | _ \<Rightarrow> None)) (\<lambda>_.
     receive_blocks n index []))"

section \<open>Objects\<close>

definition body_frame :: "libs \<Rightarrow> nat \<Rightarrow> bytes \<Rightarrow> data_frame" where
  "body_frame L sequence bs = \<lparr>df_sequence = sequence, df_checksum = checksum_block L bs, df_bytes = bs\<rparr>"

datatype source_step = Gives bytes | Fails

fun read_source :: "nat \<Rightarrow> source_step list \<Rightarrow> (wire_error, bytes \<times> source_step list) res" where
  "read_source want [] = Ok ([], [])"
| "read_source want (Fails # rest) = Err WeIo"
| "read_source want (Gives b # rest) =
     (if length b \<le> want then Ok (b, rest) else Ok (take want b, Gives (drop want b) # rest))"

definition refusal_behind_write_error :: "connection_error \<Rightarrow> connection \<Rightarrow> connection_error \<times> connection" where
  "refusal_behind_write_error write_error c =
     (case receive c of
        (Ok (MsgEndOfStream _ end), c') \<Rightarrow>
          (CeStreamFailed (case se_error end of Some e \<Rightarrow> e | None \<Rightarrow> error_detail_new EcProtocolViolation), c')
      | (Ok (MsgResponse _ (RespError detail)), c') \<Rightarrow> (CeRemote detail, c')
      | (_, c') \<Rightarrow> (write_error, c'))"

text \<open>
  The body: a source that ends early is reported and the rest of the body is
  left out.  The result says how many bytes are still unsent.
\<close>

function send_body ::
  "libs \<Rightarrow> nat \<Rightarrow> nat \<Rightarrow> nat \<Rightarrow> nat \<Rightarrow> source_step list \<Rightarrow> nat conn_op" where
  "send_body L n chunk sequence remaining source c =
     (if remaining = 0 then (Ok 0, c)
      else case read_source (min remaining chunk) source of
        Err e \<Rightarrow> (Err (CeWire e), c)
      | Panic \<Rightarrow> (Panic, c)
      | Ok (bs, source') \<Rightarrow>
          if bs = []
          then op_bind (send_end n (stream_end_failed (error_detail_new EcWriteFailed))) (\<lambda>_. op_return (Ok remaining)) c
          else (case send_data n (body_frame L sequence bs) c of
             (Ok _, c') \<Rightarrow> send_body L n chunk (Suc sequence) (remaining - length bs) source' c'
           | (Err e, c') \<Rightarrow> (case refusal_behind_write_error e c' of (e', c'') \<Rightarrow> (Err e', c''))
           | (Panic, c') \<Rightarrow> (Panic, c')))"
  by pat_completeness auto
termination
  by (relation "measure (\<lambda>(L, n, chunk, sequence, remaining, source, c). remaining)") auto

declare send_body.simps [simp del]

definition put_object_with_metadata ::
  "libs \<Rightarrow> string \<Rightarrow> nat \<Rightarrow> source_step list \<Rightarrow> nat \<Rightarrow> string option \<Rightarrow> (string \<times> string) list \<Rightarrow> object_write conn_op" where
  "put_object_with_metadata L key sz source chunk content_type user_metadata =
     op_bind (send_request (ReqPutObject key sz content_type user_metadata)) (\<lambda>n.
     op_bind (send_body L n (max chunk 1) 0 sz source) (\<lambda>remaining.
     op_bind (\<lambda>c. if remaining = 0
                   then (case send_end n stream_end_ok c of
                           (Err e, c') \<Rightarrow> (case refusal_behind_write_error e c' of (e', c'') \<Rightarrow> (Err e', c''))
                         | other \<Rightarrow> other)
                   else (Ok (), c)) (\<lambda>_.
     op_bind (lift_op CeWire receive) (\<lambda>m. op_return (case m of
       MsgResponse got response \<Rightarrow>
         (case response of
            RespPutObject version unavailable \<Rightarrow>
              if got = n then Ok \<lparr>ow_version = version, ow_unavailable = unavailable\<rparr> else Err CeUnexpectedMessage
          | RespError detail \<Rightarrow> Err (CeRemote detail)
          | _ \<Rightarrow> Err CeUnexpectedMessage)
     | MsgEndOfStream _ end \<Rightarrow>
         Err (CeStreamFailed (case se_error end of Some e \<Rightarrow> e | None \<Rightarrow> error_detail_new EcProtocolViolation))
     | _ \<Rightarrow> Err CeUnexpectedMessage)))))"

definition conn_put_object :: "libs \<Rightarrow> string \<Rightarrow> bytes \<Rightarrow> nat \<Rightarrow> string option \<Rightarrow> object_write conn_op" where
  "conn_put_object L key body chunk content_type =
     put_object_with_metadata L key (length body) [Gives body] chunk content_type []"

function receive_body ::
  "libs \<Rightarrow> nat \<Rightarrow> metadata_record \<Rightarrow> nat \<Rightarrow> bytes \<Rightarrow> (object_read \<times> bytes) conn_op" where
  "receive_body L n rc expected_sequence sink c =
     (case read_stream_item n c of
        (Ok (ItemData data), c') \<Rightarrow>
          if df_sequence data \<noteq> expected_sequence \<or> checksum_block L (df_bytes data) \<noteq> df_checksum data
          then (Err (CeStreamFailed (error_detail_new EcProtocolViolation)), c')
          else receive_body L n rc (Suc expected_sequence) (sink @ df_bytes data) c'
      | (Ok (ItemEnd end), c') \<Rightarrow>
          (case se_error end of
             Some e \<Rightarrow> (Err (CeStreamFailed e), c')
           | None \<Rightarrow> (Ok (\<lparr>or_record = rc, or_reconstructed = se_reconstructed end,
                          or_missing_records = se_missing_records end\<rparr>, sink), c'))
      | (Err e, c') \<Rightarrow> (Err e, c')
      | (Panic, c') \<Rightarrow> (Panic, c'))"
  by pat_completeness auto

termination receive_body
  by (relation "measure (\<lambda>(L, n, rc, s, sink, c). length (ch_in c))") (auto dest!: read_stream_item_consumes [OF sym])

declare receive_body.simps [simp del]

definition get_object_to_writer :: "libs \<Rightarrow> string \<Rightarrow> (object_read \<times> bytes) conn_op" where
  "get_object_to_writer L key =
     op_bind (send_request (ReqGetObject key)) (\<lambda>n.
     op_bind (expect_response n (\<lambda>r. case r of RespGetObject rc \<Rightarrow> Some rc | _ \<Rightarrow> None)) (\<lambda>rc.
     receive_body L n rc 0 []))"

section \<open>Streams of events\<close>

text \<open>\<open>decode\<close> is the CBOR decoder of the kind of event.\<close>

definition next_event :: "libs \<Rightarrow> (bytes \<Rightarrow> 'e option) \<Rightarrow> nat \<Rightarrow> ('e + stream_end) conn_op" where
  "next_event L decode n =
     op_bind (read_stream_item n) (\<lambda>item. op_return (case item of
       ItemData data \<Rightarrow>
         if checksum_block L (df_bytes data) \<noteq> df_checksum data
         then Err (CeStreamFailed (error_detail_new EcProtocolViolation))
         else (case decode (df_bytes data) of
                 Some event \<Rightarrow> Ok (Inl event)
               | None \<Rightarrow> Err (CeStreamFailed (error_detail_new EcProtocolViolation)))
     | ItemEnd end \<Rightarrow> Ok (Inr end)))"

definition start_stream :: "request \<Rightarrow> response \<Rightarrow> nat conn_op" where
  "start_stream request started =
     op_bind (send_request request) (\<lambda>n.
     op_bind (expect_response n (\<lambda>r. if r = started then Some () else None)) (\<lambda>_. op_return (Ok n)))"

definition start_scrub :: "nat option \<Rightarrow> bool \<Rightarrow> nat conn_op" where
  "start_scrub max_bytes_per_second repair = start_stream (ReqScrub max_bytes_per_second repair) RespScrubStarted"

definition start_drain :: "device_id \<Rightarrow> bool \<Rightarrow> nat conn_op" where
  "start_drain device partial = start_stream (ReqDrain device partial) RespDrainStarted"

definition start_inventory :: "inventory_query \<Rightarrow> nat conn_op" where
  "start_inventory query = start_stream (ReqInventory query) RespInventoryStarted"

section \<open>The opening on the node's side\<close>

datatype connection_end =
    PeerClosed
  | EndWire wire_error
  | EndProtocolViolation
  | EndHelloRefused
  | EndClusterIdGiven

fun end_of_wire :: "wire_error \<Rightarrow> connection_end" where
  "end_of_wire WeClosed = PeerClosed"
| "end_of_wire e = EndWire e"

definition our_hello :: "string \<Rightarrow> node \<Rightarrow> hello" where
  "our_hello build n =
     \<lparr>he_protocol_version = PROTOCOL_VERSION, he_kind = PeerNode, he_node_id = Some (nd_id n),
      he_cluster_id = doc_cluster_id (nd_document n), he_document_version = doc_version (nd_document n),
      he_build = build, he_cluster_name = doc_name (nd_document n)\<rparr>"

text \<open>The handshake of \<open>handle_connection\<close>: the peer's hello when the connection goes on.\<close>

definition accept_hello :: "string \<Rightarrow> node \<Rightarrow> (channel, connection_end, hello) act" where
  "accept_hello build n =
     op_bind (lift_op end_of_wire receive) (\<lambda>m c.
     case m of
       MsgHello h \<Rightarrow>
         (case check_against h (doc_cluster_id (nd_document n)) (doc_version (nd_document n)) of
            Err refusal \<Rightarrow>
              let code = (case refusal of HeDocumentVersion _ _ \<Rightarrow> EcDocumentVersionMismatch | _ \<Rightarrow> EcProtocolViolation);
                  detail = (error_detail_new code)\<lparr>ed_node := Some (nd_id n)\<rparr>
              in (Err EndHelloRefused, snd (send (MsgResponse 0 (RespError detail)) c))
          | Panic \<Rightarrow> (Panic, c)
          | Ok _ \<Rightarrow>
              op_bind (lift_op end_of_wire (send (MsgHello (our_hello build n)))) (\<lambda>_.
              op_return (if asks_cluster_id h then Err EndClusterIdGiven else Ok h)) c)
     | _ \<Rightarrow> (Err EndProtocolViolation, c))"

section \<open>The opening\<close>

lemmas channel_defs = op_bind_def op_return_def lift_op_def receive_def send_def

text \<open>What the node answers to a hello, and what the opener makes of that answer.\<close>

definition handshake ::
  "string \<Rightarrow> node \<Rightarrow> hello \<Rightarrow> (connection_end, hello) res \<times> (connection_error, connection) res" where
  "handshake build n h =
     (let (accepted, c) = accept_hello build n \<lparr>ch_in = [Arrives (MsgHello h)], ch_out = [], ch_room = 1\<rparr>
      in (accepted, connect_with h \<lparr>ch_in = map Arrives (ch_out c), ch_out = [], ch_room = 1\<rparr>))"

text \<open>C31: The two ends of a new connection agree.  The opener gets a connection exactly when both
  speak the same protocol version and the node's cluster is the one the opener named, or the opener
  is a client that asks which cluster it is, and, when the opener is a node, both hold the same
  document version; it then knows the node's identity.  The node goes on to serve requests in just
  those cases except for a client that only asked.\<close>

theorem handshake_agrees:
  "((\<exists>conn. snd (handshake build n h) = Ok conn) \<longleftrightarrow>
      he_protocol_version h = PROTOCOL_VERSION \<and>
      (he_cluster_id h = doc_cluster_id (nd_document n) \<or> he_kind h = PeerClient \<and> he_cluster_id h = 0) \<and>
      (he_kind h = PeerNode \<longrightarrow> he_node_id h \<noteq> None \<and> he_document_version h = doc_version (nd_document n))) \<and>
   (fst (handshake build n h) = Ok h \<longleftrightarrow>
      (\<exists>conn. snd (handshake build n h) = Ok conn) \<and> \<not> (he_kind h = PeerClient \<and> he_cluster_id h = 0)) \<and>
   (\<forall>conn. snd (handshake build n h) = Ok conn \<longrightarrow> cn_peer_hello conn = our_hello build n)"
proof (cases "check_against h (doc_cluster_id (nd_document n)) (doc_version (nd_document n))")
  case (Ok u)
  then show ?thesis
    by (auto simp: handshake_def accept_hello_def connect_with_def channel_defs check_against_def asks_cluster_id_def
        our_hello_def channel.defs split: if_splits)
next
  case (Err e)
  then show ?thesis
    by (auto simp: handshake_def accept_hello_def connect_with_def channel_defs check_against_def asks_cluster_id_def
        channel.defs Let_def split: if_splits)
qed (auto simp: check_against_def split: if_splits)

theorem handshake_agrees_witness:
  "\<exists>conn. snd (handshake [] demo_node (client_hello [] 9)) = Ok conn \<and> cn_peer_hello conn = our_hello [] demo_node"
  using handshake_agrees [of "[]" demo_node "client_hello [] 9"]
  by (auto simp: client_hello_def demo_node_def demo_document_def)

section \<open>Downloading\<close>

abbreviation body_messages :: "nat \<Rightarrow> data_frame list \<Rightarrow> incoming list" where
  "body_messages n frames \<equiv> map (\<lambda>f. Arrives (MsgData n f)) frames"

definition frames_ok :: "libs \<Rightarrow> nat \<Rightarrow> data_frame list \<Rightarrow> bool" where
  "frames_ok L k frames \<longleftrightarrow> (\<forall>i < length frames. df_sequence (frames ! i) = k + i \<and>
     df_checksum (frames ! i) = checksum_block L (df_bytes (frames ! i)))"

lemma frames_ok_Cons:
  "frames_ok L k (f # fs) \<longleftrightarrow> df_sequence f = k \<and> df_checksum f = checksum_block L (df_bytes f) \<and> frames_ok L (Suc k) fs"
  by (auto simp: frames_ok_def All_less_Suc2)

lemma read_stream_item_cases:
  "read_stream_item n c =
     (case ch_in c of
        [] \<Rightarrow> (Err (CeWire WeClosed), c)
      | Breaks e # rest \<Rightarrow> (Err (CeWire e), c)
      | Arrives m # rest \<Rightarrow> (case m of
            MsgData got data \<Rightarrow> if got \<noteq> n then Err (CeWrongRequestId n got) else Ok (ItemData data)
          | MsgEndOfStream got end \<Rightarrow> if got \<noteq> n then Err (CeWrongRequestId n got) else Ok (ItemEnd end)
          | _ \<Rightarrow> Err CeUnexpectedMessage, c\<lparr>ch_in := rest\<rparr>))"
  by (simp add: read_stream_item_def channel_defs split: list.splits incoming.splits)

lemma receive_body_Ok:
  "receive_body L n rc k sink c = (Ok (read, out), c') \<longleftrightarrow>
     (\<exists>frames end rest. ch_in c = body_messages n frames @ Arrives (MsgEndOfStream n end) # rest \<and>
        frames_ok L k frames \<and> se_error end = None \<and> out = sink @ concat (map df_bytes frames) \<and>
        read = \<lparr>or_record = rc, or_reconstructed = se_reconstructed end, or_missing_records = se_missing_records end\<rparr> \<and>
        c' = c\<lparr>ch_in := rest\<rparr>)"
proof (induction "length (ch_in c)" arbitrary: k sink c)
  case 0
  then show ?case by (subst receive_body.simps) (simp add: read_stream_item_cases)
next
  case (Suc l)
  then obtain i rest where i: "ch_in c = i # rest" by (cases "ch_in c") auto
  have IH: "receive_body L n rc k' sink' (c\<lparr>ch_in := rest\<rparr>) = (Ok (read, out), c') \<longleftrightarrow>
     (\<exists>frames end rest'. rest = body_messages n frames @ Arrives (MsgEndOfStream n end) # rest' \<and>
        frames_ok L k' frames \<and> se_error end = None \<and> out = sink' @ concat (map df_bytes frames) \<and>
        read = \<lparr>or_record = rc, or_reconstructed = se_reconstructed end, or_missing_records = se_missing_records end\<rparr> \<and>
        c' = c\<lparr>ch_in := rest'\<rparr>)" for k' sink'
    using Suc.hyps(1) [of "c\<lparr>ch_in := rest\<rparr>" k' sink'] Suc.hyps(2) i by simp
  show ?case
  proof (cases "\<exists>data. i = Arrives (MsgData n data)")
    case True
    then obtain data where d: "i = Arrives (MsgData n data)" by blast
    have "receive_body L n rc k sink c = (Ok (read, out), c') \<longleftrightarrow>
      df_sequence data = k \<and> df_checksum data = checksum_block L (df_bytes data) \<and>
      receive_body L n rc (Suc k) (sink @ df_bytes data) (c\<lparr>ch_in := rest\<rparr>) = (Ok (read, out), c')"
      by (subst receive_body.simps) (auto simp: read_stream_item_cases i d)
    also have "\<dots> \<longleftrightarrow> (\<exists>frames end rest'. rest = body_messages n frames @ Arrives (MsgEndOfStream n end) # rest' \<and>
        frames_ok L k (data # frames) \<and> se_error end = None \<and> out = sink @ concat (map df_bytes (data # frames)) \<and>
        read = \<lparr>or_record = rc, or_reconstructed = se_reconstructed end, or_missing_records = se_missing_records end\<rparr> \<and>
        c' = c\<lparr>ch_in := rest'\<rparr>)"
      unfolding IH by (auto simp: frames_ok_Cons)
    finally show ?thesis by (force simp: i d Cons_eq_append_conv Cons_eq_map_conv)
  next
    case False
    then show ?thesis
      by (subst receive_body.simps)
        (auto simp: read_stream_item_cases i Cons_eq_append_conv Cons_eq_map_conv frames_ok_def
          split: incoming.splits message.splits option.splits)
  qed
qed

text \<open>C32: A download succeeds only when it is complete.  The messages received are the record for
  this request, data frames numbered from zero without a gap, each with the checksum of its bytes,
  and an end of stream that carries no error; and what was written to the sink is all of their
  bytes in order.  A stream that is cut, reordered, corrupted or ended with an error gives an
  error.\<close>

theorem download_is_complete:
  assumes "get_object_to_writer L key c = (Ok (read, sink), c')"
  shows "\<exists>rc frames end rest. ch_in c = Arrives (MsgResponse (cn_next_request_id c) (RespGetObject rc)) #
      map (\<lambda>f. Arrives (MsgData (cn_next_request_id c) f)) frames @
      Arrives (MsgEndOfStream (cn_next_request_id c) end) # rest \<and>
    (\<forall>i < length frames. df_sequence (frames ! i) = i \<and>
       df_checksum (frames ! i) = checksum_block L (df_bytes (frames ! i))) \<and>
    se_error end = None \<and> or_record read = rc \<and> sink = concat (map df_bytes frames) \<and> ch_in c' = rest"
proof -
  let ?n = "cn_next_request_id c"
  obtain c1 where c1: "send_request (ReqGetObject key) c = (Ok ?n, c1)" "ch_in c1 = ch_in c" and
    run: "op_bind (expect_response ?n (\<lambda>r. case r of RespGetObject rc \<Rightarrow> Some rc | _ \<Rightarrow> None)) (\<lambda>rc. receive_body L ?n rc 0 []) c1 =
      (Ok (read, sink), c')"
    using assms by (auto simp: get_object_to_writer_def send_request_def allocate_request_id_def channel_defs split: if_splits)
  obtain rc rest where rc: "ch_in c1 = Arrives (MsgResponse ?n (RespGetObject rc)) # rest"
    "receive_body L ?n rc 0 [] (c1\<lparr>ch_in := rest\<rparr>) = (Ok (read, sink), c')"
    using run by (auto simp: expect_response_def read_response_def channel_defs
        split: list.splits incoming.splits message.splits if_splits response.splits)
  then show ?thesis using c1(2) by (auto simp: receive_body_Ok frames_ok_def)
qed

definition demo_connection :: "incoming list \<Rightarrow> connection" where
  "demo_connection ms = \<lparr>ch_in = ms, ch_out = [], ch_room = 100, cn_peer_hello = demo_hello, cn_next_request_id = 1\<rparr>"

theorem download_is_complete_witness:
  "\<exists>read. get_object_to_writer demo_libs ''a'' (demo_connection
      [Arrives (MsgResponse 1 (RespGetObject demo_record)), Arrives (MsgData 1 (body_frame demo_libs 0 [1, 2])),
       Arrives (MsgEndOfStream 1 stream_end_ok)]) = (Ok (read, [1, 2]), (demo_connection [])\<lparr>
         ch_out := [MsgRequest 1 (ReqGetObject ''a'')], ch_room := 99, cn_next_request_id := 2\<rparr>) \<and>
    or_record read = demo_record"
proof -
  let ?ms = "[Arrives (MsgResponse 1 (RespGetObject demo_record)), Arrives (MsgData 1 (body_frame demo_libs 0 [1, 2])),
       Arrives (MsgEndOfStream 1 stream_end_ok)]"
  obtain read where run: "get_object_to_writer demo_libs ''a'' (demo_connection ?ms) = (Ok (read, [1, 2]), (demo_connection [])\<lparr>
         ch_out := [MsgRequest 1 (ReqGetObject ''a'')], ch_room := 99, cn_next_request_id := 2\<rparr>)"
    by (auto simp: get_object_to_writer_def send_request_def allocate_request_id_def expect_response_def read_response_def
        channel_defs demo_connection_def receive_body.simps read_stream_item_cases body_frame_def stream_end_ok_def)
  from download_is_complete [OF run] run show ?thesis by (auto simp: demo_connection_def)
qed

section \<open>Uploading\<close>

abbreviation source_bytes :: "source_step list \<Rightarrow> bytes" where
  "source_bytes source \<equiv> concat (map (\<lambda>s. case s of Gives b \<Rightarrow> b | Fails \<Rightarrow> []) source)"

definition source_ok :: "source_step list \<Rightarrow> bool" where
  "source_ok source \<longleftrightarrow> (\<forall>s\<in>set source. \<exists>b. s = Gives b \<and> b \<noteq> [])"

lemma read_source_ok:
  assumes "source_ok source" "source_bytes source \<noteq> []" "0 < want"
  obtains b source' where "read_source want source = Ok (b, source')" "0 < length b" "length b \<le> want" "source_ok source'"
    "source_bytes source = b @ source_bytes source'"
proof -
  from assms obtain b rest where s: "source = Gives b # rest" "b \<noteq> []" "source_ok rest"
    by (cases source) (auto simp: source_ok_def)
  show ?thesis
  proof (cases "length b \<le> want")
    case True
    then show ?thesis using s that [of b rest] by simp
  next
    case False
    then show ?thesis using s assms(3) that [of "take want b" "Gives (drop want b) # rest"] by (auto simp: source_ok_def)
  qed
qed

lemma send_body_frames:
  assumes "source_ok source" "remaining \<le> length (source_bytes source)" "remaining \<le> ch_room c" "0 < chunk"
  shows "\<exists>frames. frames_ok L k frames \<and> concat (map df_bytes frames) = take remaining (source_bytes source) \<and>
    (\<forall>f\<in>set frames. 0 < length (df_bytes f) \<and> length (df_bytes f) \<le> chunk) \<and> length frames \<le> remaining \<and>
    send_body L n chunk k remaining source c =
      (Ok 0, c\<lparr>ch_out := ch_out c @ map (MsgData n) frames, ch_room := ch_room c - length frames\<rparr>)"
  using assms
proof (induction remaining arbitrary: k source c rule: less_induct)
  case (less remaining)
  show ?case
  proof (cases "remaining = 0")
    case True
    then show ?thesis by (intro exI [of _ "[]"]) (simp add: frames_ok_def send_body.simps)
  next
    case False
    then have "0 < length (source_bytes source)" "0 < min remaining chunk" using less.prems(2,4) by linarith+
    then have "source_bytes source \<noteq> []" "0 < min remaining chunk" by (simp_all only: length_greater_0_conv not_False_eq_True)
    then obtain b source' where b: "read_source (min remaining chunk) source = Ok (b, source')" "0 < length b"
      "length b \<le> min remaining chunk" "source_ok source'" "source_bytes source = b @ source_bytes source'"
      using read_source_ok [OF less.prems(1)] by blast
    let ?f = "body_frame L k b"
    let ?c = "c\<lparr>ch_out := ch_out c @ [MsgData n ?f], ch_room := ch_room c - 1\<rparr>"
    have "remaining - length b < remaining" "remaining - length b \<le> length (source_bytes source')"
      "remaining - length b \<le> ch_room ?c" using less.prems(2,3) b(2,5) False by (simp_all, linarith)
    from less.IH [OF this(1) b(4) this(2,3) less.prems(4), of "Suc k"]
    obtain frames where fs: "frames_ok L (Suc k) frames"
      "concat (map df_bytes frames) = take (remaining - length b) (source_bytes source')"
      "\<forall>f\<in>set frames. 0 < length (df_bytes f) \<and> length (df_bytes f) \<le> chunk" "length frames \<le> remaining - length b"
      "send_body L n chunk (Suc k) (remaining - length b) source' ?c =
         (Ok 0, ?c\<lparr>ch_out := ch_out ?c @ map (MsgData n) frames, ch_room := ch_room ?c - length frames\<rparr>)"
      by blast
    have "send_body L n chunk k remaining source c = send_body L n chunk (Suc k) (remaining - length b) source' ?c"
      using False b less.prems(3) by (subst send_body.simps) (auto simp: send_data_def channel_defs)
    moreover have "length b \<le> chunk" "length (?f # frames) \<le> remaining" using fs(4) b(2,3) by (simp, unfold list.size, linarith)
    ultimately show ?thesis using b(2,3,5) fs(1-3,5)
      by (intro exI [of _ "?f # frames"]) (auto simp: frames_ok_Cons body_frame_def)
  qed
qed

text \<open>C33: An upload sends the declared number of bytes, whatever pieces the source gives them in:
  the request, then data frames numbered from zero, none empty and none longer than the chunk size,
  each with the checksum of its bytes, which together are the first bytes of the source, and then a
  clean end of stream.\<close>

theorem upload_sends_body:
  assumes "source_ok source" "sz \<le> length (source_bytes source)" "sz + 2 \<le> ch_room c"
    and "put_object_with_metadata L key sz source chunk content_type user_metadata c = (r, c')"
  shows "\<exists>frames. ch_out c' = ch_out c @
      MsgRequest (cn_next_request_id c) (ReqPutObject key sz content_type user_metadata) #
      map (MsgData (cn_next_request_id c)) frames @ [MsgEndOfStream (cn_next_request_id c) stream_end_ok] \<and>
    concat (map df_bytes frames) = take sz (source_bytes source) \<and>
    (\<forall>i < length frames. df_sequence (frames ! i) = i \<and> df_checksum (frames ! i) = checksum_block L (df_bytes (frames ! i)) \<and>
       0 < length (df_bytes (frames ! i)) \<and> length (df_bytes (frames ! i)) \<le> max chunk 1)"
proof -
  let ?n = "cn_next_request_id c"
  let ?c1 = "c\<lparr>cn_next_request_id := max ((?n + 1) mod 4294967296) 1,
    ch_out := ch_out c @ [MsgRequest ?n (ReqPutObject key sz content_type user_metadata)], ch_room := ch_room c - 1\<rparr>"
  have req: "send_request (ReqPutObject key sz content_type user_metadata) c = (Ok ?n, ?c1)"
    using assms(3) by (simp add: send_request_def allocate_request_id_def channel_defs)
  have room1: "sz \<le> ch_room ?c1" using assms(3) by simp
  obtain frames where fs: "frames_ok L 0 frames" "concat (map df_bytes frames) = take sz (source_bytes source)"
    "\<forall>f\<in>set frames. 0 < length (df_bytes f) \<and> length (df_bytes f) \<le> max chunk 1" "length frames \<le> sz"
    "send_body L ?n (max chunk 1) 0 sz source ?c1 =
       (Ok 0, ?c1\<lparr>ch_out := ch_out ?c1 @ map (MsgData ?n) frames, ch_room := ch_room ?c1 - length frames\<rparr>)"
    using send_body_frames [OF assms(1,2) room1, of "max chunk 1" L 0 ?n] by (auto simp only: less_max_iff_disj zero_less_one)
  let ?c2 = "?c1\<lparr>ch_out := ch_out ?c1 @ map (MsgData ?n) frames, ch_room := ch_room ?c1 - length frames\<rparr>"
  have room: "0 < ch_room ?c2" using fs(4) assms(3) by simp
  have "ch_out c' = ch_out ?c2 @ [MsgEndOfStream ?n stream_end_ok]"
    using assms(4) req fs(5) room
    by (auto simp: put_object_with_metadata_def op_bind_def [of "send_request _"] op_bind_def [of "send_body _ _ _ _ _ _"]
        send_end_def channel_defs split: list.splits incoming.splits)
  then show ?thesis using fs(1-3) by (intro exI [of _ frames]) (auto simp: frames_ok_def)
qed

theorem upload_sends_body_witness:
  "\<exists>r c'. put_object_with_metadata demo_libs ''a'' 3 [Gives [1, 2], Gives [3, 4]] 2 None [] (demo_connection []) = (r, c') \<and>
    (\<exists>frames. ch_out c' = MsgRequest 1 (ReqPutObject ''a'' 3 None []) # map (MsgData 1) frames @ [MsgEndOfStream 1 stream_end_ok] \<and>
      concat (map df_bytes frames) = [1, 2, 3])"
proof -
  obtain r c' where run: "put_object_with_metadata demo_libs ''a'' 3 [Gives [1, 2], Gives [3, 4]] 2 None [] (demo_connection []) = (r, c')"
    by (rule prod.exhaust)
  have "source_ok [Gives [1, 2], Gives [3, 4]]" "(3 :: nat) \<le> length (source_bytes [Gives [1, 2], Gives [3, 4]])"
    "3 + 2 \<le> ch_room (demo_connection [])" by (simp_all add: source_ok_def demo_connection_def)
  from upload_sends_body [OF this run] run show ?thesis by (auto simp: demo_connection_def)
qed

end
