(* ===== verification/LocalOps.thy ===== *)
theory LocalOps
  imports Connection "HOL-Library.Product_Lexorder"
begin

text \<open>
  The operations a node serves from its own devices
  (\<open>djbod-node/src/local_ops.rs\<close>).  A handler works on the connection it answers
  on, the node, and the machine below; it sends its answers and gives the reason
  when the connection must close.  A panic on a worker thread comes back as an
  internal error.  Whether the disk takes each write is told in advance, in the
  order of the writes; a list that has run out means the disk does.  The encoded
  sizes of records are parameters.  The handler that streams what the scrub of each
  device reports is not modelled; the dispatch takes it as an argument.
\<close>

section \<open>State and results\<close>

record world = channel +
  w_node :: node
  w_sys :: sys
  w_disk :: "bool list"

datatype failure = FailError error_detail | FailClose connection_end

type_synonym 'a handler = "(world, failure, 'a) act"

definition disk_ok :: "world \<Rightarrow> bool" where
  "disk_ok w = (case w_disk w of [] \<Rightarrow> True | b # _ \<Rightarrow> b)"

definition device_error_detail :: "device_error \<Rightarrow> error_detail" where
  "device_error_detail e = error_detail_new (case e of
     DevIo IoNotFound \<Rightarrow> EcNotFound
   | DevShardFile SfIoNotFound \<Rightarrow> EcNotFound
   | DevIo _ \<Rightarrow> EcDeviceUnavailable
   | DevUnavailable \<Rightarrow> EcDeviceUnavailable
   | DevRecord _ \<Rightarrow> EcRecordsInconsistent
   | DevRecordExists _ _ \<Rightarrow> EcWriteFailed
   | DevShardFile _ \<Rightarrow> EcWriteFailed
   | DevBadObjectSize _ \<Rightarrow> EcWriteFailed
   | _ \<Rightarrow> EcInternal)"

definition node_error_detail :: "node_error \<Rightarrow> error_detail" where
  "node_error_detail e = error_detail_new (case e of
     NeNotNewer _ _ \<Rightarrow> EcDocumentVersionMismatch
   | NeWrongCluster _ _ \<Rightarrow> EcDocumentVersionMismatch
   | NeInvalidDocument _ \<Rightarrow> EcProtocolViolation
   | _ \<Rightarrow> EcInternal)"

definition with_device :: "error_detail \<Rightarrow> device_id \<Rightarrow> error_detail" where
  "with_device detail device = detail\<lparr>ed_device := Some device\<rparr>"

fun on_device :: "device_id \<Rightarrow> failure \<Rightarrow> failure" where
  "on_device device (FailError d) = FailError (with_device d device)"
| "on_device device (FailClose e) = FailClose e"

definition reply :: "message \<Rightarrow> unit handler" where
  "reply m = lift_op (\<lambda>e. FailClose (end_of_wire e)) (send m)"

fun respond :: "nat \<Rightarrow> (failure, response) res \<Rightarrow> unit handler" where
  "respond n (Ok r) w = reply (MsgResponse n r) w"
| "respond n (Err (FailError detail)) w =
     op_bind (reply (MsgResponse n (RespError detail))) (\<lambda>_. op_return (Err (FailError detail))) w"
| "respond n (Err (FailClose end)) w = (Err (FailClose end), w)"
| "respond n Panic w = (Panic, w)"

fun task_result :: "(device_error, 'a) res \<Rightarrow> (failure, 'a) res" where
  "task_result (Ok x) = Ok x"
| "task_result (Err e) = Err (FailError (device_error_detail e))"
| "task_result Panic = Err (FailError (error_detail_new EcInternal))"

definition blocking :: "'a op \<Rightarrow> 'a handler" where
  "blocking m w = (case m (w_sys w) of (r, s') \<Rightarrow> (task_result r, w\<lparr>w_sys := s'\<rparr>))"

definition own_device :: "node \<Rightarrow> device_id \<Rightarrow> (failure, device) res" where
  "own_device n i = ok_or (FailError (with_device (error_detail_new EcDeviceUnavailable) i)) (node_device n i)"

definition stream_violation :: "nat \<Rightarrow> world \<Rightarrow> failure \<times> world" where
  "stream_violation n w =
     (FailClose EndProtocolViolation,
      snd (send (MsgResponse n (RespError (error_detail_new EcProtocolViolation))) w))"

section \<open>Pages\<close>

text \<open>One page of a list: at least one entry, and no more than the byte limit allows.\<close>

fun page_loop :: "('a \<Rightarrow> nat option) \<Rightarrow> 'a list \<Rightarrow> nat \<Rightarrow> 'a list \<Rightarrow> (failure, 'a list \<times> bool) res" where
  "page_loop enc [] used page = Ok (page, False)"
| "page_loop enc (x # xs) used page =
     (case enc x of
        None \<Rightarrow> Err (FailError (error_detail_new EcInternal))
      | Some n \<Rightarrow>
          if page \<noteq> [] \<and> used + n > MAX_LIST_PAGE_BYTES then Ok (page, True)
          else page_loop enc xs (used + n) (page @ [x]))"

fun page_of_keys_from :: "nat option \<Rightarrow> key_entry list \<Rightarrow> nat \<Rightarrow> key_entry list \<Rightarrow> key_entry list \<times> bool" where
  "page_of_keys_from limit [] used page = (page, False)"
| "page_of_keys_from limit (e # es) used page =
     (if (case limit of Some l \<Rightarrow> length page \<ge> l | None \<Rightarrow> False) \<or>
         page \<noteq> [] \<and> used + length (ke_key e) > MAX_LIST_PAGE_BYTES
      then (page, True)
      else page_of_keys_from limit es (used + length (ke_key e)) (page @ [e]))"

definition page_of_keys :: "key_entry list \<Rightarrow> nat option \<Rightarrow> key_entry list \<times> bool" where
  "page_of_keys entries limit = page_of_keys_from (map_option (\<lambda>l. max l 1) limit) entries 0 []"

section \<open>Status, lookups and listings\<close>

text \<open>\<open>vfs\<close> gives the numbers of \<open>statvfs\<close> for a device.\<close>

definition local_status_device ::
  "(device \<Rightarrow> nat \<times> nat \<times> nat) \<Rightarrow> cluster_document \<Rightarrow> string option \<Rightarrow> device \<Rightarrow> device_status handler" where
  "local_status_device vfs doc node_label d w =
     (let n = w_node w; (bavail, blocks, frsize) = vfs d;
          status = (\<lambda>available total free. \<lparr>ds_device = dev_id d, ds_node = nd_id n,
            ds_state = (case doc_device doc (dev_id d) of Some e \<Rightarrow> de_state e | None \<Rightarrow> DevRemoved),
            ds_available = available, ds_label = Option.bind (doc_device doc (dev_id d)) de_label,
            ds_node_label = node_label, ds_total_bytes = total, ds_free_bytes = free\<rparr>)
      in case blocking (device_space d (doc_headroom doc) bavail blocks frsize) w of
        (Ok space, w1) \<Rightarrow>
          (Ok (status True (sp_total_bytes space) (sp_free_bytes space)),
           w1\<lparr>w_node := snd (note_availability (dev_id d) True (w_node w1))\<rparr>)
      | (Err (FailError _), w1) \<Rightarrow>
          (Ok (status False 0 0), w1\<lparr>w_node := snd (note_availability (dev_id d) False (w_node w1))\<rparr>)
      | (Err f, w1) \<Rightarrow> (Err f, w1)
      | (Panic, w1) \<Rightarrow> (Panic, w1))"

fun each_device :: "('a \<Rightarrow> 'b handler) \<Rightarrow> 'a list \<Rightarrow> 'b list handler" where
  "each_device f [] w = (Ok [], w)"
| "each_device f (x # xs) w = op_bind (f x) (\<lambda>y. op_bind (each_device f xs) (\<lambda>ys. op_return (Ok (y # ys)))) w"

definition local_status :: "string \<Rightarrow> (device \<Rightarrow> nat \<times> nat \<times> nat) \<Rightarrow> response handler" where
  "local_status build vfs w =
     (let n = w_node w; doc = nd_document n; node_label = Option.bind (doc_node doc (nd_id n)) ne_label;
          closed = map (\<lambda>e. \<lparr>ds_device = de_id e, ds_node = nd_id n, ds_state = de_state e, ds_available = False,
                            ds_label = de_label e, ds_node_label = node_label, ds_total_bytes = 0, ds_free_bytes = 0\<rparr>)
                     (filter (\<lambda>e. de_node e = nd_id n \<and> node_device n (de_id e) = None) (doc_devices doc))
      in op_bind (each_device (local_status_device vfs doc node_label) (nd_devices n)) (\<lambda>devices.
         op_return (Ok (RespLocalStatus (nd_id n) (doc_version doc) (nd_tls n) build (devices @ closed)))) w)"

text \<open>What each device gives; a device that cannot be read is named instead.\<close>

fun gather :: "(device \<Rightarrow> (failure, 'a list) res) \<Rightarrow> device list \<Rightarrow> (failure, 'a list \<times> device_id list) res" where
  "gather f [] = Ok ([], [])"
| "gather f (d # ds) =
     (case f d of
        Ok xs \<Rightarrow> bind_res (gather f ds) (\<lambda>(ys, unread). Ok (xs @ ys, unread))
      | Err (FailError detail) \<Rightarrow>
          if ed_code detail = EcDeviceUnavailable
          then bind_res (gather f ds) (\<lambda>(ys, unread). Ok (ys, dev_id d # unread))
          else Err (FailError (with_device detail (dev_id d)))
      | Err other \<Rightarrow> Err other
      | Panic \<Rightarrow> Panic)"

definition local_lookup ::
  "libs \<Rightarrow> json_lib \<Rightarrow> (located_record \<Rightarrow> nat option) \<Rightarrow> key_hash \<Rightarrow> lookup_cursor option \<Rightarrow> node \<Rightarrow> fs
   \<Rightarrow> (failure, response) res" where
  "local_lookup L J enc key_hash after n fs =
     bind_res (gather (\<lambda>d. bind_res (task_result (read_records L J fs d key_hash)) (\<lambda>found.
         Ok (map (\<lambda>r. \<lparr>lr_device = dev_id d, lr_record = r\<rparr>) found))) (nd_devices n)) (\<lambda>(records, unread).
     let position = (\<lambda>r. (rec_version (lr_record r), lr_device r));
         sorted = sort_key position records;
         rest = (case after of None \<Rightarrow> sorted
                 | Some c \<Rightarrow> filter (\<lambda>r. position r > (lc_version c, lc_device c)) sorted)
     in bind_res (page_loop enc rest 0 []) (\<lambda>(page, truncated).
        Ok (RespLocalLookup page truncated (unavailable_devices n @ unread))))"

text \<open>The page a walk over the records fills: entries, bytes used, cut off, an encoding that failed.\<close>

type_synonym page_state = "device_record list \<times> nat \<times> bool \<times> bool"

fun local_records_step ::
  "(metadata_record \<Rightarrow> nat option) \<Rightarrow> walk_event \<Rightarrow> page_state \<Rightarrow> walk_step \<times> page_state" where
  "local_records_step enc (WalkRecord rc present) (page, used, truncated, failed) =
     (case enc rc of
        None \<Rightarrow> (Stop, (page, used, truncated, True))
      | Some n \<Rightarrow>
          if page \<noteq> [] \<and> used + n > MAX_LIST_PAGE_BYTES then (Stop, (page, used, True, failed))
          else (Continue, (page @ [\<lparr>dr_record = rc, dr_shard_present = present\<rparr>], used + n, truncated, failed)))"
| "local_records_step enc (WalkBad _ _) st = (Continue, st)"

definition local_records ::
  "libs \<Rightarrow> json_lib \<Rightarrow> (metadata_record \<Rightarrow> nat option) \<Rightarrow> device_id \<Rightarrow> record_cursor option \<Rightarrow> node \<Rightarrow> fs
   \<Rightarrow> (failure, response) res" where
  "local_records L J enc device after n fs =
     bind_res (own_device n device) (\<lambda>d.
     bind_res (map_err (on_device (dev_id d)) (task_result
       (walk_records_from L J fs d (map_option (\<lambda>c. (rc_key_hash c, rc_version c)) after)
          (local_records_step enc) ([], 0, False, False)))) (\<lambda>(page, used, truncated, failed).
     if failed then Err (FailError (error_detail_new EcInternal))
     else Ok (RespLocalRecords page truncated)))"

text \<open>The counts of one walk; the computation of a shard's size may panic, which ends the walk.\<close>

fun count_record :: "walk_event \<Rightarrow> (unit, device_counts \<times> key_hash list) res \<Rightarrow> (unit, device_counts \<times> key_hash list) res" where
  "count_record (WalkRecord rc _) (Ok (c, keys)) =
     (let c = c\<lparr>cn_versions := wrap64 (cn_versions c + 1)\<rparr>; keys = List.insert (rec_key_hash rc) keys in
      case record_scheme rc of
        Ok scheme \<Rightarrow>
          (case (shard_geometry scheme (rec_block_size rc) (rec_size rc), shard_file_length scheme (rec_block_size rc) (rec_size rc)) of
             (Ok geometry, Ok len) \<Rightarrow>
               Ok (c\<lparr>cn_blocks := (case geometry of Some g \<Rightarrow> wrap64 (cn_blocks c + geo_block_count g) | None \<Rightarrow> cn_blocks c),
                     cn_shard_bytes := wrap64 (cn_shard_bytes c + (case len of Some l \<Rightarrow> l | None \<Rightarrow> 0))\<rparr>, keys)
           | _ \<Rightarrow> Panic)
      | _ \<Rightarrow> Ok (c, keys))"
| "count_record _ st = st"

definition local_device_contents ::
  "libs \<Rightarrow> json_lib \<Rightarrow> device_id \<Rightarrow> node \<Rightarrow> fs \<Rightarrow> (failure, response) res" where
  "local_device_contents L J device n fs =
     bind_res (own_device n device) (\<lambda>d.
     bind_res (map_err (on_device (dev_id d)) (task_result
       (bind_res (walk_records_from L J fs d None (\<lambda>e st. case count_record e st of
             Ok counted \<Rightarrow> (Continue, Ok counted) | failed \<Rightarrow> (Stop, failed))
           (Ok (\<lparr>cn_versions = 0, cn_keys = 0, cn_blocks = 0, cn_shard_bytes = 0\<rparr>, []))) (\<lambda>st.
        case st of Ok (c, keys) \<Rightarrow> Ok (c\<lparr>cn_keys := length keys\<rparr>) | _ \<Rightarrow> Panic)))) (\<lambda>counts.
     Ok (RespLocalDeviceContents counts)))"

fun list_record :: "string option \<Rightarrow> walk_event \<Rightarrow> key_entry list \<Rightarrow> key_entry list" where
  "list_record prefix (WalkRecord rc _) out =
     (if (case prefix of Some p \<Rightarrow> starts_with p (rec_key rc) | None \<Rightarrow> True)
      then out @ [\<lparr>ke_key = rec_key rc, ke_size = rec_size rc, ke_version = rec_version rc\<rparr>] else out)"
| "list_record prefix (WalkBad _ _) out = out"

text \<open>Removing an entry that has the key and version of the entry kept before it.\<close>

fun dedup_entries :: "key_entry list \<Rightarrow> key_entry list" where
  "dedup_entries [] = []"
| "dedup_entries [e] = [e]"
| "dedup_entries (e # f # es) =
     (if ke_key f = ke_key e \<and> ke_version f = ke_version e then dedup_entries (e # es) else e # dedup_entries (f # es))"

definition list_entries :: "key_entry list \<Rightarrow> string option \<Rightarrow> key_entry list" where
  "list_entries entries start_after =
     (let entries = dedup_entries (sort_key (\<lambda>e. (ke_key e, ke_version e)) entries)
      in case start_after of Some after \<Rightarrow> filter (\<lambda>e. ke_key e > after) entries | None \<Rightarrow> entries)"

definition local_list :: "libs \<Rightarrow> json_lib \<Rightarrow> list_query \<Rightarrow> node \<Rightarrow> fs \<Rightarrow> (failure, response) res" where
  "local_list L J query n fs =
     bind_res (gather (\<lambda>d. task_result (walk_records L J fs d (list_record (lq_prefix query)) [])) (nd_devices n)) (\<lambda>(found, unread).
     let (entries, truncated) = page_of_keys (list_entries found (lq_start_after query)) (lq_limit query)
     in Ok (RespLocalList entries truncated (unavailable_devices n @ unread)))"

section \<open>Shards\<close>

definition write_key :: "put_shard_params \<Rightarrow> shard_write_key" where
  "write_key p = \<lparr>sk_device = ps_device p, sk_key_hash = ps_key_hash p, sk_version = ps_version p,
     sk_shard_index = ps_shard_index p\<rparr>"

text \<open>Leaving a write: the temporary file goes with the write, the claim with its guard.\<close>

definition abandon_write :: "put_shard_params \<Rightarrow> shard_write \<Rightarrow> world \<Rightarrow> world" where
  "abandon_write p write w = w\<lparr>w_sys := shard_drop write (w_sys w), w_node := guard_drop (write_key p) (w_node w)\<rparr>"

definition violate :: "nat \<Rightarrow> put_shard_params \<Rightarrow> shard_write \<Rightarrow> unit handler" where
  "violate n p write w = (case stream_violation n w of (f, w') \<Rightarrow> (Err f, abandon_write p write w'))"

definition put_shard_finish :: "libs \<Rightarrow> nat \<Rightarrow> put_shard_params \<Rightarrow> shard_write \<Rightarrow> stream_end \<Rightarrow> unit handler" where
  "put_shard_finish L n p write end w =
     (if se_error end \<noteq> None
      then respond n (Err (FailError (error_detail_new EcWriteFailed))) (abandon_write p write w)
      else case (se_object_size end, se_object_checksum end) of
        (Some sz, Some checksum) \<Rightarrow>
          if sz \<noteq> ps_object_size p then violate n p write w
          else (case shard_finish L (disk_ok w) sz checksum write (w_sys w) of
            (r, s') \<Rightarrow>
              respond n (bind_res (map_err (on_device (ps_device p)) (task_result r)) (\<lambda>_. Ok RespPutShardDone))
                (w\<lparr>w_sys := s', w_disk := tl (w_disk w), w_node := guard_drop (write_key p) (w_node w)\<rparr>))
      | _ \<Rightarrow> violate n p write w)"

function put_shard_loop :: "libs \<Rightarrow> nat \<Rightarrow> put_shard_params \<Rightarrow> nat \<Rightarrow> shard_write \<Rightarrow> unit handler" where
  "put_shard_loop L n p expected_stripe write w =
     (case receive w of
        (Err e, w1) \<Rightarrow> (Err (FailClose (end_of_wire e)), abandon_write p write w1)
      | (Panic, w1) \<Rightarrow> (Panic, abandon_write p write w1)
      | (Ok m, w1) \<Rightarrow>
          (case m of
             MsgData got data \<Rightarrow>
               if got \<noteq> n \<or> df_sequence data \<noteq> expected_stripe then violate n p write w1
               else (case shard_append L (disk_ok w1)
                   \<lparr>sb_index = ps_shard_index p, sb_bytes = df_bytes data, sb_checksum = df_checksum data\<rparr> write (w_sys w1) of
                 (Ok write', s') \<Rightarrow>
                   put_shard_loop L n p (Suc expected_stripe) write' (w1\<lparr>w_sys := s', w_disk := tl (w_disk w1)\<rparr>)
               | (_, s') \<Rightarrow> violate n p write (w1\<lparr>w_sys := s', w_disk := tl (w_disk w1)\<rparr>))
           | MsgEndOfStream got end \<Rightarrow>
               if got \<noteq> n then violate n p write w1 else put_shard_finish L n p write end w1
           | _ \<Rightarrow> violate n p write w1))"
  by pat_completeness auto

lemma receive_consumes: "receive c = (Ok m, c') \<Longrightarrow> length (ch_in c) = Suc (length (ch_in c'))"
  by (auto simp: receive_def split: list.splits incoming.splits)

termination put_shard_loop
  by (relation "measure (\<lambda>(L, n, p, e, write, w). length (ch_in w))") (auto dest!: receive_consumes [OF sym])

declare put_shard_loop.simps [simp del]

definition put_shard :: "libs \<Rightarrow> nat \<Rightarrow> put_shard_params \<Rightarrow> unit handler" where
  "put_shard L n p w =
     (case own_device (w_node w) (ps_device p) of
        Err f \<Rightarrow> respond n (Err f) w
      | Panic \<Rightarrow> (Panic, w)
      | Ok d \<Rightarrow>
          if map_option de_state (doc_device (nd_document (w_node w)) (ps_device p)) \<noteq> Some DevActive
          then respond n (Err (FailError (with_device (error_detail_new EcWriteFailed) (ps_device p)))) w
          else case scheme_new (ps_k p) (ps_m p) of
            Err e \<Rightarrow> respond n (Err (FailError (error_detail_new EcProtocolViolation))) w
          | Panic \<Rightarrow> (Panic, w)
          | Ok scheme \<Rightarrow>
              if \<not> scheme_contains scheme (ps_shard_index p)
              then respond n (Err (FailError (error_detail_new EcProtocolViolation))) w
              else case begin_shard_write (write_key p) (w_node w) of
                None \<Rightarrow> respond n (Err (FailError (with_device ((error_detail_new EcWriteFailed)
                          \<lparr>ed_version := Some (ps_version p), ed_shard_index := Some (ps_shard_index p)\<rparr>) (ps_device p)))) w
              | Some node' \<Rightarrow>
                  let header = \<lparr>sfh_scheme = scheme, sfh_shard_index = ps_shard_index p, sfh_block_length = ps_block_length p,
                                sfh_key_hash = ps_key_hash p, sfh_version_id = ps_version p\<rparr>;
                      release = (\<lambda>w. w\<lparr>w_node := guard_drop (write_key p) (w_node w)\<rparr>);
                      w1 = w\<lparr>w_node := node', w_disk := tl (w_disk w)\<rparr>
                  in case blocking (begin_shard L (disk_ok w) d (ps_key_hash p) header (ps_object_size p)) w1 of
                    (Err f, w2) \<Rightarrow> (case respond n (Err (on_device (ps_device p) f)) w2 of (r, w3) \<Rightarrow> (r, release w3))
                  | (Panic, w2) \<Rightarrow> (Panic, release w2)
                  | (Ok write, w2) \<Rightarrow>
                      (case respond n (Ok RespPutShardReady) w2 of
                         (Ok _, w3) \<Rightarrow> put_shard_loop L n p 0 write w3
                       | (r, w3) \<Rightarrow> (r, abandon_write p write w3)))"

fun send_shard_blocks ::
  "nat \<Rightarrow> shard_file_reader \<Rightarrow> device_id \<Rightarrow> version_id \<Rightarrow> nat \<Rightarrow> nat list \<Rightarrow> unit handler" where
  "send_shard_blocks n reader device version index [] w = reply (MsgEndOfStream n stream_end_ok) w"
| "send_shard_blocks n reader device version index (b # bs) w =
     (case task_result (map_err DevShardFile (read_block reader b)) of
        Ok block \<Rightarrow>
          op_bind (reply (MsgData n \<lparr>df_sequence = b, df_checksum = sb_checksum block, df_bytes = sb_bytes block\<rparr>)) (\<lambda>_.
          send_shard_blocks n reader device version index bs) w
      | Err (FailError d) \<Rightarrow>
          let detail = d\<lparr>ed_device := Some device, ed_version := Some version, ed_shard_index := Some index, ed_stripe := Some b\<rparr>
          in op_bind (reply (MsgEndOfStream n (stream_end_failed detail))) (\<lambda>_. op_return (Err (FailError detail))) w
      | Err f \<Rightarrow> (Err f, w)
      | Panic \<Rightarrow> (Panic, w))"

definition get_shard ::
  "libs \<Rightarrow> nat \<Rightarrow> device_id \<Rightarrow> key_hash \<Rightarrow> version_id \<Rightarrow> nat \<Rightarrow> nat \<Rightarrow> nat \<Rightarrow> unit handler" where
  "get_shard L n device key_hash version index first_block block_count w =
     (case bind_res (own_device (w_node w) device) (\<lambda>d.
          map_err (on_device device) (task_result (open_shard L (sys_fs (w_sys w)) d key_hash version index))) of
        Err f \<Rightarrow> respond n (Err f) w
      | Panic \<Rightarrow> (Panic, w)
      | Ok reader \<Rightarrow>
          if first_block + block_count \<ge> u64_modulus \<or> first_block + block_count > sff_block_count (sr_footer reader)
          then respond n (Err (FailError (error_detail_new EcProtocolViolation))) w
          else op_bind (respond n (Ok (RespGetShard block_count))) (\<lambda>_.
               send_shard_blocks n reader device version index [first_block..<first_block + block_count]) w)"

section \<open>Records\<close>

definition put_meta :: "libs \<Rightarrow> json_lib \<Rightarrow> device_id \<Rightarrow> metadata_record \<Rightarrow> response handler" where
  "put_meta L J device rc w =
     op_bind (op_return (own_device (w_node w) device)) (\<lambda>d.
     op_bind (lift_op (on_device device) (blocking (write_record L J d rc))) (\<lambda>_.
     op_return (Ok RespPutMeta))) w"

definition get_meta ::
  "libs \<Rightarrow> json_lib \<Rightarrow> device_id \<Rightarrow> key_hash \<Rightarrow> version_id \<Rightarrow> bool \<Rightarrow> node \<Rightarrow> fs \<Rightarrow> (failure, response) res" where
  "get_meta L J device key_hash version probe n fs =
     bind_res (own_device n device) (\<lambda>d.
     bind_res (map_err (on_device device) (task_result (case read_record L J fs d key_hash version of
         Ok rc \<Rightarrow> Ok (Some rc)
       | Err (DevIo IoNotFound) \<Rightarrow> Ok None
       | Err e \<Rightarrow> Err e
       | Panic \<Rightarrow> Panic))) (\<lambda>rc.
     Ok (RespGetMeta rc (if probe
       then Some (case Option.bind rc (\<lambda>r. shard_on r device) of
               Some index \<Rightarrow> is_file fs (shard_path d key_hash version index) | None \<Rightarrow> False)
       else None))))"

definition handle_delete_version :: "device_id \<Rightarrow> key_hash \<Rightarrow> version_id \<Rightarrow> response handler" where
  "handle_delete_version device key_hash version w =
     op_bind (op_return (own_device (w_node w) device)) (\<lambda>d.
     op_bind (lift_op (on_device device) (blocking (delete_version d key_hash version))) (\<lambda>_.
     op_return (Ok RespDeleteVersion))) w"

definition abort_shard :: "device_id \<Rightarrow> key_hash \<Rightarrow> version_id \<Rightarrow> nat \<Rightarrow> response handler" where
  "abort_shard device key_hash version index w =
     op_bind (op_return (own_device (w_node w) device)) (\<lambda>d.
     op_bind (lift_op (on_device device) (blocking
       (op_bind (remove_temporary_shard d key_hash version index) (\<lambda>_. delete_version d key_hash version)))) (\<lambda>_.
     op_return (Ok RespAbortShard))) w"

section \<open>Dispatch\<close>

record local_env =
  le_libs :: libs
  le_json :: json_lib
  le_documents :: document_lib
  le_build :: string
  le_vfs :: "device \<Rightarrow> nat \<times> nat \<times> nat"
  le_located_size :: "located_record \<Rightarrow> nat option"
  le_record_size :: "metadata_record \<Rightarrow> nat option"
  le_scrub :: "nat \<Rightarrow> nat option \<Rightarrow> unit handler"

definition apply_config :: "local_env \<Rightarrow> cluster_document \<Rightarrow> response handler" where
  "apply_config E doc w =
     (case apply_document (le_json E) (le_documents E) doc (w_node w, w_sys w) of
        (r, (node', s')) \<Rightarrow>
          (bind_res (map_err (\<lambda>e. FailError (node_error_detail e)) r) (\<lambda>_. Ok RespApplyClusterConfig),
           w\<lparr>w_node := node', w_sys := s'\<rparr>))"

definition answer :: "nat \<Rightarrow> response handler \<Rightarrow> unit handler" where
  "answer n h w = (case h w of (r, w') \<Rightarrow> respond n r w')"

definition local_request :: "local_env \<Rightarrow> nat \<Rightarrow> request \<Rightarrow> unit handler" where
  "local_request E n request w =
     (let L = le_libs E; J = le_json E; node = w_node w; fs = sys_fs (w_sys w) in
      case request of
        ReqLocalStatus \<Rightarrow> answer n (local_status (le_build E) (le_vfs E)) w
      | ReqLocalLookup key_hash after \<Rightarrow> respond n (local_lookup L J (le_located_size E) key_hash after node fs) w
      | ReqLocalList query \<Rightarrow> respond n (local_list L J query node fs) w
      | ReqLocalRecords device after \<Rightarrow> respond n (local_records L J (le_record_size E) device after node fs) w
      | ReqLocalDeviceContents device \<Rightarrow> respond n (local_device_contents L J device node fs) w
      | ReqLocalScrub max_bytes_per_second \<Rightarrow> le_scrub E n max_bytes_per_second w
      | ReqPutShard p \<Rightarrow> put_shard L n p w
      | ReqGetShard device key_hash version index first_block block_count \<Rightarrow>
          get_shard L n device key_hash version index first_block block_count w
      | ReqPutMeta device rc \<Rightarrow> answer n (put_meta L J device rc) w
      | ReqGetMeta device key_hash version probe \<Rightarrow> respond n (get_meta L J device key_hash version probe node fs) w
      | ReqDeleteVersion device key_hash version \<Rightarrow> answer n (handle_delete_version device key_hash version) w
      | ReqAbortShard device key_hash version index \<Rightarrow> answer n (abort_shard device key_hash version index) w
      | ReqGetClusterConfig \<Rightarrow> respond n (Ok (RespGetClusterConfig (nd_document node))) w
      | ReqApplyClusterConfig doc \<Rightarrow> answer n (apply_config E doc) w
      | _ \<Rightarrow> respond n (Err (FailError (error_detail_new EcProtocolViolation))) w)"

definition local_handle :: "local_env \<Rightarrow> nat \<Rightarrow> request \<Rightarrow> (world, connection_end, unit) act" where
  "local_handle E n request w =
     (case local_request E n request w of
        (Ok _, w') \<Rightarrow> (Ok (), w')
      | (Err (FailError _), w') \<Rightarrow> (Ok (), w')
      | (Err (FailClose end), w') \<Rightarrow> (Err end, w')
      | (Panic, w') \<Rightarrow> (Panic, w'))"

section \<open>A shard written and read over the wire\<close>

abbreviation block_frame :: "nat \<Rightarrow> shard_block \<Rightarrow> data_frame" where
  "block_frame i b \<equiv> \<lparr>df_sequence = i, df_checksum = sb_checksum b, df_bytes = sb_bytes b\<rparr>"

fun block_messages :: "nat \<Rightarrow> nat \<Rightarrow> shard_block list \<Rightarrow> message list" where
  "block_messages n i [] = []"
| "block_messages n i (b # bs) = MsgData n (block_frame i b) # block_messages n (Suc i) bs"

lemma length_block_messages [simp]: "length (block_messages n i bs) = length bs"
  by (induction bs arbitrary: i) auto

lemma block_messages_append: "block_messages n i (bs @ cs) = block_messages n i bs @ block_messages n (i + length bs) cs"
  by (induction bs arbitrary: i) auto

definition put_end :: "nat \<Rightarrow> block_checksum \<Rightarrow> stream_end" where
  "put_end osize osum = \<lparr>se_error = None, se_object_size = Some osize, se_object_checksum = Some osum,
     se_reconstructed = [], se_missing_records = []\<rparr>"

definition put_request_messages :: "nat \<Rightarrow> shard_block list \<Rightarrow> nat \<Rightarrow> block_checksum \<Rightarrow> message list" where
  "put_request_messages n blocks osize osum = block_messages n 0 blocks @ [MsgEndOfStream n (put_end osize osum)]"

definition get_reply_messages :: "nat \<Rightarrow> shard_block list \<Rightarrow> message list" where
  "get_reply_messages n blocks = MsgResponse n (RespGetShard (length blocks)) #
     block_messages n 0 blocks @ [MsgEndOfStream n stream_end_ok]"

lemma send_blocks_Ok:
  "length bs \<le> ch_room c \<Longrightarrow> send_blocks n i bs c =
     (Ok (), c\<lparr>ch_out := ch_out c @ block_messages n i bs, ch_room := ch_room c - length bs\<rparr>)"
  by (induction bs arbitrary: i c) (simp_all add: send_data_def channel_defs)

lemma receive_blocks_Ok:
  "ch_in c = map Arrives (block_messages n i bs) @ Arrives (MsgEndOfStream n stream_end_ok) # rest \<Longrightarrow>
   \<forall>b\<in>set bs. sb_index b = index \<Longrightarrow>
   receive_blocks n index acc c = (Ok (acc @ bs), c\<lparr>ch_in := rest\<rparr>)"
proof (induction bs arbitrary: i acc c)
  case Nil
  then show ?case by (subst receive_blocks.simps) (simp add: read_stream_item_cases stream_end_ok_def)
next
  case (Cons b bs)
  have b: "\<lparr>sb_index = index, sb_bytes = sb_bytes b, sb_checksum = sb_checksum b\<rparr> = b" using Cons.prems(2) by simp
  show ?case
    using Cons.IH [of "c\<lparr>ch_in := map Arrives (block_messages n (Suc i) bs) @ Arrives (MsgEndOfStream n stream_end_ok) # rest\<rparr>"
        "Suc i" "acc @ [b]"] Cons.prems
    by (subst receive_blocks.simps) (simp add: read_stream_item_cases b)
qed

lemma w_disk_same: "w_disk w = [] \<Longrightarrow> w\<lparr>w_disk := []\<rparr> = w"
  by (cases w) simp

lemma put_shard_loop_blocks:
  assumes "shard_appends L blocks wr (w_sys w) = (Ok wr', s')" "w_disk w = []"
    "\<forall>b\<in>set blocks. sb_index b = ps_shard_index p" "ch_in w = map Arrives (block_messages n i blocks) @ rest"
  shows "put_shard_loop L n p i wr w =
    put_shard_loop L n p (i + length blocks) wr' (w\<lparr>ch_in := rest, w_sys := s'\<rparr>)"
  using assms
proof (induction blocks arbitrary: i wr w)
  case Nil
  then show ?case by (auto simp: op_return_def)
next
  case (Cons b bs)
  have b: "\<lparr>sb_index = ps_shard_index p, sb_bytes = sb_bytes b, sb_checksum = sb_checksum b\<rparr> = b" using Cons.prems(3) by simp
  obtain w1 s1 where s1: "shard_append L True b wr (w_sys w) = (Ok w1, s1)" "shard_appends L bs w1 s1 = (Ok wr', s')"
    using Cons.prems(1) by (auto simp: op_bind_def split: prod.splits res.splits)
  show ?case
    using Cons.IH [of w1 "w\<lparr>ch_in := map Arrives (block_messages n (Suc i) bs) @ rest, w_sys := s1\<rparr>" "Suc i"] Cons.prems s1
    by (subst put_shard_loop.simps) (simp add: receive_def b disk_ok_def w_disk_same)
qed

lemma send_shard_blocks_Ok:
  assumes "\<forall>i < length bs. read_block r (k + i) = Ok (bs ! i)" "length bs < ch_room w"
  shows "send_shard_blocks n r device version index [k..<k + length bs] w =
    (Ok (), w\<lparr>ch_out := ch_out w @ block_messages n k bs @ [MsgEndOfStream n stream_end_ok], ch_room := ch_room w - Suc (length bs)\<rparr>)"
  using assms
proof (induction bs arbitrary: k w)
  case Nil
  then show ?case by (simp add: reply_def channel_defs)
next
  case (Cons b bs)
  have up: "[k..<k + length (b # bs)] = k # [Suc k..<Suc k + length bs]" by (simp add: upt_rec)
  have "read_block r k = Ok b" using Cons.prems(1) by (auto dest: spec [of _ 0])
  moreover have "\<forall>i < length bs. read_block r (Suc k + i) = Ok (bs ! i)"
    using Cons.prems(1) by (auto dest: spec [of _ "Suc _"])
  ultimately show ?case unfolding up
    using Cons.IH [of "Suc k" "w\<lparr>ch_out := ch_out w @ [MsgData n (block_frame k b)], ch_room := ch_room w - 1\<rparr>"] Cons.prems(2)
    by (simp add: reply_def channel_defs)
qed

text \<open>The two ends of each conversation, given what the other end sends.\<close>

lemma conn_put_shard_messages:
  assumes "ch_in c = map Arrives [MsgResponse (cn_next_request_id c) RespPutShardReady, MsgResponse (cn_next_request_id c) RespPutShardDone]"
    and "length blocks + 2 \<le> ch_room c"
  shows "\<exists>c'. conn_put_shard request blocks osize osum c = (Ok (), c') \<and>
    ch_out c' = ch_out c @ MsgRequest (cn_next_request_id c) request # put_request_messages (cn_next_request_id c) blocks osize osum"
  using assms
  by (simp add: conn_put_shard_def send_request_def allocate_request_id_def expect_response_def read_response_def
      channel_defs send_blocks_Ok send_end_def put_request_messages_def put_end_def)

lemma conn_get_shard_messages:
  assumes "ch_in c = map Arrives (get_reply_messages (cn_next_request_id c) blocks)" "0 < ch_room c"
    and "\<forall>b\<in>set blocks. sb_index b = index"
  shows "\<exists>c'. conn_get_shard request index c = (Ok blocks, c') \<and>
    ch_out c' = ch_out c @ [MsgRequest (cn_next_request_id c) request]"
  using assms
  by (simp add: conn_get_shard_def send_request_def allocate_request_id_def expect_response_def read_response_def
      channel_defs get_reply_messages_def receive_blocks_Ok [where i = 0 and rest = "[]"])

definition params_header :: "put_shard_params \<Rightarrow> scheme \<Rightarrow> shard_file_header" where
  "params_header p scheme = \<lparr>sfh_scheme = scheme, sfh_shard_index = ps_shard_index p, sfh_block_length = ps_block_length p,
     sfh_key_hash = ps_key_hash p, sfh_version_id = ps_version p\<rparr>"

text \<open>A node takes a shard: the device is its own and active, and nobody else is writing the shard.\<close>

definition takes_shard :: "world \<Rightarrow> put_shard_params \<Rightarrow> device \<Rightarrow> scheme \<Rightarrow> bool" where
  "takes_shard w p d scheme \<longleftrightarrow> node_device (w_node w) (ps_device p) = Some d \<and>
     map_option de_state (doc_device (nd_document (w_node w)) (ps_device p)) = Some DevActive \<and>
     scheme_new (ps_k p) (ps_m p) = Ok scheme \<and> scheme_contains scheme (ps_shard_index p) \<and>
     write_key p \<notin> set (nd_writes_in_flight (w_node w)) \<and> w_disk w = []"

lemma put_shard_run:
  assumes node: "takes_shard w p d scheme" and room: "2 \<le> ch_room w"
    and run: "begin_shard L True d (ps_key_hash p) (params_header p scheme) (ps_object_size p) (w_sys w) = (Ok wr, s1)"
      "shard_appends L blocks wr s1 = (Ok wr', s2)" "shard_finish L True (ps_object_size p) osum wr' s2 = (Ok footer, s3)"
    and idx: "\<forall>b\<in>set blocks. sb_index b = ps_shard_index p"
    and msgs: "ch_in w = map Arrives (put_request_messages n blocks (ps_object_size p) osum)"
  shows "put_shard L n p w = (Ok (), w\<lparr>ch_in := [], ch_out := ch_out w @ [MsgResponse n RespPutShardReady, MsgResponse n RespPutShardDone],
    ch_room := ch_room w - 2, w_sys := s3\<rparr>)"
proof -
  let ?w2 = "w\<lparr>w_node := (w_node w)\<lparr>nd_writes_in_flight := write_key p # nd_writes_in_flight (w_node w)\<rparr>, w_disk := [],
    w_sys := s1, ch_out := ch_out w @ [MsgResponse n RespPutShardReady], ch_room := ch_room w - 1\<rparr>"
  have clean: "guard_drop (write_key p) ((w_node w)\<lparr>nd_writes_in_flight := write_key p # nd_writes_in_flight (w_node w)\<rparr>) = w_node w"
    using node by (simp add: guard_drop_def takes_shard_def removeAll_id)
  have "put_shard L n p w = put_shard_loop L n p 0 wr ?w2"
    using node room run(1)
    by (simp add: put_shard_def takes_shard_def own_device_def begin_shard_write_def blocking_def disk_ok_def
        params_header_def reply_def channel_defs Let_def)
  also have "\<dots> = put_shard_loop L n p (0 + length blocks) wr'
      (?w2\<lparr>ch_in := [Arrives (MsgEndOfStream n (put_end (ps_object_size p) osum))], w_sys := s2\<rparr>)"
    by (rule put_shard_loop_blocks)
      (use node run(2) idx msgs in \<open>simp_all add: takes_shard_def put_request_messages_def\<close>)
  also have "\<dots> = (Ok (), w\<lparr>ch_in := [], ch_out := ch_out w @ [MsgResponse n RespPutShardReady, MsgResponse n RespPutShardDone],
    ch_room := ch_room w - 2, w_sys := s3\<rparr>)"
    using node room run(3)
    by (subst put_shard_loop.simps)
      (simp add: receive_def put_shard_finish_def put_end_def disk_ok_def takes_shard_def reply_def channel_defs clean)
  finally show ?thesis .
qed

lemma get_shard_run:
  assumes "node_device (w_node w) device = Some d" "open_shard L (sys_fs (w_sys w)) d h v i = Ok r"
    "sff_block_count (sr_footer r) = length blocks" "\<forall>j < length blocks. read_block r j = Ok (blocks ! j)"
    "length blocks < u64_modulus" "length blocks + 2 \<le> ch_room w"
  shows "get_shard L n device h v i 0 (length blocks) w =
    (Ok (), w\<lparr>ch_out := ch_out w @ get_reply_messages n blocks, ch_room := ch_room w - (length blocks + 2)\<rparr>)"
  using assms send_shard_blocks_Ok [of blocks r 0 "w\<lparr>ch_out := ch_out w @ [MsgResponse n (RespGetShard (length blocks))],
      ch_room := ch_room w - 1\<rparr>" n device v i]
  by (simp add: get_shard_def own_device_def reply_def channel_defs get_reply_messages_def)

text \<open>C8: A shard written over the wire comes back over the wire.  Let a node take shards for a device
  and a peer upload the blocks of a shard in one conversation, each side receiving exactly what the
  other sent.  Both sides finish without an error.  In any later conversation in which a peer asks
  this node for all blocks of the shard, both sides finish again, and the peer is given the very
  blocks that were uploaded.\<close>

theorem shard_travels:
  assumes node: "takes_shard w p d scheme" and room: "2 \<le> ch_room w" "length blocks + 2 \<le> ch_room c"
    and fresh: "sys_fresh (w_sys w)" and ready: "device_ready (sys_fs (w_sys w)) d (ps_key_hash p)"
    and h: "header_wf (params_header p scheme)" and osize: "ps_object_size p < u64_modulus"
    and geo: "shard_geometry scheme (ps_block_length p) (ps_object_size p) = Ok (Some g)"
    and n: "shard_file_length scheme (ps_block_length p) (ps_object_size p) = Ok (Some len)"
    and blocks: "length blocks = geo_block_count g" "blocks \<noteq> []"
      "blocks_for (le_libs E) (params_header p scheme) (geo_last_block_length g) blocks"
    and last: "0 < geo_last_block_length g" "geo_last_block_length g \<le> ps_block_length p"
    and small: "4152 + length (concat (map sb_bytes blocks)) + 8 * length blocks < u64_modulus"
    and final: "\<not> is_dir (sys_fs (w_sys w)) (header_path d (ps_key_hash p) (params_header p scheme))"
  shows "\<exists>stream replies c' w'.
    conn_put_shard (ReqPutShard p) blocks (ps_object_size p) osum (c\<lparr>ch_in := map Arrives replies\<rparr>) = (Ok (), c') \<and>
    ch_out c' = ch_out c @ MsgRequest (cn_next_request_id c) (ReqPutShard p) # stream \<and>
    local_handle E (cn_next_request_id c) (ReqPutShard p) (w\<lparr>ch_in := map Arrives stream\<rparr>) = (Ok (), w') \<and>
    ch_out w' = ch_out w @ replies \<and>
    (\<forall>c2 w2. w_sys w2 = w_sys w' \<and> w_node w2 = w_node w' \<and> 0 < ch_room c2 \<and> length blocks + 2 \<le> ch_room w2 \<longrightarrow>
      (let request = ReqGetShard (ps_device p) (ps_key_hash p) (ps_version p) (ps_shard_index p) 0 (length blocks) in
       \<exists>answer c3 w3. local_handle E (cn_next_request_id c2) request w2 = (Ok (), w3) \<and> ch_out w3 = ch_out w2 @ answer \<and>
         conn_get_shard request (ps_shard_index p) (c2\<lparr>ch_in := map Arrives answer\<rparr>) = (Ok blocks, c3) \<and>
         ch_out c3 = ch_out c2 @ [MsgRequest (cn_next_request_id c2) request]))"
proof -
  let ?H = "params_header p scheme" and ?n = "cn_next_request_id c"
  let ?stream = "put_request_messages ?n blocks (ps_object_size p) osum"
  let ?replies = "[MsgResponse ?n RespPutShardReady, MsgResponse ?n RespPutShardDone]"
  have fields: "sfh_scheme ?H = scheme" "sfh_block_length ?H = ps_block_length p" "sfh_version_id ?H = ps_version p"
    "sfh_shard_index ?H = ps_shard_index p"
    by (simp_all add: params_header_def)
  have idx: "\<forall>b\<in>set blocks. sb_index b = ps_shard_index p" using blocks(3) fields by (simp add: blocks_for_def)
  obtain wr s1 wr' s2 footer s' r where run:
    "begin_shard (le_libs E) True d (ps_key_hash p) ?H (ps_object_size p) (w_sys w) = (Ok wr, s1)"
    "shard_appends (le_libs E) blocks wr s1 = (Ok wr', s2)"
    "shard_finish (le_libs E) True (ps_object_size p) osum wr' s2 = (Ok footer, s')"
    "open_shard (le_libs E) (sys_fs s') d (ps_key_hash p) (ps_version p) (ps_shard_index p) = Ok r"
    "sr_footer r = footer" "sff_block_count footer = length blocks" "\<forall>i < length blocks. read_block r i = Ok (blocks ! i)"
    using write_shard_steps [OF fresh ready h osize _ _ blocks last(1) _ small final, of len osum]
    unfolding fields using geo n last(2) by metis
  let ?w' = "w\<lparr>ch_in := [], ch_out := ch_out w @ ?replies, ch_room := ch_room w - 2, w_sys := s'\<rparr>"
  have "put_shard (le_libs E) ?n p (w\<lparr>ch_in := map Arrives ?stream\<rparr>) = (Ok (), ?w')"
    using put_shard_run [of "w\<lparr>ch_in := map Arrives ?stream\<rparr>" p d scheme, OF _ _ _ run(2,3) idx] node room(1) run(1)
    by (simp add: takes_shard_def)
  then have server: "local_handle E ?n (ReqPutShard p) (w\<lparr>ch_in := map Arrives ?stream\<rparr>) = (Ok (), ?w')"
    by (simp add: local_handle_def local_request_def)
  obtain c' where client:
    "conn_put_shard (ReqPutShard p) blocks (ps_object_size p) osum (c\<lparr>ch_in := map Arrives ?replies\<rparr>) = (Ok (), c')"
    "ch_out c' = ch_out c @ MsgRequest ?n (ReqPutShard p) # ?stream"
    using conn_put_shard_messages [of "c\<lparr>ch_in := map Arrives ?replies\<rparr>" blocks "ReqPutShard p" "ps_object_size p" osum] room(2)
    by auto
  have later: "\<exists>answer c3 w3. local_handle E (cn_next_request_id c2) (ReqGetShard (ps_device p) (ps_key_hash p) (ps_version p) (ps_shard_index p) 0 (length blocks)) w2 = (Ok (), w3) \<and> ch_out w3 = ch_out w2 @ answer \<and>
      conn_get_shard (ReqGetShard (ps_device p) (ps_key_hash p) (ps_version p) (ps_shard_index p) 0 (length blocks)) (ps_shard_index p) (c2\<lparr>ch_in := map Arrives answer\<rparr>) = (Ok blocks, c3) \<and>
      ch_out c3 = ch_out c2 @ [MsgRequest (cn_next_request_id c2) (ReqGetShard (ps_device p) (ps_key_hash p) (ps_version p) (ps_shard_index p) 0 (length blocks))]"
    if at: "w_sys w2 = s'" "w_node w2 = w_node w" "0 < ch_room c2" "length blocks + 2 \<le> ch_room w2" for c2 w2
  proof -
    let ?answer = "get_reply_messages (cn_next_request_id c2) blocks"
    obtain w3 where "local_handle E (cn_next_request_id c2) (ReqGetShard (ps_device p) (ps_key_hash p) (ps_version p) (ps_shard_index p) 0 (length blocks)) w2 = (Ok (), w3)" "ch_out w3 = ch_out w2 @ ?answer"
      using get_shard_run [of w2 "ps_device p" d "le_libs E" "ps_key_hash p" "ps_version p" "ps_shard_index p" r blocks]
        node run(4-7) small at
      by (simp add: local_handle_def local_request_def takes_shard_def)
    moreover obtain c3 where "conn_get_shard (ReqGetShard (ps_device p) (ps_key_hash p) (ps_version p) (ps_shard_index p) 0 (length blocks)) (ps_shard_index p) (c2\<lparr>ch_in := map Arrives ?answer\<rparr>) = (Ok blocks, c3)"
      "ch_out c3 = ch_out c2 @ [MsgRequest (cn_next_request_id c2) (ReqGetShard (ps_device p) (ps_key_hash p) (ps_version p) (ps_shard_index p) 0 (length blocks))]"
      using conn_get_shard_messages [of "c2\<lparr>ch_in := map Arrives ?answer\<rparr>" blocks "ps_shard_index p"] idx at(3) by auto
    ultimately show ?thesis by blast
  qed
  show ?thesis
    by (rule exI [of _ ?stream], rule exI [of _ ?replies], rule exI [of _ c'], rule exI [of _ ?w'])
      (use server client later in simp)
qed

definition demo_params :: put_shard_params where
  "demo_params = \<lparr>ps_device = 10, ps_key_hash = replicate 32 5, ps_version = replicate 16 9, ps_shard_index = 1,
     ps_k = 2, ps_m = 1, ps_block_length = 2, ps_object_size = 6\<rparr>"

definition demo_env :: local_env where
  "demo_env = \<lparr>le_libs = demo_libs, le_json = demo_json [], le_documents = demo_documents, le_build = [],
     le_vfs = (\<lambda>_. (0, 0, 0)), le_located_size = (\<lambda>_. Some 1000), le_record_size = (\<lambda>_. Some 1000),
     le_scrub = (\<lambda>n _. reply (MsgEndOfStream n stream_end_ok))\<rparr>"

definition demo_world :: "message list \<Rightarrow> world" where
  "demo_world ms = \<lparr>ch_in = map Arrives ms, ch_out = [], ch_room = 100, w_node = demo_node, w_sys = demo_sys, w_disk = []\<rparr>"

lemma demo_world_simps [simp]:
  "w_sys (demo_world ms) = demo_sys" "w_node (demo_world ms) = demo_node" "ch_room (demo_world ms) = 100"
  "ch_out (demo_world ms) = []" "w_disk (demo_world ms) = []"
  by (simp_all add: demo_world_def)

lemma demo_takes_shard: "takes_shard (demo_world []) demo_params demo_device demo_scheme"
  by (simp add: takes_shard_def demo_params_def demo_node_def node_device_def demo_device_def demo_document_def
      doc_device_def scheme_new_Ok_iff demo_scheme_def scheme_contains_def total_shards_def)

lemma demo_params_header: "params_header demo_params demo_scheme = demo_header"
  by (simp add: params_header_def demo_params_def demo_header_def)

theorem shard_travels_witness:
  "\<exists>stream replies c' w'.
    conn_put_shard (ReqPutShard demo_params) demo_blocks 6 77 ((demo_connection [])\<lparr>ch_in := map Arrives replies\<rparr>) = (Ok (), c') \<and>
    ch_out c' = MsgRequest 1 (ReqPutShard demo_params) # stream \<and>
    local_handle demo_env 1 (ReqPutShard demo_params) ((demo_world [])\<lparr>ch_in := map Arrives stream\<rparr>) = (Ok (), w') \<and>
    ch_out w' = replies"
proof -
  have fields: "ps_key_hash demo_params = replicate 32 5" "ps_object_size demo_params = 6" "ps_block_length demo_params = 2"
    "le_libs demo_env = demo_libs"
    by (simp_all add: demo_params_def demo_env_def)
  have "length (header_path demo_device (replicate 32 5) demo_header) = 6"
    by (simp add: header_path_def shard_path_def key_directory_bucket demo_bucket)
  then have "\<not> is_dir (sys_fs demo_sys) (header_path demo_device (replicate 32 5) demo_header)"
    by (simp add: is_dir_def demo_no_dir)
  then show ?thesis
    using shard_travels [of "demo_world []" demo_params demo_device demo_scheme demo_blocks "demo_connection []"
        "\<lparr>geo_block_count = 2, geo_last_block_length = 1\<rparr>" 4171 demo_env 77]
      demo_takes_shard demo_fresh demo_ready [of "replicate 32 5"] demo_header_wf demo_geometry
    by (fastforce simp: demo_params_header fields demo_blocks_def demo_header_def blocks_for_def demo_connection_def)
qed

end
