(* ===== verification/Coordinator.thy ===== *)
theory Coordinator
  imports LocalOps
begin

text \<open>
  The coordinator's lookups and the requests that need no body
  (\<open>djbod-node/src/coordinator.rs\<close>).  The coordinator serves a client on a channel
  and talks to the nodes of its document.  What a node does on a connection is a
  function of the number of the connection, of the node dialled and of the first
  request sent on it: it does not answer, or so many messages arrive and so many
  can be written.  The order in which concurrent requests finish is a parameter.  The
  state also has the version generator and what the clock and the random source
  give while the request is served.
\<close>

section \<open>State and connections\<close>

datatype dial = NoAnswer | Answers "incoming list" nat

record coord_env =
  ce_libs :: libs
  ce_build :: string
  ce_finish :: "node_id list \<Rightarrow> node_id list"

record coord = channel +
  co_node :: node
  co_net :: "nat \<Rightarrow> node_id \<Rightarrow> request \<Rightarrow> dial"
  co_dialed :: nat
  co_versions :: generator
  co_clock :: "nat \<times> bytes \<times> timestamp"

type_synonym 'a co_op = "(coord, failure, 'a) act"

abbreviation co_document :: "coord \<Rightarrow> cluster_document" where
  "co_document c \<equiv> nd_document (co_node c)"

definition is_client_operation :: "request \<Rightarrow> bool" where
  "is_client_operation request = (case request of
     ReqStatus \<Rightarrow> True | ReqDeviceContents _ \<Rightarrow> True | ReqPutObject _ _ _ _ \<Rightarrow> True | ReqGetObject _ \<Rightarrow> True
   | ReqHeadObject _ \<Rightarrow> True | ReqDeleteObject _ \<Rightarrow> True | ReqListKeys _ \<Rightarrow> True | ReqRepairObject _ \<Rightarrow> True
   | ReqMoveShard _ _ _ \<Rightarrow> True | ReqScrub _ _ \<Rightarrow> True | ReqDrain _ _ \<Rightarrow> True | ReqInventory _ \<Rightarrow> True | _ \<Rightarrow> False)"

definition fail :: "error_code \<Rightarrow> failure" where
  "fail code = FailError (error_detail_new code)"

definition node_address :: "node \<Rightarrow> node_id \<Rightarrow> (failure, string) res" where
  "node_address n target =
     bind_res (ok_or (fail EcNodeUnreachable) (doc_node (nd_document n) target)) (\<lambda>entry.
     case ne_addresses entry of
       [] \<Rightarrow> Err (fail EcNodeUnreachable)
     | first # _ \<Rightarrow> if socket_addr_ok first then Ok first else Err (fail EcNodeUnreachable))"

definition node_connector :: "node \<Rightarrow> bool" where
  "node_connector n \<longleftrightarrow> doc_transport (nd_document n) = Plain \<or> nd_tls n"

definition connect_to :: "coord_env \<Rightarrow> node_id \<Rightarrow> request \<Rightarrow> connection co_op" where
  "connect_to E target first c =
     (case node_address (co_node c) target of
        Err f \<Rightarrow> (Err f, c)
      | Panic \<Rightarrow> (Panic, c)
      | Ok address \<Rightarrow>
          if \<not> node_connector (co_node c) then (Err (fail EcTlsRequired), c)
          else (let c' = c\<lparr>co_dialed := Suc (co_dialed c)\<rparr>;
                    unreachable = FailError ((error_detail_new EcNodeUnreachable)\<lparr>ed_node := Some target\<rparr>)
                in case co_net c (co_dialed c) target first of
                  NoAnswer \<Rightarrow> (Err unreachable, c')
                | Answers arriving room \<Rightarrow>
                    (map_err (\<lambda>e. case e of CeRemote detail \<Rightarrow> FailError (detail\<lparr>ed_node := Some target\<rparr>) | _ \<Rightarrow> unreachable)
                       (connect_with (our_hello (ce_build E) (co_node c)) \<lparr>ch_in = arriving, ch_out = [], ch_room = room\<rparr>), c')))"

definition or_node :: "error_detail \<Rightarrow> node_id \<Rightarrow> error_detail" where
  "or_node detail target = (if ed_node detail = None then detail\<lparr>ed_node := Some target\<rparr> else detail)"

definition remote_detail :: "node_id \<Rightarrow> connection_error \<Rightarrow> error_detail" where
  "remote_detail target e = (case e of
     CeRemote detail \<Rightarrow> or_node detail target
   | CeStreamFailed detail \<Rightarrow> or_node detail target
   | _ \<Rightarrow> (error_detail_new EcNodeUnreachable)\<lparr>ed_node := Some target\<rparr>)"

abbreviation remote_failure :: "node_id \<Rightarrow> connection_error \<Rightarrow> failure" where
  "remote_failure target e \<equiv> FailError (remote_detail target e)"

text \<open>A connection opened for one request.\<close>

definition ask :: "coord_env \<Rightarrow> node_id \<Rightarrow> request \<Rightarrow> response co_op" where
  "ask E target request =
     op_bind (connect_to E target request) (\<lambda>conn.
     op_return (map_err (remote_failure target) (fst (conn_request request conn))))"

text \<open>Concurrent tasks, one per active node, in the order they finish.\<close>

fun run_tasks :: "(node_id \<Rightarrow> 'a co_op) \<Rightarrow> node_id list \<Rightarrow> coord \<Rightarrow> (node_id \<times> (failure, 'a) res) list \<times> coord" where
  "run_tasks f [] c = ([], c)"
| "run_tasks f (t # ts) c =
     (case f t c of (r, c1) \<Rightarrow> case run_tasks f ts c1 of (rs, c2) \<Rightarrow> ((t, r) # rs, c2))"

definition broadcast_each :: "coord_env \<Rightarrow> request \<Rightarrow> (node_id \<times> (failure, response) res) list co_op" where
  "broadcast_each E request c =
     (case run_tasks (\<lambda>t. ask E t request) (ce_finish E (map ne_id (active_nodes (co_document c)))) c of
        (answers, c') \<Rightarrow>
          (if \<exists>(t, r) \<in> set answers. r = Panic then Err (fail EcInternal) else Ok (sort_key fst answers), c'))"

fun all_answers :: "(node_id \<times> (failure, response) res) list \<Rightarrow> (failure, (node_id \<times> response) list) res" where
  "all_answers [] = Ok []"
| "all_answers ((t, r) # rs) = bind_res r (\<lambda>x. bind_res (all_answers rs) (\<lambda>xs. Ok ((t, x) # xs)))"

definition broadcast :: "coord_env \<Rightarrow> request \<Rightarrow> (node_id \<times> response) list co_op" where
  "broadcast E request = op_bind (broadcast_each E request) (\<lambda>answers. op_return (all_answers answers))"

section \<open>Lookups\<close>

text \<open>A map with ordered keys, as the list of its entries.\<close>

fun omap_insert :: "'k::linorder \<Rightarrow> 'v \<Rightarrow> ('k \<times> 'v) list \<Rightarrow> ('k \<times> 'v) list" where
  "omap_insert k v [] = [(k, v)]"
| "omap_insert k v ((k', v') # m) =
     (if k < k' then (k, v) # (k', v') # m else if k = k' then (k, v) # m else (k', v') # omap_insert k v m)"

definition omap_or_insert :: "'k::linorder \<Rightarrow> 'v \<Rightarrow> ('k \<times> 'v) list \<Rightarrow> ('k \<times> 'v) list" where
  "omap_or_insert k v m = (if map_of m k = None then omap_insert k v m else m)"

record lookup_result =
  lk_records :: "located_record list"
  lk_unread :: "(device_id \<times> error_code) list"
  lk_unreachable :: "error_detail list"

definition position_of :: "located_record \<Rightarrow> version_id \<times> device_id" where
  "position_of r = (rec_version (lr_record r), lr_device r)"

definition cursor_of :: "located_record list \<Rightarrow> lookup_cursor option" where
  "cursor_of rs = (if rs = [] then None
     else Some \<lparr>lc_version = rec_version (lr_record (last rs)), lc_device = lr_device (last rs)\<rparr>)"

lemma conn_request_consumes:
  assumes "conn_request request c = (Ok r, c')"
  shows "length (ch_in c) = Suc (length (ch_in c'))"
  using assms
  by (auto simp: conn_request_def send_request_def allocate_request_id_def read_response_def channel_defs
      split: list.splits incoming.splits res.splits if_splits)

function lookup_pages ::
  "node_id \<Rightarrow> key_hash \<Rightarrow> lookup_cursor option \<Rightarrow> located_record list \<Rightarrow> connection
   \<Rightarrow> (failure, located_record list \<times> device_id list) res" where
  "lookup_pages target key_hash after all conn =
     (case conn_request (ReqLocalLookup key_hash after) conn of
        (Err e, _) \<Rightarrow> Err (remote_failure target e)
      | (Panic, _) \<Rightarrow> Panic
      | (Ok (RespLocalLookup records truncated unread), conn') \<Rightarrow>
          if \<not> truncated \<or> cursor_of records = None then Ok (all @ records, unread)
          else lookup_pages target key_hash (cursor_of records) (all @ records) conn'
      | (Ok _, _) \<Rightarrow> Err (fail EcProtocolViolation))"
  by pat_completeness auto

termination lookup_pages
  by (relation "measure (\<lambda>(t, h, after, all, conn). length (ch_in conn))") (auto dest!: conn_request_consumes [OF sym])

declare lookup_pages.simps [simp del]

definition lookup_on :: "coord_env \<Rightarrow> node_id \<Rightarrow> key_hash \<Rightarrow> (located_record list \<times> device_id list) co_op" where
  "lookup_on E target key_hash =
     op_bind (connect_to E target (ReqLocalLookup key_hash None)) (\<lambda>conn.
     op_return (lookup_pages target key_hash None [] conn))"

fun merge_lookups ::
  "cluster_document \<Rightarrow> (node_id \<times> (failure, located_record list \<times> device_id list) res) list \<Rightarrow> lookup_result
   \<Rightarrow> (failure, lookup_result) res" where
  "merge_lookups doc [] found = Ok found"
| "merge_lookups doc ((target, Ok (records, unread)) # rest) found =
     merge_lookups doc rest (found\<lparr>lk_records := lk_records found @ records,
       lk_unread := fold (\<lambda>d. omap_insert d EcDeviceUnavailable) unread (lk_unread found)\<rparr>)"
| "merge_lookups doc ((target, Err (FailError detail)) # rest) found =
     (if ed_code detail = EcNodeUnreachable
      then merge_lookups doc rest (found\<lparr>
        lk_unread := fold (\<lambda>d. omap_insert (de_id d) EcNodeUnreachable)
          (filter (\<lambda>d. de_node d = target) (doc_devices doc)) (lk_unread found),
        lk_unreachable := lk_unreachable found @ [detail]\<rparr>)
      else Err (FailError detail))"
| "merge_lookups doc ((target, Err (FailClose end)) # rest) found = Err (FailClose end)"
| "merge_lookups doc ((target, Panic) # rest) found = Err (fail EcInternal)"

definition lookup_reachable :: "coord_env \<Rightarrow> key_hash \<Rightarrow> lookup_result co_op" where
  "lookup_reachable E key_hash c =
     (let doc = co_document c in
      case run_tasks (\<lambda>t. lookup_on E t key_hash) (ce_finish E (map ne_id (active_nodes doc))) c of
        (answers, c') \<Rightarrow>
          (bind_res (merge_lookups doc answers \<lparr>lk_records = [], lk_unread = [], lk_unreachable = []\<rparr>) (\<lambda>found.
             Ok (found\<lparr>lk_unread := fold (\<lambda>d m. if de_state d = DevRemoved
                   then omap_or_insert (de_id d) EcDeviceUnavailable m else m) (doc_devices doc) (lk_unread found),
                 lk_records := sort_key position_of (lk_records found)\<rparr>)), c'))"

definition lookup :: "coord_env \<Rightarrow> key_hash \<Rightarrow> located_record list co_op" where
  "lookup E key_hash =
     op_bind (lookup_reachable E key_hash) (\<lambda>found.
     op_return (case lk_unreachable found of detail # _ \<Rightarrow> Err (FailError detail) | [] \<Rightarrow> Ok (lk_records found)))"

section \<open>Versions\<close>

record trusted_version =
  tv_record :: metadata_record
  tv_missing :: "missing_record_copy list"
  tv_vouching :: nat

definition version_failure :: "error_code \<Rightarrow> string \<Rightarrow> version_id \<Rightarrow> device_id option \<Rightarrow> failure" where
  "version_failure code key version device =
     FailError ((error_detail_new code)\<lparr>ed_key := Some key, ed_version := Some version, ed_device := device\<rparr>)"

definition missing_copies :: "metadata_record \<Rightarrow> located_record list \<Rightarrow> located_record list \<Rightarrow> missing_record_copy list" where
  "missing_copies first current copies =
     map (\<lambda>shard. let stale = map (\<lambda>c. rec_revision (lr_record c)) (filter (\<lambda>c. lr_device c = loc_device shard) copies) in
         \<lparr>mr_device = loc_device shard, mr_fault = (if stale = [] then CopyMissing else CopyStale (Max (set stale)))\<rparr>)
       (filter (\<lambda>shard. \<not> (\<exists>c\<in>set current. lr_device c = loc_device shard)) (rec_shards first))"

definition trust_copies :: "string \<Rightarrow> version_id \<Rightarrow> located_record list \<Rightarrow> (failure, trusted_version) res" where
  "trust_copies key version copies =
     (case find (\<lambda>c. rec_key (lr_record c) \<noteq> key) copies of
        Some c \<Rightarrow> Err (version_failure EcKeyMismatch key version (Some (lr_device c)))
      | None \<Rightarrow>
          let current_revision = Max (set (map (\<lambda>c. rec_revision (lr_record c)) copies));
              current = filter (\<lambda>c. rec_revision (lr_record c) = current_revision) copies;
              first = lr_record (hd current)
          in case find (\<lambda>c. lr_record c \<noteq> first \<or> shard_on first (lr_device c) = None) current of
               Some c \<Rightarrow> Err (version_failure EcRecordsInconsistent key version (Some (lr_device c)))
             | None \<Rightarrow> Ok \<lparr>tv_record = first, tv_missing = missing_copies first current copies,
                 tv_vouching = length (filter (\<lambda>c. rec_revision (lr_record c) = current_revision \<or>
                   same_body first (lr_record c)) copies)\<rparr>)"

definition versions_newest_first :: "located_record list \<Rightarrow> version_id list" where
  "versions_newest_first located = rev (sort (remdups (map (\<lambda>r. rec_version (lr_record r)) located)))"

fun collect :: "('a \<Rightarrow> ('e, 'b) res) \<Rightarrow> 'a list \<Rightarrow> ('e, 'b list) res" where
  "collect f [] = Ok []"
| "collect f (x # xs) = bind_res (f x) (\<lambda>y. bind_res (collect f xs) (\<lambda>ys. Ok (y # ys)))"

definition trusted_versions :: "string \<Rightarrow> located_record list \<Rightarrow> (failure, trusted_version list) res" where
  "trusted_versions key located =
     collect (\<lambda>v. trust_copies key v (filter (\<lambda>r. rec_version (lr_record r) = v) located)) (versions_newest_first located)"

definition versions_of_excluding ::
  "string \<Rightarrow> located_record list \<Rightarrow> device_id list \<Rightarrow> (failure, metadata_record list) res" where
  "versions_of_excluding key located unread =
     bind_res (trusted_versions key located) (collect (\<lambda>t.
       if length (filter (\<lambda>m. mr_device m \<in> set unread) (tv_missing t)) < length (tv_missing t)
       then Err (version_failure EcRecordsInconsistent key (rec_version (tv_record t)) None)
       else Ok (tv_record t)))"

definition versions_of :: "string \<Rightarrow> located_record list \<Rightarrow> (failure, metadata_record list) res" where
  "versions_of key located = versions_of_excluding key located []"

definition stale_copies :: "metadata_record \<Rightarrow> located_record list \<Rightarrow> (device_id \<times> nat) list" where
  "stale_copies current located =
     map (\<lambda>c. (lr_device c, rec_revision (lr_record c)))
       (filter (\<lambda>c. rec_version (lr_record c) = rec_version current \<and> rec_revision (lr_record c) < rec_revision current \<and>
          shard_on current (lr_device c) = None) located)"

text \<open>The first characters of a text in UTF-8.\<close>

function take_chars :: "nat \<Rightarrow> string \<Rightarrow> string" where
  "take_chars 0 s = []"
| "take_chars (Suc n) [] = []"
| "take_chars (Suc n) (c # s) =
     (let more = takeWhile (\<lambda>c. of_char c div 64 = (2 :: nat)) s in c # more @ take_chars n (drop (length more) s))"
  by pat_completeness auto
termination by (relation "measure fst") auto

definition check_key :: "node \<Rightarrow> string \<Rightarrow> (failure, unit) res" where
  "check_key n key =
     (if key = [] then Err (fail EcProtocolViolation)
      else if length key > doc_max_key_bytes (nd_document n)
      then Err (FailError ((error_detail_new EcKeyTooLong)\<lparr>ed_key := Some (take_chars 64 key @ ''...'')\<rparr>))
      else Ok ())"

definition not_found :: "string \<Rightarrow> failure" where
  "not_found key = FailError ((error_detail_new EcNotFound)\<lparr>ed_key := Some key\<rparr>)"

definition newest_version :: "coord_env \<Rightarrow> string \<Rightarrow> metadata_record co_op" where
  "newest_version E key c =
     op_bind (op_return (check_key (co_node c) key)) (\<lambda>_.
     op_bind (lookup E (hash_key (ce_libs E) (as_bytes key))) (\<lambda>located.
     op_return (bind_res (versions_of key located) (\<lambda>versions.
       case versions of r # _ \<Rightarrow> Ok r | [] \<Rightarrow> Err (not_found key))))) c"

definition classify_missing :: "cluster_document \<Rightarrow> (device_id \<times> error_code) list \<Rightarrow> missing_record_copy \<Rightarrow> missing_record_copy" where
  "classify_missing doc unread m =
     (if mr_fault m = CopyMissing \<and> (map_of unread (mr_device m) \<noteq> None \<or> doc_device doc (mr_device m) = None)
      then m\<lparr>mr_fault := CopyUnavailable\<rparr> else m)"

definition readable_version ::
  "cluster_document \<Rightarrow> string \<Rightarrow> lookup_result \<Rightarrow> (failure, metadata_record \<times> missing_record_copy list) res" where
  "readable_version doc key found =
     bind_res (trusted_versions key (lk_records found)) (\<lambda>versions.
     case versions of
       [] \<Rightarrow>
         let out = filter (\<lambda>(d, _). case doc_device doc d of Some e \<Rightarrow> de_state e \<noteq> DevRemoved | None \<Rightarrow> False) (lk_unread found)
         in if length out \<ge> doc_k doc + doc_m doc
            then (case out of (_, code) # _ \<Rightarrow> Err (FailError ((error_detail_new code)\<lparr>ed_key := Some key\<rparr>)) | [] \<Rightarrow> Panic)
            else Err (not_found key)
     | newest # _ \<Rightarrow>
         let missing = map (classify_missing doc (lk_unread found)) (tv_missing newest);
             code = (case find (\<lambda>m. mr_fault m = CopyUnavailable) missing of
                 Some m \<Rightarrow> (case map_of (lk_unread found) (mr_device m) of Some code \<Rightarrow> code | None \<Rightarrow> EcDeviceUnavailable)
               | None \<Rightarrow> EcRecordsInconsistent)
         in if tv_vouching newest < rec_k (tv_record newest)
            then Err (version_failure code key (rec_version (tv_record newest))
                   (case missing of m # _ \<Rightarrow> Some (mr_device m) | [] \<Rightarrow> None))
            else Ok (tv_record newest, missing))"

definition newest_readable_version :: "coord_env \<Rightarrow> string \<Rightarrow> (metadata_record \<times> missing_record_copy list) co_op" where
  "newest_readable_version E key c =
     op_bind (op_return (check_key (co_node c) key)) (\<lambda>_.
     op_bind (lookup_reachable E (hash_key (ce_libs E) (as_bytes key))) (\<lambda>found.
     op_return (readable_version (co_document c) key found))) c"

section \<open>Requests without a body\<close>

definition device_contents_op :: "coord_env \<Rightarrow> device_id \<Rightarrow> response co_op" where
  "device_contents_op E device c =
     (case doc_device (co_document c) device of
        None \<Rightarrow> (Err (FailError ((error_detail_new EcNotFound)\<lparr>ed_device := Some device\<rparr>)), c)
      | Some entry \<Rightarrow>
          op_bind (ask E (de_node entry) (ReqLocalDeviceContents device)) (\<lambda>answer.
          op_return (case answer of
            RespLocalDeviceContents counts \<Rightarrow> Ok (RespDeviceContents \<lparr>dc_device = device, dc_node = de_node entry,
              dc_state = de_state entry, dc_versions = cn_versions counts, dc_keys = cn_keys counts,
              dc_blocks = cn_blocks counts, dc_shard_bytes = cn_shard_bytes counts\<rparr>)
          | _ \<Rightarrow> Err (fail EcProtocolViolation))) c)"

fun device_statuses_of :: "cluster_document \<Rightarrow> (node_id \<times> response) list \<Rightarrow> (failure, device_status list) res" where
  "device_statuses_of doc [] = Ok []"
| "device_statuses_of doc ((target, RespLocalStatus _ version _ _ found) # rest) =
     (if version \<noteq> doc_version doc
      then Err (FailError ((error_detail_new EcDocumentVersionMismatch)\<lparr>ed_node := Some target\<rparr>))
      else bind_res (device_statuses_of doc rest) (\<lambda>ds. Ok (found @ ds)))"
| "device_statuses_of doc ((target, _) # rest) = Err (fail EcProtocolViolation)"

definition device_statuses :: "cluster_document \<Rightarrow> (node_id \<times> response) list \<Rightarrow> (failure, device_status list) res" where
  "device_statuses doc answers = bind_res (device_statuses_of doc answers) (\<lambda>ds. Ok (sort_key ds_node ds))"

definition listed_status :: "node_id \<Rightarrow> string option \<Rightarrow> device_entry \<Rightarrow> device_status" where
  "listed_status node label e = \<lparr>ds_device = de_id e, ds_node = node, ds_state = de_state e, ds_available = False,
     ds_label = de_label e, ds_node_label = label, ds_total_bytes = 0, ds_free_bytes = 0\<rparr>"

abbreviation devices_of_node :: "cluster_document \<Rightarrow> node_id \<Rightarrow> device_entry list" where
  "devices_of_node doc node \<equiv> filter (\<lambda>d. de_node d = node) (doc_devices doc)"

fun status_answers ::
  "cluster_document \<Rightarrow> (node_id \<times> (failure, response) res) list
   \<Rightarrow> (failure, node_status list \<times> device_status list \<times> (node_id \<times> response) list) res" where
  "status_answers doc [] = Ok ([], [], [])"
| "status_answers doc ((target, Ok response) # rest) =
     bind_res (status_answers doc rest) (\<lambda>(nodes, devices, answered).
     Ok ((case response of
            RespLocalStatus _ _ _ build _ \<Rightarrow>
              [\<lparr>ns_node = target, ns_state = NodeActive, ns_reachable = True, ns_build = Some build, ns_error = False\<rparr>]
          | _ \<Rightarrow> []) @ nodes, devices, (target, response) # answered))"
| "status_answers doc ((target, Err f) # rest) =
     (if (case f of FailError detail \<Rightarrow> ed_code detail = EcDocumentVersionMismatch | FailClose _ \<Rightarrow> False) then Err f
      else bind_res (status_answers doc rest) (\<lambda>(nodes, devices, answered).
        Ok (\<lparr>ns_node = target, ns_state = NodeActive, ns_reachable = False, ns_build = None, ns_error = True\<rparr> # nodes,
            map (listed_status target (Option.bind (doc_node doc target) ne_label)) (devices_of_node doc target) @ devices,
            answered)))"
| "status_answers doc ((target, Panic) # rest) = Panic"

definition status :: "coord_env \<Rightarrow> response co_op" where
  "status E c =
     (let doc = co_document c; removed = filter (\<lambda>n. ne_state n = NodeRemoved) (doc_nodes doc) in
      op_bind (broadcast_each E ReqLocalStatus) (\<lambda>answers.
      op_return (
        bind_res (status_answers doc answers) (\<lambda>(nodes, devices, answered).
        bind_res (device_statuses doc answered) (\<lambda>found.
        let nodes = nodes @ map (\<lambda>n. \<lparr>ns_node = ne_id n, ns_state = NodeRemoved, ns_reachable = False,
                ns_build = None, ns_error = False\<rparr>) removed;
            devices = devices @ found @
              concat (map (\<lambda>n. map (listed_status (ne_id n) (ne_label n)) (devices_of_node doc (ne_id n))) removed);
            position = (\<lambda>d. case position_from 0 (ds_device d) (map de_id (doc_devices doc)) of
                None \<Rightarrow> 0 | Some i \<Rightarrow> Suc i)
        in Ok (RespStatus (doc_cluster_id doc) (doc_name doc) (doc_version doc) (nd_id (co_node c)) nodes
             (doc_transport doc) (sort_key position devices)))))) c)"

definition head_object :: "coord_env \<Rightarrow> string \<Rightarrow> response co_op" where
  "head_object E key =
     op_bind (newest_readable_version E key) (\<lambda>(rc, missing). op_return (Ok (RespHeadObject rc missing)))"

fun delete_on :: "coord_env \<Rightarrow> metadata_record \<Rightarrow> shard_location list \<Rightarrow> unit co_op" where
  "delete_on E rc [] c = (Ok (), c)"
| "delete_on E rc (shard # shards) c =
     (case doc_device (co_document c) (loc_device shard) of
        Some entry \<Rightarrow>
          if de_state entry = DevRemoved then delete_on E rc shards c
          else op_bind (ask E (de_node entry) (ReqDeleteVersion (loc_device shard) (rec_key_hash rc) (rec_version rc))) (\<lambda>_.
               delete_on E rc shards) c
      | None \<Rightarrow> delete_on E rc shards c)"

definition delete_version_everywhere :: "coord_env \<Rightarrow> metadata_record \<Rightarrow> unit co_op" where
  "delete_version_everywhere E rc = delete_on E rc (rec_shards rc)"

fun each_co :: "('a \<Rightarrow> unit co_op) \<Rightarrow> 'a list \<Rightarrow> unit co_op" where
  "each_co f [] c = (Ok (), c)"
| "each_co f (x # xs) c = op_bind (f x) (\<lambda>_. each_co f xs) c"

definition delete_object :: "coord_env \<Rightarrow> string \<Rightarrow> response co_op" where
  "delete_object E key c =
     op_bind (op_return (check_key (co_node c) key)) (\<lambda>_.
     op_bind (lookup E (hash_key (ce_libs E) (as_bytes key))) (\<lambda>located.
     op_bind (op_return (versions_of key located)) (\<lambda>versions.
     if versions = [] then op_return (Err (not_found key))
     else op_bind (each_co (delete_version_everywhere E) versions) (\<lambda>_. op_return (Ok RespDeleteObject))))) c"

section \<open>Listing\<close>

record key_page =
  kp_newest :: "(string \<times> key_entry) list"
  kp_truncated :: bool
  kp_unread :: "unavailable_device list"
  kp_horizon :: "string option"

definition keep_newest :: "key_entry \<Rightarrow> (string \<times> key_entry) list \<Rightarrow> (string \<times> key_entry) list" where
  "keep_newest item newest =
     (case map_of newest (ke_key item) of
        Some existing \<Rightarrow> if ke_version existing \<ge> ke_version item then newest else omap_insert (ke_key item) item newest
      | None \<Rightarrow> omap_insert (ke_key item) item newest)"

fun merge_list :: "cluster_document \<Rightarrow> (node_id \<times> (failure, response) res) list \<Rightarrow> key_page \<Rightarrow> (failure, key_page) res" where
  "merge_list doc [] page = Ok page"
| "merge_list doc ((target, Ok (RespLocalList entries truncated unread)) # rest) page =
     merge_list doc rest (page\<lparr>
       kp_unread := kp_unread page @ map (\<lambda>d. \<lparr>ud_device = d, ud_node = target\<rparr>) unread,
       kp_truncated := kp_truncated page \<or> truncated,
       kp_horizon := (if truncated \<and> entries \<noteq> [] \<and>
            (case kp_horizon page of None \<Rightarrow> True | Some h \<Rightarrow> ke_key (last entries) < h)
          then Some (ke_key (last entries)) else kp_horizon page),
       kp_newest := fold keep_newest entries (kp_newest page)\<rparr>)"
| "merge_list doc ((target, Ok _) # rest) page = Err (fail EcProtocolViolation)"
| "merge_list doc ((target, Err f) # rest) page =
     (if (case f of FailError detail \<Rightarrow> ed_code detail = EcNodeUnreachable | FailClose _ \<Rightarrow> False)
      then merge_list doc rest (page\<lparr>kp_unread := kp_unread page @ map (\<lambda>d. \<lparr>ud_device = de_id d, ud_node = target\<rparr>)
             (filter (\<lambda>d. de_node d = target \<and> de_state d \<noteq> DevRemoved) (doc_devices doc))\<rparr>)
      else Err f)"
| "merge_list doc ((target, Panic) # rest) page = Panic"

definition list_page :: "cluster_document \<Rightarrow> list_query \<Rightarrow> key_page \<Rightarrow> response" where
  "list_page doc query page =
     (let keys = map snd (kp_newest page);
          keys = (case kp_horizon page of Some h \<Rightarrow> filter (\<lambda>e. ke_key e \<le> h) keys | None \<Rightarrow> keys);
          (keys, cut) = page_of_keys keys (lq_limit query)
      in RespListKeys keys (cut \<or> kp_truncated page) (sort_key (\<lambda>u. (ud_node u, ud_device u)) (kp_unread page))
           (length (kp_unread page) < doc_k doc + doc_m doc))"

definition list_keys :: "coord_env \<Rightarrow> list_query \<Rightarrow> response co_op" where
  "list_keys E query c =
     (let doc = co_document c in
      op_bind (broadcast_each E (ReqLocalList query)) (\<lambda>answers.
      op_return (bind_res (merge_list doc answers \<lparr>kp_newest = [], kp_truncated = False, kp_unread = [], kp_horizon = None\<rparr>)
        (\<lambda>page. Ok (list_page doc query page)))) c)"

section \<open>Operations that only dial\<close>

text \<open>Talking to the nodes leaves the channel to the client and the node alone.\<close>

definition dialled :: "coord \<Rightarrow> coord \<Rightarrow> bool" where
  "dialled c c' \<longleftrightarrow> (\<exists>k. c' = c\<lparr>co_dialed := k\<rparr>)"

named_theorems dialled_rules

lemma dialled_same [dialled_rules, simp]: "dialled c c"
  unfolding dialled_def by (rule exI [of _ "co_dialed c"]) simp

lemma dialled_trans: "dialled c c1 \<Longrightarrow> dialled c1 c2 \<Longrightarrow> dialled c c2"
  by (auto simp: dialled_def)

lemma dialled_keeps:
  assumes "dialled c c'"
  shows "ch_in c' = ch_in c" "ch_out c' = ch_out c" "ch_room c' = ch_room c" "co_node c' = co_node c" "co_net c' = co_net c"
  using assms by (auto simp: dialled_def)

lemma dialled_return [dialled_rules]: "dialled c (snd (op_return r c))"
  by (simp add: op_return_def)

lemma dialled_bind [dialled_rules]:
  assumes "dialled c (snd (m c))" "\<And>x c1. m c = (Ok x, c1) \<Longrightarrow> dialled c1 (snd (f x c1))"
  shows "dialled c (snd (op_bind m f c))"
  using assms by (cases "m c"; cases "fst (m c)") (auto simp: op_bind_def intro: dialled_trans)

lemma dialled_connect_to [dialled_rules]: "dialled c (snd (connect_to E target first c))"
  by (auto simp: connect_to_def dialled_def Let_def split: res.splits dial.splits intro: exI [of _ "co_dialed c"])

lemma dialled_ask [dialled_rules]: "dialled c (snd (ask E target request c))"
  unfolding ask_def by (intro dialled_rules)

lemma dialled_run_tasks:
  assumes "\<And>t c. dialled c (snd (f t c))"
  shows "dialled c (snd (run_tasks f ts c))"
proof (induction ts arbitrary: c)
  case (Cons t ts)
  show ?case
    using assms [where c = c and t = t] Cons.IH [of "snd (f t c)"] by (auto split: prod.splits intro: dialled_trans)
qed simp

lemma dialled_lookup_reachable [dialled_rules]: "dialled c (snd (lookup_reachable E h c))"
proof -
  have "dialled c (snd (lookup_on E t h c))" for t c unfolding lookup_on_def by (intro dialled_rules)
  from dialled_run_tasks [of "\<lambda>t. lookup_on E t h", OF this] show ?thesis
    by (simp add: lookup_reachable_def Let_def split: prod.split) (metis snd_conv)
qed

lemma dialled_newest_readable_version [dialled_rules]: "dialled c (snd (newest_readable_version E key c))"
  unfolding newest_readable_version_def by (intro dialled_rules)

end
