(* ===== verification/CoordGet.thy ===== *)
theory CoordGet
  imports Coordinator
begin

text \<open>
  Reading an object (\<open>get_object\<close> of \<open>djbod-node/src/coordinator.rs\<close>): the newest
  version is looked up, one stream of blocks is opened per data shard, parity
  streams are opened when a data shard cannot be opened or a block is damaged, and
  the stripes are decoded and sent to the client.  The streaming hasher is the
  checksum of everything fed to it.  Message texts are left out.
\<close>

section \<open>Shard streams\<close>

record shard_source =
  ss_index :: shard_index
  ss_device :: device_id
  ss_owner :: node_id
  ss_connection :: connection
  ss_request_id :: nat

definition fail_and_close :: "nat \<Rightarrow> error_detail \<Rightarrow> 'a co_op" where
  "fail_and_close n detail c =
     (Err (FailClose EndProtocolViolation), snd (send (MsgEndOfStream n (stream_end_failed detail)) c))"

definition get_shard_request :: "metadata_record \<Rightarrow> device_id \<Rightarrow> shard_index \<Rightarrow> nat \<Rightarrow> nat \<Rightarrow> request" where
  "get_shard_request rc device index first_block block_count =
     ReqGetShard device (rec_key_hash rc) (rec_version rc) index first_block block_count"

definition open_shard_source ::
  "coord_env \<Rightarrow> cluster_document \<Rightarrow> metadata_record \<Rightarrow> string \<Rightarrow> nat \<Rightarrow> nat \<Rightarrow> shard_index \<Rightarrow> shard_source co_op" where
  "open_shard_source E doc rc key first_block block_count index =
     op_bind (op_return (expect (device_for rc index))) (\<lambda>device.
     op_bind (op_return (ok_or (FailError ((error_detail_new EcDeviceUnavailable)\<lparr>ed_device := Some device,
         ed_key := Some key, ed_version := Some (rec_version rc), ed_shard_index := Some index\<rparr>))
       (map_option de_node (doc_device doc device)))) (\<lambda>owner.
     let request = get_shard_request rc device index first_block block_count in
     op_bind (connect_to E owner request) (\<lambda>conn.
     op_return (
       case send_request request conn of
         (Err e, _) \<Rightarrow> Err (remote_failure owner e)
       | (Panic, _) \<Rightarrow> Panic
       | (Ok n, conn1) \<Rightarrow>
           (case read_response n conn1 of
              (Err e, _) \<Rightarrow> Err (remote_failure owner e)
            | (Panic, _) \<Rightarrow> Panic
            | (Ok (RespGetShard _), conn2) \<Rightarrow>
                Ok \<lparr>ss_index = index, ss_device = device, ss_owner = owner, ss_connection = conn2, ss_request_id = n\<rparr>
            | (Ok _, _) \<Rightarrow> Err (fail EcProtocolViolation))))))"

fun open_each :: "('a \<Rightarrow> 'b co_op) \<Rightarrow> 'a list \<Rightarrow> 'b list co_op" where
  "open_each f [] c = (Ok [], c)"
| "open_each f (x # xs) c = op_bind (f x) (\<lambda>y. op_bind (open_each f xs) (\<lambda>ys. op_return (Ok (y # ys)))) c"

definition open_shard_sources ::
  "coord_env \<Rightarrow> cluster_document \<Rightarrow> metadata_record \<Rightarrow> string \<Rightarrow> shard_index list \<Rightarrow> nat \<Rightarrow> nat \<Rightarrow> shard_source list co_op" where
  "open_shard_sources E doc rc key indices first_block block_count =
     op_bind (op_return (map_err (\<lambda>_. fail EcRecordsInconsistent) (record_scheme rc))) (\<lambda>_.
     open_each (open_shard_source E doc rc key first_block block_count) indices)"

fun read_stripe_blocks ::
  "nat \<Rightarrow> string \<Rightarrow> metadata_record \<Rightarrow> shard_source list \<Rightarrow> (error_detail, shard_block list \<times> shard_source list) res" where
  "read_stripe_blocks stripe key rc [] = Ok ([], [])"
| "read_stripe_blocks stripe key rc (source # sources) =
     (let context = (\<lambda>detail. detail\<lparr>ed_node := Some (ss_owner source), ed_device := Some (ss_device source), ed_key := Some key,
            ed_version := Some (rec_version rc), ed_shard_index := Some (ss_index source), ed_stripe := Some stripe\<rparr>) in
      case read_stream_item (ss_request_id source) (ss_connection source) of
        (Ok (ItemData data), conn) \<Rightarrow>
          if df_sequence data \<noteq> stripe then Err (context (error_detail_new EcProtocolViolation))
          else bind_res (read_stripe_blocks stripe key rc sources) (\<lambda>(blocks, sources').
            Ok (\<lparr>sb_index = ss_index source, sb_bytes = df_bytes data, sb_checksum = df_checksum data\<rparr> # blocks,
                source\<lparr>ss_connection := conn\<rparr> # sources'))
      | (Ok (ItemEnd end), _) \<Rightarrow>
          Err (context (case se_error end of Some e \<Rightarrow> e | None \<Rightarrow> error_detail_new EcProtocolViolation))
      | (Err e, _) \<Rightarrow> Err (remote_detail (ss_owner source) e)
      | (Panic, _) \<Rightarrow> Panic)"

record unreadable_shard =
  us_index :: shard_index
  us_device :: device_id
  us_fault :: fault_kind
  us_first_stripe :: nat

definition open_fault :: "error_code \<Rightarrow> fault_kind option" where
  "open_fault code = (case code of
     EcNotFound \<Rightarrow> Some Missing
   | EcDeviceUnavailable \<Rightarrow> Some (Unavailable [])
   | EcNodeUnreachable \<Rightarrow> Some (Unavailable [])
   | EcProtocolViolation \<Rightarrow> None
   | EcInternal \<Rightarrow> None
   | _ \<Rightarrow> Some (Unreadable []))"

fun open_shards ::
  "coord_env \<Rightarrow> cluster_document \<Rightarrow> metadata_record \<Rightarrow> string \<Rightarrow> nat \<Rightarrow> nat \<Rightarrow> shard_index list
   \<Rightarrow> (shard_source list \<times> unreadable_shard list) co_op" where
  "open_shards E doc rc key first_block block_count [] c = (Ok ([], []), c)"
| "open_shards E doc rc key first_block block_count (index # indices) c =
     op_bind (op_return (expect (device_for rc index))) (\<lambda>device c.
       case open_shard_sources E doc rc key [index] first_block block_count c of
         (Ok opened, c1) \<Rightarrow>
           op_bind (open_shards E doc rc key first_block block_count indices) (\<lambda>(sources, unreadable).
           op_return (Ok (opened @ sources, unreadable))) c1
       | (Err (FailError detail), c1) \<Rightarrow>
           (case open_fault (ed_code detail) of
              None \<Rightarrow> (Err (FailError detail), c1)
            | Some fault \<Rightarrow>
                op_bind (open_shards E doc rc key first_block block_count indices) (\<lambda>(sources, unreadable).
                op_return (Ok (sources, \<lparr>us_index = index, us_device = device, us_fault = fault,
                  us_first_stripe = first_block\<rparr> # unreadable))) c1)
       | (Err other, c1) \<Rightarrow> (Err other, c1)
       | (Panic, c1) \<Rightarrow> (Panic, c1)) c"

definition too_many_unreadable :: "string \<Rightarrow> metadata_record \<Rightarrow> unreadable_shard list \<Rightarrow> (failure, error_detail) res" where
  "too_many_unreadable key rc unreadable =
     (case unreadable of
        [] \<Rightarrow> Panic
      | first # _ \<Rightarrow> Ok ((error_detail_new (case us_fault first of
            Missing \<Rightarrow> EcNotFound | Unavailable _ \<Rightarrow> EcDeviceUnavailable | _ \<Rightarrow> EcBlockChecksumMismatch))
          \<lparr>ed_device := Some (us_device first), ed_key := Some key, ed_version := Some (rec_version rc),
           ed_shard_index := Some (us_index first)\<rparr>))"

section \<open>Reading an object\<close>

record get_state =
  gs_sources :: "shard_source list"
  gs_unreadable :: "unreadable_shard list"
  gs_parity_open :: bool
  gs_reconstructed :: "reconstruction list"
  gs_hashed :: bytes
  gs_delivered :: nat
  gs_sequence :: nat

definition parity_indices :: "scheme \<Rightarrow> shard_index list" where
  "parity_indices scheme = filter (\<lambda>i. i \<notin> set (data_shard_indices scheme)) (shard_indices scheme)"

text \<open>The streams to read from, before the client is answered.\<close>

definition open_object ::
  "coord_env \<Rightarrow> cluster_document \<Rightarrow> metadata_record \<Rightarrow> string \<Rightarrow> scheme \<Rightarrow> nat \<Rightarrow> get_state co_op" where
  "open_object E doc rc key scheme block_count c =
     (let st = (\<lambda>sources unreadable parity. \<lparr>gs_sources = sources, gs_unreadable = unreadable, gs_parity_open = parity,
            gs_reconstructed = [], gs_hashed = [], gs_delivered = 0, gs_sequence = 0\<rparr>) in
      if rec_size rc = 0 then (Ok (st [] [] False), c)
      else op_bind (open_shards E doc rc key 0 block_count (data_shard_indices scheme)) (\<lambda>(sources, unreadable).
        op_bind (if unreadable = [] then op_return (Ok (st sources unreadable False))
                 else op_bind (open_shards E doc rc key 0 block_count (parity_indices scheme)) (\<lambda>(parity, more).
                      op_return (Ok (st (sources @ parity) (unreadable @ more) True)))) (\<lambda>s.
        op_return (if length (gs_unreadable s) > parity_shards scheme
                   then bind_res (too_many_unreadable key rc (gs_unreadable s)) (\<lambda>detail. Err (FailError detail))
                   else Ok s))) c)"

text \<open>What the parts of a read share.\<close>

record get_env =
  ge_id :: nat
  ge_doc :: cluster_document
  ge_record :: metadata_record
  ge_key :: string
  ge_code :: rs_code
  ge_blocks :: nat

definition stripe_size :: "scheme \<Rightarrow> metadata_record \<Rightarrow> nat" where
  "stripe_size scheme rc = wrap64 (data_shards scheme * rec_block_size rc)"

definition stripe_count :: "scheme \<Rightarrow> metadata_record \<Rightarrow> nat" where
  "stripe_count scheme rc = div_ceil (rec_size rc) (max (stripe_size scheme rc) 1)"

definition stripe_length :: "scheme \<Rightarrow> metadata_record \<Rightarrow> nat \<Rightarrow> nat" where
  "stripe_length scheme rc stripe =
     min (rec_size rc - stripe * stripe_size scheme rc) (stripe_size scheme rc)"

text \<open>An error detail closes the connection to the client.\<close>

definition or_close :: "nat \<Rightarrow> (error_detail, 'a) res \<Rightarrow> 'a co_op" where
  "or_close n r c = (case r of Ok x \<Rightarrow> (Ok x, c) | Err detail \<Rightarrow> fail_and_close n detail c | Panic \<Rightarrow> (Panic, c))"

definition decode_detail :: "get_env \<Rightarrow> nat \<Rightarrow> stripe_error \<Rightarrow> error_detail" where
  "decode_detail G stripe e = (error_detail_new EcInternal)\<lparr>ed_key := Some (ge_key G),
     ed_version := Some (rec_version (ge_record G)), ed_stripe := Some stripe\<rparr>"

definition decode_sources ::
  "coord_env \<Rightarrow> get_env \<Rightarrow> nat \<Rightarrow> shard_source list \<Rightarrow> shard_block list \<Rightarrow> decoded_stripe co_op" where
  "decode_sources E G stripe sources received =
     or_close (ge_id G) (map_err (decode_detail G stripe)
       (decode_stripe (ce_libs E) (ge_code G) (map ss_index sources) received
          (stripe_length (code_scheme (ge_code G)) (ge_record G) stripe)))"

text \<open>A damaged block: the parity shards are opened from this stripe on.\<close>

definition fetch_parity :: "coord_env \<Rightarrow> get_env \<Rightarrow> nat \<Rightarrow> get_state \<Rightarrow> (get_state \<times> shard_block list) co_op" where
  "fetch_parity E G stripe st c =
     (case open_shards E (ge_doc G) (ge_record G) (ge_key G) stripe (ge_blocks G - stripe)
         (parity_indices (code_scheme (ge_code G))) c of
        (Err (FailError detail), c1) \<Rightarrow> fail_and_close (ge_id G) detail c1
      | (Err other, c1) \<Rightarrow> (Err other, c1)
      | (Panic, c1) \<Rightarrow> (Panic, c1)
      | (Ok (opened, missing), c1) \<Rightarrow>
          op_bind (or_close (ge_id G) (read_stripe_blocks stripe (ge_key G) (ge_record G) opened)) (\<lambda>(blocks, parity).
          op_return (Ok (st\<lparr>gs_sources := gs_sources st @ parity, gs_unreadable := gs_unreadable st @ missing,
            gs_parity_open := True\<rparr>, blocks))) c1)"

fun send_chunks :: "libs \<Rightarrow> nat \<Rightarrow> nat \<Rightarrow> bytes list \<Rightarrow> unit co_op" where
  "send_chunks L n sequence [] c = (Ok (), c)"
| "send_chunks L n sequence (chunk # rest) c =
     op_bind (lift_op (\<lambda>e. FailClose (end_of_wire e)) (send (MsgData n (body_frame L sequence chunk)))) (\<lambda>_.
     send_chunks L n (Suc sequence) rest) c"

function chunks :: "nat \<Rightarrow> 'a list \<Rightarrow> 'a list list" where
  "chunks n xs = (if n = 0 \<or> xs = [] then [] else take n xs # chunks n (drop n xs))"
  by pat_completeness auto
termination by (relation "measure (\<lambda>(n, xs). length xs)") auto

declare chunks.simps [simp del]

fun note_faults :: "metadata_record \<Rightarrow> unreadable_shard list \<Rightarrow> nat \<Rightarrow> block_fault list \<Rightarrow> (failure, reconstruction list) res" where
  "note_faults rc unreadable stripe [] = Ok []"
| "note_faults rc unreadable stripe (f # fs) =
     (if \<exists>u\<in>set unreadable. us_index u = fault_index f then note_faults rc unreadable stripe fs
      else bind_res (expect (device_for rc (fault_index f))) (\<lambda>device.
        bind_res (note_faults rc unreadable stripe fs) (\<lambda>rest.
        Ok (\<lparr>rx_shard_index = fault_index f, rx_device = device, rx_fault = fault_kind f, rx_first_stripe = stripe,
             rx_stripes = 1\<rparr> # rest))))"

definition stripe_data ::
  "get_env \<Rightarrow> nat \<Rightarrow> get_state \<Rightarrow> decoded_stripe \<Rightarrow> (bytes \<times> reconstruction list) co_op" where
  "stripe_data G stripe st decoded =
     (case decoded of
        Intact data \<Rightarrow> op_return (Ok (data, []))
      | Repaired data faults \<Rightarrow> op_return (bind_res (note_faults (ge_record G) (gs_unreadable st) stripe faults) (\<lambda>noted. Ok (data, noted)))
      | Unrecoverable usable needed faults \<Rightarrow>
          (case faults of
             [] \<Rightarrow> op_return Panic
           | first # _ \<Rightarrow> fail_and_close (ge_id G) ((error_detail_new EcBlockChecksumMismatch)
               \<lparr>ed_device := device_for (ge_record G) (fault_index first), ed_key := Some (ge_key G),
                ed_version := Some (rec_version (ge_record G)), ed_shard_index := Some (fault_index first),
                ed_stripe := Some stripe\<rparr>)))"

definition send_stripe_data :: "coord_env \<Rightarrow> get_env \<Rightarrow> get_state \<Rightarrow> bytes \<Rightarrow> reconstruction list \<Rightarrow> get_state co_op" where
  "send_stripe_data E G st data noted =
     (if rec_block_size (ge_record G) = 0 then op_return Panic
      else let pieces = chunks (rec_block_size (ge_record G)) data in
        op_bind (send_chunks (ce_libs E) (ge_id G) (gs_sequence st) pieces) (\<lambda>_.
        op_return (Ok (st\<lparr>gs_reconstructed := gs_reconstructed st @ noted, gs_hashed := gs_hashed st @ data,
          gs_delivered := gs_delivered st + length data, gs_sequence := gs_sequence st + length pieces\<rparr>))))"

definition decode_stripe_of :: "coord_env \<Rightarrow> get_env \<Rightarrow> nat \<Rightarrow> get_state \<Rightarrow> (get_state \<times> decoded_stripe) co_op" where
  "decode_stripe_of E G stripe st =
     op_bind (or_close (ge_id G) (read_stripe_blocks stripe (ge_key G) (ge_record G) (gs_sources st))) (\<lambda>(received, sources).
     op_bind (decode_sources E G stripe sources received) (\<lambda>decoded.
     if \<not> gs_parity_open st \<and> \<not> (\<exists>data. decoded = Intact data)
     then op_bind (fetch_parity E G stripe (st\<lparr>gs_sources := sources\<rparr>)) (\<lambda>(st, blocks).
          op_bind (decode_sources E G stripe (gs_sources st) (received @ blocks)) (\<lambda>decoded.
          op_return (Ok (st, decoded))))
     else op_return (Ok (st\<lparr>gs_sources := sources\<rparr>, decoded))))"

definition get_stripe :: "coord_env \<Rightarrow> get_env \<Rightarrow> nat \<Rightarrow> get_state \<Rightarrow> get_state co_op" where
  "get_stripe E G stripe st =
     op_bind (decode_stripe_of E G stripe st) (\<lambda>(st, decoded).
     op_bind (stripe_data G stripe st decoded) (\<lambda>(data, noted).
     send_stripe_data E G st data noted))"

fun get_stripes :: "coord_env \<Rightarrow> get_env \<Rightarrow> nat list \<Rightarrow> get_state \<Rightarrow> get_state co_op" where
  "get_stripes E G [] st c = (Ok st, c)"
| "get_stripes E G (stripe # stripes) st c = op_bind (get_stripe E G stripe st) (get_stripes E G stripes) c"

text \<open>Every stream ends without an error.\<close>

fun streams_end :: "get_env \<Rightarrow> shard_source list \<Rightarrow> (error_detail, unit) res" where
  "streams_end G [] = Ok ()"
| "streams_end G (source # sources) =
     (case read_stream_item (ss_request_id source) (ss_connection source) of
        (Panic, _) \<Rightarrow> Panic
      | (r, _) \<Rightarrow>
          if (case r of Ok (ItemEnd end) \<Rightarrow> se_error end = None | _ \<Rightarrow> False) then streams_end G sources
          else Err ((error_detail_new EcProtocolViolation)\<lparr>ed_node := Some (ss_owner source), ed_device := Some (ss_device source),
            ed_key := Some (ge_key G), ed_version := Some (rec_version (ge_record G)), ed_shard_index := Some (ss_index source)\<rparr>))"

definition whole_reconstruction :: "nat \<Rightarrow> unreadable_shard \<Rightarrow> reconstruction" where
  "whole_reconstruction stripes u = \<lparr>rx_shard_index = us_index u, rx_device = us_device u, rx_fault = us_fault u,
     rx_first_stripe = us_first_stripe u, rx_stripes = stripes - us_first_stripe u\<rparr>"

definition finish_get :: "coord_env \<Rightarrow> get_env \<Rightarrow> missing_record_copy list \<Rightarrow> get_state \<Rightarrow> unit co_op" where
  "finish_get E G missing st =
     (let rc = ge_record G; stripes = stripe_count (code_scheme (ge_code G)) rc in
      op_bind (or_close (ge_id G) (streams_end G (gs_sources st))) (\<lambda>_.
      if gs_delivered st \<noteq> rec_size rc \<or> checksum_block (ce_libs E) (gs_hashed st) \<noteq> rec_object_checksum rc
      then fail_and_close (ge_id G) ((error_detail_new EcObjectChecksumMismatch)\<lparr>ed_key := Some (ge_key G),
             ed_version := Some (rec_version rc)\<rparr>)
      else lift_op (\<lambda>e. FailClose (end_of_wire e)) (send (MsgEndOfStream (ge_id G) \<lparr>se_error = None, se_object_size = None,
             se_object_checksum = None,
             se_reconstructed = gs_reconstructed st @ map (whole_reconstruction stripes) (gs_unreadable st),
             se_missing_records = missing\<rparr>))))"

definition co_reply :: "message \<Rightarrow> unit co_op" where
  "co_reply m = lift_op (\<lambda>e. FailClose (end_of_wire e)) (send m)"

fun co_respond :: "nat \<Rightarrow> (failure, response) res \<Rightarrow> unit co_op" where
  "co_respond n (Ok r) c = co_reply (MsgResponse n r) c"
| "co_respond n (Err (FailError detail)) c =
     op_bind (co_reply (MsgResponse n (RespError detail))) (\<lambda>_. op_return (Err (FailError detail))) c"
| "co_respond n (Err (FailClose end)) c = (Err (FailClose end), c)"
| "co_respond n Panic c = (Panic, c)"

text \<open>The checks of the record and the opening of the shards; a failure here is the response.\<close>

definition prepare_get ::
  "coord_env \<Rightarrow> string \<Rightarrow> (metadata_record \<times> missing_record_copy list \<times> scheme \<times> nat \<times> get_state) co_op" where
  "prepare_get E key c =
     op_bind (newest_readable_version E key) (\<lambda>(rc, missing).
     op_bind (op_return (map_err (\<lambda>_. fail EcRecordsInconsistent) (record_scheme rc))) (\<lambda>scheme.
     op_bind (op_return (map_err (\<lambda>_. fail EcInternal) (shard_geometry scheme (rec_block_size rc) (max (rec_size rc) 1)))) (\<lambda>geometry.
     op_bind (op_return (ok_or (fail EcRecordsInconsistent) geometry)) (\<lambda>g.
     op_bind (open_object E (co_document c) rc key scheme (geo_block_count g)) (\<lambda>st.
     op_return (Ok (rc, missing, scheme, geo_block_count g, st))))))) c"

definition get_object :: "coord_env \<Rightarrow> nat \<Rightarrow> string \<Rightarrow> unit co_op" where
  "get_object E n key c =
     (case prepare_get E key c of
        (Err f, c1) \<Rightarrow> co_respond n (Err f) c1
      | (Panic, c1) \<Rightarrow> (Panic, c1)
      | (Ok (rc, missing, scheme, block_count, st), c1) \<Rightarrow>
          op_bind (co_respond n (Ok (RespGetObject rc))) (\<lambda>_.
          op_bind (op_return (map_err (\<lambda>_. fail EcInternal) (rs_code_new (ce_libs E) scheme))) (\<lambda>code.
          let G = \<lparr>ge_id = n, ge_doc = co_document c, ge_record = rc, ge_key = key, ge_code = code, ge_blocks = block_count\<rparr> in
          op_bind (get_stripes E G [0..<stripe_count scheme rc] st) (finish_get E G missing))) c1)"

section \<open>What a read that ends well has delivered\<close>

lemma op_bind_OkE:
  assumes "op_bind m f c = (Ok y, c')"
  obtains x c1 where "m c = (Ok x, c1)" "f x c1 = (Ok y, c')"
  using assms by (auto simp: op_bind_def split: prod.splits res.splits)

lemma fail_and_close_not_Ok [simp]: "fail_and_close n detail c \<noteq> (Ok x, c')"
  by (simp add: fail_and_close_def)

lemma or_close_Ok [simp]: "or_close n r c = (Ok x, c') \<longleftrightarrow> r = Ok x \<and> c' = c"
  by (cases r) (auto simp: or_close_def)

lemma bind_res_never_Ok [simp]: "bind_res r (\<lambda>x. Err (f x)) \<noteq> Ok y"
  by (cases r) simp_all

lemma co_respond_Err [simp]: "co_respond n (Err f) c \<noteq> (Ok x, c')"
  by (cases f) (auto simp: channel_defs split: prod.splits res.splits)

lemma dialled_open_shard_sources [dialled_rules]:
  "dialled c (snd (open_shard_sources E doc rc key indices first_block block_count c))"
proof -
  have one: "dialled c (snd (open_shard_source E doc rc key first_block block_count i c))" for i c
    unfolding open_shard_source_def Let_def by (intro dialled_rules)
  have "dialled c (snd (open_each (open_shard_source E doc rc key first_block block_count) is c))" for "is" c
  proof (induction "is" arbitrary: c)
    case (Cons i "is")
    show ?case unfolding open_each.simps by (intro dialled_rules one Cons.IH)
  qed simp
  then show ?thesis unfolding open_shard_sources_def by (intro dialled_rules)
qed

lemma dialled_open_shards [dialled_rules]: "dialled c (snd (open_shards E doc rc key b n indices c))"
proof (induction indices arbitrary: c)
  case (Cons i "is")
  have tail: "dialled c0 (snd (op_bind (open_shards E doc rc key b n is) (\<lambda>x. op_return (f x)) c0))" for f c0
    by (intro dialled_rules Cons.IH)
  show ?case
  proof (cases "device_for rc i")
    case (Some device)
    obtain r c1 where open1: "open_shard_sources E doc rc key [i] b n c = (r, c1)" by fastforce
    then have c1: "dialled c c1" using dialled_open_shard_sources [of c E doc rc key "[i]" b n] by simp
    show ?thesis
      by (auto simp: Some open1 case_prod_unfold c1 intro!: dialled_trans [OF c1 tail] split: res.split failure.split option.split)
  qed (simp add: op_return_def)
qed simp

lemma dialled_open_object [dialled_rules]: "dialled c (snd (open_object E doc rc key scheme n c))"
  unfolding open_object_def Let_def case_prod_unfold
  by (cases "rec_size rc = 0") (auto intro!: dialled_rules split: if_split)

lemma dialled_prepare_get: "dialled c (snd (prepare_get E key c))"
  unfolding prepare_get_def case_prod_unfold by (intro dialled_rules)

lemma concat_chunks [simp]: "0 < n \<Longrightarrow> concat (chunks n xs) = xs"
  by (induction n xs rule: chunks.induct) (subst chunks.simps, simp)

lemma frames_ok_append:
  "frames_ok L k (fs @ gs) \<longleftrightarrow> frames_ok L k fs \<and> frames_ok L (k + length fs) gs"
  by (induction fs arbitrary: k) (simp_all add: frames_ok_Cons, simp add: frames_ok_def)

definition body_frames :: "libs \<Rightarrow> nat \<Rightarrow> bytes list \<Rightarrow> data_frame list" where
  "body_frames L k pieces = map (\<lambda>(i, b). body_frame L i b) (enumerate k pieces)"

lemma body_frames_simps [simp]:
  "body_frames L k [] = []" "body_frames L k (b # bs) = body_frame L k b # body_frames L (Suc k) bs"
  "length (body_frames L k bs) = length bs" "map df_bytes (body_frames L k bs) = bs"
  by (simp_all add: body_frames_def) (induction bs arbitrary: k, simp_all add: body_frame_def)

lemma frames_ok_body_frames [simp]: "frames_ok L k (body_frames L k pieces)"
  by (induction pieces arbitrary: k) (simp_all add: frames_ok_Cons body_frame_def, simp add: frames_ok_def)

lemma send_chunks_Ok:
  "send_chunks L n k pieces c = (Ok (), c') \<longleftrightarrow> length pieces \<le> ch_room c \<and>
     c' = c\<lparr>ch_out := ch_out c @ map (MsgData n) (body_frames L k pieces), ch_room := ch_room c - length pieces\<rparr>"
proof (induction pieces arbitrary: k c)
  case (Cons p ps)
  show ?case
  proof (cases "ch_room c")
    case (Suc r)
    then have step: "send_chunks L n k (p # ps) c =
      send_chunks L n (Suc k) ps (c\<lparr>ch_out := ch_out c @ [MsgData n (body_frame L k p)], ch_room := r\<rparr>)"
      by (simp add: channel_defs)
    show ?thesis unfolding step Cons.IH using Suc by auto
  qed (simp add: channel_defs)
qed auto

text \<open>A part of a read sends data frames, numbered on, that carry what it adds to the hash.\<close>

definition delivers :: "libs \<Rightarrow> nat \<Rightarrow> coord \<Rightarrow> get_state \<Rightarrow> coord \<Rightarrow> get_state \<Rightarrow> bool" where
  "delivers L n c st c' st' \<longleftrightarrow> (\<exists>frames. ch_out c' = ch_out c @ map (MsgData n) frames \<and>
     frames_ok L (gs_sequence st) frames \<and> gs_sequence st' = gs_sequence st + length frames \<and>
     gs_hashed st' = gs_hashed st @ concat (map df_bytes frames) \<and>
     gs_delivered st' = gs_delivered st + length (concat (map df_bytes frames)))"

lemma delivers_nothing: "ch_out c' = ch_out c \<Longrightarrow> gs_sequence st' = gs_sequence st \<Longrightarrow> gs_hashed st' = gs_hashed st \<Longrightarrow>
    gs_delivered st' = gs_delivered st \<Longrightarrow> delivers L n c st c' st'"
  unfolding delivers_def by (rule exI [of _ "[]"]) (simp add: frames_ok_def)

lemma delivers_trans:
  assumes "delivers L n c st c1 st1" "delivers L n c1 st1 c2 st2"
  shows "delivers L n c st c2 st2"
proof -
  obtain f g where "ch_out c1 = ch_out c @ map (MsgData n) f" "frames_ok L (gs_sequence st) f"
    "gs_sequence st1 = gs_sequence st + length f" "gs_hashed st1 = gs_hashed st @ concat (map df_bytes f)"
    "gs_delivered st1 = gs_delivered st + length (concat (map df_bytes f))"
    "ch_out c2 = ch_out c1 @ map (MsgData n) g" "frames_ok L (gs_sequence st1) g"
    "gs_sequence st2 = gs_sequence st1 + length g" "gs_hashed st2 = gs_hashed st1 @ concat (map df_bytes g)"
    "gs_delivered st2 = gs_delivered st1 + length (concat (map df_bytes g))"
    using assms unfolding delivers_def by blast
  then show ?thesis unfolding delivers_def by (intro exI [of _ "f @ g"]) (simp add: frames_ok_append)
qed

lemma send_stripe_data_delivers:
  assumes "send_stripe_data E G st data noted c = (Ok st', c')"
  shows "delivers (ce_libs E) (ge_id G) c st c' st'"
proof -
  let ?pieces = "chunks (rec_block_size (ge_record G)) data"
  have size: "0 < rec_block_size (ge_record G)" using assms by (auto simp: send_stripe_data_def op_return_def split: if_splits)
  then have run: "send_chunks (ce_libs E) (ge_id G) (gs_sequence st) ?pieces c = (Ok (), c')"
    and st': "st' = st\<lparr>gs_reconstructed := gs_reconstructed st @ noted, gs_hashed := gs_hashed st @ data,
      gs_delivered := gs_delivered st + length data, gs_sequence := gs_sequence st + length ?pieces\<rparr>"
    using assms by (auto simp: send_stripe_data_def Let_def op_return_def elim!: op_bind_OkE)
  show ?thesis
    unfolding delivers_def
    by (rule exI [of _ "body_frames (ce_libs E) (gs_sequence st) ?pieces"])
      (use run st' size in \<open>simp add: send_chunks_Ok\<close>)
qed

lemma fetch_parity_Ok:
  assumes "fetch_parity E G stripe st c = (Ok (st', blocks), c')"
  shows "dialled c c' \<and> gs_sequence st' = gs_sequence st \<and> gs_hashed st' = gs_hashed st \<and> gs_delivered st' = gs_delivered st"
proof -
  obtain r c1 where run: "open_shards E (ge_doc G) (ge_record G) (ge_key G) stripe (ge_blocks G - stripe)
      (parity_indices (code_scheme (ge_code G))) c = (r, c1)" by fastforce
  then have "dialled c c1" using dialled_open_shards by (metis snd_conv)
  with run show ?thesis
    using assms by (auto simp: fetch_parity_def op_return_def split: res.splits failure.splits elim!: op_bind_OkE)
qed

lemma decode_stripe_of_Ok:
  assumes "decode_stripe_of E G stripe st c = (Ok (st', decoded), c')"
  shows "dialled c c' \<and> gs_sequence st' = gs_sequence st \<and> gs_hashed st' = gs_hashed st \<and> gs_delivered st' = gs_delivered st"
  using assms
  by (auto simp: decode_stripe_of_def decode_sources_def op_return_def split: if_splits elim!: op_bind_OkE dest!: fetch_parity_Ok)

lemma stripe_data_same: "stripe_data G stripe st decoded c = (Ok x, c') \<Longrightarrow> c' = c"
  by (auto simp: stripe_data_def op_return_def split: decoded_stripe.splits list.splits)

lemma get_stripe_delivers:
  assumes "get_stripe E G stripe st c = (Ok st', c')"
  shows "delivers (ce_libs E) (ge_id G) c st c' st'"
proof -
  obtain st1 decoded c1 where s1: "decode_stripe_of E G stripe st c = (Ok (st1, decoded), c1)" and
    rest: "op_bind (stripe_data G stripe st1 decoded) (\<lambda>(data, noted). send_stripe_data E G st1 data noted) c1 = (Ok st', c')"
    using assms unfolding get_stripe_def by (rule op_bind_OkE) auto
  from rest obtain data noted c2 where "stripe_data G stripe st1 decoded c1 = (Ok (data, noted), c2)"
    "send_stripe_data E G st1 data noted c2 = (Ok st', c')"
    by (rule op_bind_OkE) auto
  then have "send_stripe_data E G st1 data noted c1 = (Ok st', c')" by (auto dest: stripe_data_same)
  moreover have "delivers (ce_libs E) (ge_id G) c st c1 st1"
    using decode_stripe_of_Ok [OF s1] by (intro delivers_nothing) (auto simp: dialled_keeps)
  ultimately show ?thesis by (blast intro: delivers_trans send_stripe_data_delivers)
qed

lemma get_stripes_delivers:
  "get_stripes E G stripes st c = (Ok st', c') \<Longrightarrow> delivers (ce_libs E) (ge_id G) c st c' st'"
proof (induction stripes arbitrary: st c)
  case Nil
  then show ?case by (simp add: delivers_nothing)
next
  case (Cons s ss)
  then show ?case by (auto elim!: op_bind_OkE intro: delivers_trans get_stripe_delivers)
qed

lemma open_object_starts:
  assumes "open_object E doc rc key scheme n c = (Ok st, c')"
  shows "gs_sequence st = 0 \<and> gs_hashed st = [] \<and> gs_delivered st = 0"
  using assms
  by (auto simp: open_object_def Let_def op_return_def split: if_splits prod.splits res.splits elim!: op_bind_OkE)

text \<open>C7: A read the coordinator ends well has delivered the object whole.  Whatever the nodes send,
  if the coordinator ends the stream without an error, then the record it announced is the newest
  version that can be trusted, the data frames it sent are numbered from zero, each with its
  checksum, and the bytes in them have the size and the checksum of the record.\<close>

theorem get_object_whole:
  assumes run: "get_object E n key c = (Ok (), c')"
  shows "\<exists>rc missing frames end. fst (newest_readable_version E key c) = Ok (rc, missing) \<and>
    ch_out c' = ch_out c @ MsgResponse n (RespGetObject rc) # map (MsgData n) frames @ [MsgEndOfStream n end] \<and>
    frames_ok (ce_libs E) 0 frames \<and> se_error end = None \<and> se_missing_records end = missing \<and>
    length (concat (map df_bytes frames)) = rec_size rc \<and>
    checksum_block (ce_libs E) (concat (map df_bytes frames)) = rec_object_checksum rc"
proof -
  obtain r c1 where prep: "prepare_get E key c = (r, c1)" by fastforce
  then have c1: "ch_out c1 = ch_out c" using dialled_prepare_get [of c E key] by (simp add: dialled_keeps)
  obtain rc missing scheme count st where r: "r = Ok (rc, missing, scheme, count, st)"
    using run prep by (cases r) (auto simp: get_object_def op_return_def elim!: op_bind_OkE split: failure.splits)
  have found: "fst (newest_readable_version E key c) = Ok (rc, missing)" and
    start: "gs_sequence st = 0" "gs_hashed st = []" "gs_delivered st = 0"
    using prep r by (auto simp: prepare_get_def op_return_def split: res.splits option.splits
        elim!: op_bind_OkE dest!: open_object_starts)
  obtain code c2 c3 st' where c2: "co_respond n (Ok (RespGetObject rc)) c1 = (Ok (), c2)"
    and run2: "get_stripes E \<lparr>ge_id = n, ge_doc = co_document c, ge_record = rc, ge_key = key, ge_code = code, ge_blocks = count\<rparr>
        [0..<stripe_count scheme rc] st c2 = (Ok st', c3)"
    and fin: "finish_get E \<lparr>ge_id = n, ge_doc = co_document c, ge_record = rc, ge_key = key, ge_code = code, ge_blocks = count\<rparr>
        missing st' c3 = (Ok (), c')"
    using run prep r by (auto simp: get_object_def Let_def op_return_def split: res.splits elim!: op_bind_OkE)
  have out2: "ch_out c2 = ch_out c @ [MsgResponse n (RespGetObject rc)]"
    using c2 c1 by (auto simp: co_reply_def channel_defs split: if_splits)
  obtain frames where frames: "ch_out c3 = ch_out c2 @ map (MsgData n) frames" "frames_ok (ce_libs E) 0 frames"
    "gs_hashed st' = concat (map df_bytes frames)" "gs_delivered st' = length (concat (map df_bytes frames))"
    using get_stripes_delivers [OF run2] start by (auto simp: delivers_def)
  obtain fin_end where "ch_out c' = ch_out c3 @ [MsgEndOfStream n fin_end]" "se_error fin_end = None" "se_missing_records fin_end = missing"
    "gs_delivered st' = rec_size rc" "checksum_block (ce_libs E) (gs_hashed st') = rec_object_checksum rc"
    using fin by (auto simp: finish_get_def Let_def lift_op_def send_def split: if_splits elim!: op_bind_OkE)
  with found out2 frames show ?thesis by (intro exI conjI) (assumption | simp)+
qed

end
