(* ===== verification/CoordPut.thy ===== *)
theory CoordPut
  imports CoordGet
begin

text \<open>
  Writing an object (\<open>put_object\<close> of \<open>djbod-node/src/coordinator.rs\<close>): the checks
  and the placement, a connection to every chosen device, the body cut into
  stripes and encoded, the blocks sent out, the record written to every device and
  the older versions removed.
\<close>

section \<open>Placement\<close>

definition place :: "device_status list \<Rightarrow> scheme \<Rightarrow> nat \<Rightarrow> (failure, device_status list) res" where
  "place statuses scheme shard_bytes =
     (let eligible = sort_key (\<lambda>d. (- int (ds_free_bytes d), ds_device d))
            (filter (\<lambda>d. ds_state d = DevActive \<and> ds_available d \<and> ds_free_bytes d \<ge> shard_bytes) statuses)
      in if length eligible < total_shards scheme then Err (fail EcInsufficientDevices)
         else Ok (take (total_shards scheme) eligible))"

section \<open>Preparing a write\<close>

record put_params =
  pp_key :: string
  pp_size :: nat
  pp_content_type :: "string option"
  pp_user_metadata :: "(string \<times> string) list"

record shard_writer =
  ww_index :: shard_index
  ww_device :: device_id
  ww_owner :: node_id
  ww_connection :: connection
  ww_request_id :: nat

record prepared_put =
  pr_scheme :: scheme
  pr_record :: metadata_record
  pr_writers :: "shard_writer list"
  pr_unavailable :: "unavailable_device list"

definition check_put :: "cluster_document \<Rightarrow> put_params \<Rightarrow> (failure, scheme) res" where
  "check_put doc p =
     (if (case pp_content_type p of Some t \<Rightarrow> length t > MAX_CONTENT_TYPE_BYTES | None \<Rightarrow> False) then Err (fail EcMetadataTooLarge)
      else if sum_list (map (\<lambda>(k, v). length k + length v) (pp_user_metadata p)) > doc_max_user_metadata_bytes doc
      then Err (fail EcMetadataTooLarge)
      else if pp_size p > doc_max_object_bytes doc then Err (fail EcObjectTooLarge)
      else map_err (\<lambda>_. fail EcInternal) (doc_scheme doc))"

fun all_statuses :: "(node_id \<times> response) list \<Rightarrow> (failure, device_status list) res" where
  "all_statuses [] = Ok []"
| "all_statuses ((target, RespLocalStatus _ _ _ _ devices) # rest) =
     bind_res (all_statuses rest) (\<lambda>ds. Ok (devices @ ds))"
| "all_statuses ((target, _) # rest) = Err (fail EcProtocolViolation)"

definition next_version :: "version_id co_op" where
  "next_version c =
     (case co_clock c of (now, random, _) \<Rightarrow>
      case generator_next (co_versions c) now random of (version, g) \<Rightarrow> (Ok version, c\<lparr>co_versions := g\<rparr>))"

definition put_shard_request ::
  "device_id \<Rightarrow> key_hash \<Rightarrow> version_id \<Rightarrow> shard_index \<Rightarrow> scheme \<Rightarrow> nat \<Rightarrow> nat \<Rightarrow> request" where
  "put_shard_request device key_hash version index scheme block_size sz =
     ReqPutShard \<lparr>ps_device = device, ps_key_hash = key_hash, ps_version = version, ps_shard_index = index,
       ps_k = data_shards scheme mod 256, ps_m = parity_shards scheme mod 256, ps_block_length = block_size, ps_object_size = sz\<rparr>"

text \<open>A connection to a chosen device; a device of an empty object is only sent the record.\<close>

definition open_writer :: "coord_env \<Rightarrow> metadata_record \<Rightarrow> scheme \<Rightarrow> nat \<times> device_status \<Rightarrow> shard_writer co_op" where
  "open_writer E rc scheme = (\<lambda>(i, status).
     let owner = ds_node status;
         request = (if rec_size rc > 0
           then put_shard_request (ds_device status) (rec_key_hash rc) (rec_version rc) (i mod 256) scheme (rec_block_size rc) (rec_size rc)
           else ReqPutMeta (ds_device status) rc);
         writer = (\<lambda>conn n. \<lparr>ww_index = i mod 256, ww_device = ds_device status, ww_owner = owner, ww_connection = conn, ww_request_id = n\<rparr>)
     in op_bind (connect_to E owner request) (\<lambda>conn.
        op_return (
          if rec_size rc = 0 then Ok (writer conn 0)
          else case send_request request conn of
            (Err e, _) \<Rightarrow> Err (remote_failure owner e)
          | (Panic, _) \<Rightarrow> Panic
          | (Ok n, conn1) \<Rightarrow>
              (case read_response n conn1 of
                 (Err e, _) \<Rightarrow> Err (remote_failure owner e)
               | (Panic, _) \<Rightarrow> Panic
               | (Ok RespPutShardReady, conn2) \<Rightarrow> Ok (writer conn2 n)
               | (Ok _, _) \<Rightarrow> Err (fail EcProtocolViolation)))))"

definition put_record ::
  "put_params \<Rightarrow> key_hash \<Rightarrow> version_id \<Rightarrow> timestamp \<Rightarrow> scheme \<Rightarrow> nat \<Rightarrow> device_status list \<Rightarrow> metadata_record" where
  "put_record p key_hash version created scheme block_size chosen =
     \<lparr>rec_format_version = RECORD_FORMAT_VERSION, rec_system = SYSTEM_NAME, rec_bucket = ''default'', rec_key = pp_key p,
      rec_key_hash = key_hash, rec_version = version, rec_created = created, rec_size = pp_size p, rec_object_checksum = 0,
      rec_k = data_shards scheme mod 256, rec_m = parity_shards scheme mod 256, rec_block_size = block_size,
      rec_shards = map (\<lambda>(i, status). \<lparr>loc_index = i mod 256, loc_device = ds_device status\<rparr>) (enumerate 0 chosen),
      rec_revision = 0, rec_content_type = pp_content_type p, rec_user_metadata = pp_user_metadata p\<rparr>"

definition prepare_put :: "coord_env \<Rightarrow> put_params \<Rightarrow> prepared_put co_op" where
  "prepare_put E p c =
     (let doc = co_document c; key_hash = hash_key (ce_libs E) (as_bytes (pp_key p)) in
      op_bind (op_return (check_key (co_node c) (pp_key p))) (\<lambda>_.
      op_bind (op_return (check_put doc p)) (\<lambda>scheme.
      op_bind (lookup E key_hash) (\<lambda>existing.
      op_bind (op_return (versions_of (pp_key p) existing)) (\<lambda>_.
      op_bind (broadcast E ReqLocalStatus) (\<lambda>answers.
      op_bind (op_return (all_statuses answers)) (\<lambda>statuses.
      op_bind (op_return (if pp_size p = 0 then Ok 0
        else bind_res (map_err (\<lambda>_. fail EcInternal) (shard_file_length scheme (doc_block_size doc) (pp_size p)))
               (ok_or (fail EcInternal)))) (\<lambda>shard_bytes.
      op_bind (op_return (place statuses scheme shard_bytes)) (\<lambda>chosen.
      op_bind next_version (\<lambda>version.
      let rc = put_record p key_hash version (snd (snd (co_clock c))) scheme (doc_block_size doc) chosen in
      op_bind (open_each (open_writer E rc scheme) (enumerate 0 chosen)) (\<lambda>writers.
      op_return (Ok \<lparr>pr_scheme = scheme, pr_record = rc, pr_writers = writers,
        pr_unavailable = map (\<lambda>d. \<lparr>ud_device = ds_device d, ud_node = ds_node d\<rparr>)
          (filter (\<lambda>d. ds_state d = DevActive \<and> \<not> ds_available d) statuses)\<rparr>))))))))))) c)"

section \<open>Sending the body\<close>

text \<open>A message to one writer.\<close>

definition writer_op :: "'a conn_op \<Rightarrow> shard_writer \<Rightarrow> (failure, 'a) res \<times> shard_writer" where
  "writer_op m writer =
     (case m (ww_connection writer) of (r, conn) \<Rightarrow>
        (map_err (remote_failure (ww_owner writer)) r, writer\<lparr>ww_connection := conn\<rparr>))"

fun send_to_each :: "(shard_writer \<Rightarrow> 'b \<Rightarrow> unit conn_op) \<Rightarrow> 'b list \<Rightarrow> (shard_writer list, failure, unit) act" where
  "send_to_each f (b # bs) (writer # writers) =
     (case writer_op (f writer b) writer of
        (Ok _, writer') \<Rightarrow> (case send_to_each f bs writers of (r, writers') \<Rightarrow> (r, writer' # writers'))
      | (r, writer') \<Rightarrow> (r, writer' # writers))"
| "send_to_each f _ writers = (Ok (), writers)"

definition send_stripe :: "libs \<Rightarrow> rs_code \<Rightarrow> metadata_record \<Rightarrow> nat \<Rightarrow> bytes \<Rightarrow> (shard_writer list, failure, unit) act" where
  "send_stripe L code rc stripe_number stripe =
     op_bind (op_return (map_err (\<lambda>_. fail EcInternal) (encode_stripe L code stripe (rec_block_size rc)))) (\<lambda>blocks.
     send_to_each (\<lambda>writer block. send_data (ww_request_id writer)
       \<lparr>df_sequence = stripe_number, df_checksum = sb_checksum block, df_bytes = sb_bytes block\<rparr>) blocks)"

text \<open>
  The bytes of one chunk go into the stripe buffer; every full stripe is sent.  A
  buffer longer than a stripe, which does not occur, is an arithmetic overflow.
\<close>

function fill_stripes ::
  "libs \<Rightarrow> rs_code \<Rightarrow> metadata_record \<Rightarrow> nat \<Rightarrow> bytes \<Rightarrow> bytes \<Rightarrow> nat
   \<Rightarrow> (shard_writer list, failure, bytes \<times> nat) act" where
  "fill_stripes L code rc stripe_sz bs buffer stripe_number writers =
     (if bs = [] then (Ok (buffer, stripe_number), writers)
      else let n = min (stripe_sz - length buffer) (length bs); buffer' = buffer @ take n bs in
        if length buffer' = stripe_sz
        then (case send_stripe L code rc stripe_number buffer' writers of
                (Ok _, writers') \<Rightarrow> fill_stripes L code rc stripe_sz (drop n bs) [] (Suc stripe_number) writers'
              | (Err e, writers') \<Rightarrow> (Err e, writers')
              | (Panic, writers') \<Rightarrow> (Panic, writers'))
        else if n = 0 then (Panic, writers)
        else fill_stripes L code rc stripe_sz (drop n bs) buffer' stripe_number writers)"
  by pat_completeness auto

lemma send_stripe_nonempty: "send_stripe L code rc n stripe writers = (Ok u, writers') \<Longrightarrow> stripe \<noteq> []"
  by (auto simp: send_stripe_def encode_stripe_def split: res.splits)

termination fill_stripes
proof (relation "measures [\<lambda>(L, code, rc, s, bs, buffer, n, w). length bs, \<lambda>(L, code, rc, s, bs, buffer, n, w). length buffer]")
qed (auto dest!: send_stripe_nonempty [OF sym])

declare fill_stripes.simps [simp del]

record body_state =
  bd_received :: nat
  bd_sequence :: nat
  bd_buffer :: bytes
  bd_stripe :: nat
  bd_hashed :: bytes

text \<open>The client's body, message by message; the result is the whole body.\<close>

function receive_chunks ::
  "libs \<Rightarrow> rs_code \<Rightarrow> metadata_record \<Rightarrow> nat \<Rightarrow> body_state \<Rightarrow> (coord \<times> shard_writer list, failure, bytes) act" where
  "receive_chunks L code rc stripe_sz st (c, writers) =
     (case receive c of
        (Err e, c1) \<Rightarrow> (Err (FailClose (end_of_wire e)), (c1, writers))
      | (Panic, c1) \<Rightarrow> (Panic, (c1, writers))
      | (Ok (MsgData _ data), c1) \<Rightarrow>
          if df_sequence data \<noteq> bd_sequence st \<or> checksum_block L (df_bytes data) \<noteq> df_checksum data \<or>
             bd_received st + length (df_bytes data) > rec_size rc
          then (Err (fail EcProtocolViolation), (c1, writers))
          else (case fill_stripes L code rc stripe_sz (df_bytes data) (bd_buffer st) (bd_stripe st) writers of
            (Ok (buffer, n), writers') \<Rightarrow>
              receive_chunks L code rc stripe_sz \<lparr>bd_received = bd_received st + length (df_bytes data),
                bd_sequence = Suc (bd_sequence st), bd_buffer = buffer, bd_stripe = n,
                bd_hashed = bd_hashed st @ df_bytes data\<rparr> (c1, writers')
          | (Err e, writers') \<Rightarrow> (Err e, (c1, writers'))
          | (Panic, writers') \<Rightarrow> (Panic, (c1, writers')))
      | (Ok (MsgEndOfStream _ end), c1) \<Rightarrow>
          if se_error end \<noteq> None then (Err (fail EcWriteFailed), (c1, writers))
          else if bd_received st \<noteq> rec_size rc then (Err (fail EcProtocolViolation), (c1, writers))
          else if bd_buffer st = [] then (Ok (bd_hashed st), (c1, writers))
          else (case send_stripe L code rc (bd_stripe st) (bd_buffer st) writers of
            (r, writers') \<Rightarrow> (bind_res r (\<lambda>_. Ok (bd_hashed st)), (c1, writers')))
      | (Ok _, c1) \<Rightarrow> (Err (fail EcProtocolViolation), (c1, writers)))"
  by pat_completeness auto

termination receive_chunks
  by (relation "measure (\<lambda>(L, code, rc, s, st, c, w). length (ch_in c))") (auto dest!: receive_consumes [OF sym])

declare receive_chunks.simps [simp del]

text \<open>The answer to the end of one shard's stream.\<close>

definition shard_done :: "shard_writer \<Rightarrow> (failure, unit) res \<times> shard_writer" where
  "shard_done writer =
     (case writer_op (read_response (ww_request_id writer)) writer of
        (r, writer') \<Rightarrow> (bind_res r (\<lambda>answer. if answer = RespPutShardDone then Ok () else Err (fail EcProtocolViolation)), writer'))"

fun each_writer :: "(shard_writer \<Rightarrow> (failure, unit) res \<times> shard_writer) \<Rightarrow> (shard_writer list, failure, unit) act" where
  "each_writer f [] = (Ok (), [])"
| "each_writer f (writer # writers) =
     (case f writer of
        (Ok _, writer') \<Rightarrow> (case each_writer f writers of (r, writers') \<Rightarrow> (r, writer' # writers'))
      | (r, writer') \<Rightarrow> (r, writer' # writers))"

definition body_end :: "metadata_record \<Rightarrow> block_checksum \<Rightarrow> stream_end" where
  "body_end rc checksum = \<lparr>se_error = None, se_object_size = Some (rec_size rc), se_object_checksum = Some checksum,
     se_reconstructed = [], se_missing_records = []\<rparr>"

definition finish_writers :: "metadata_record \<Rightarrow> block_checksum \<Rightarrow> (shard_writer list, failure, unit) act" where
  "finish_writers rc checksum =
     (if rec_size rc = 0 then op_return (Ok ())
      else op_bind (each_writer (\<lambda>writer. writer_op (send_end (ww_request_id writer) (body_end rc checksum)) writer)) (\<lambda>_.
           each_writer shard_done))"

definition stream_body_to_writers ::
  "libs \<Rightarrow> scheme \<Rightarrow> metadata_record \<Rightarrow> (coord \<times> shard_writer list, failure, block_checksum) act" where
  "stream_body_to_writers L scheme rc =
     op_bind (op_return (map_err (\<lambda>_. fail EcInternal) (rs_code_new L scheme))) (\<lambda>code.
     op_bind (receive_chunks L code rc (wrap64 (data_shards scheme * rec_block_size rc))
       \<lparr>bd_received = 0, bd_sequence = 0, bd_buffer = [], bd_stripe = 0, bd_hashed = []\<rparr>) (\<lambda>body (c, writers).
     let checksum = checksum_block L body in
     case finish_writers rc checksum writers of (r, writers') \<Rightarrow> (bind_res r (\<lambda>_. Ok checksum), (c, writers'))))"

definition write_record_to :: "metadata_record \<Rightarrow> shard_writer \<Rightarrow> (failure, unit) res \<times> shard_writer" where
  "write_record_to rc writer =
     (case writer_op (conn_request (ReqPutMeta (ww_device writer) rc)) writer of
        (r, writer') \<Rightarrow> (bind_res r (\<lambda>answer. if answer = RespPutMeta then Ok () else Err (fail EcProtocolViolation)), writer'))"

definition write_records :: "metadata_record \<Rightarrow> (shard_writer list, failure, unit) act" where
  "write_records rc = each_writer (write_record_to rc)"

definition abort_shard_writers :: "key_hash \<Rightarrow> version_id \<Rightarrow> shard_writer list \<Rightarrow> shard_writer list" where
  "abort_shard_writers key_hash version =
     map (\<lambda>writer. snd (writer_op (conn_request (ReqAbortShard (ww_device writer) key_hash version (ww_index writer))) writer))"

section \<open>The whole write\<close>

text \<open>A failure is told to the client on its stream, and the connection closed.\<close>

fun close_with :: "nat \<Rightarrow> failure \<Rightarrow> 'a co_op" where
  "close_with n (FailError detail) c = fail_and_close n detail c"
| "close_with n (FailClose end) c = (Err (FailClose end), c)"

definition or_close_with :: "nat \<Rightarrow> 'a co_op \<Rightarrow> 'a co_op" where
  "or_close_with n m c =
     (case m c of (Ok x, c') \<Rightarrow> (Ok x, c') | (Err f, c') \<Rightarrow> close_with n f c' | (Panic, c') \<Rightarrow> (Panic, c'))"

text \<open>The older versions of the key go once the new one is everywhere.\<close>

definition remove_older :: "coord_env \<Rightarrow> metadata_record \<Rightarrow> unit co_op" where
  "remove_older E rc =
     op_bind (lookup E (rec_key_hash rc)) (\<lambda>located.
     op_bind (op_return (versions_of (rec_key rc) located)) (\<lambda>versions.
     each_co (delete_version_everywhere E) (filter (\<lambda>r. rec_version r \<noteq> rec_version rc) versions)))"

text \<open>
  The body and the record.  When either fails every writer is asked to abort, and
  what it answers is ignored.
\<close>

definition put_body :: "coord_env \<Rightarrow> prepared_put \<Rightarrow> (coord \<times> shard_writer list, failure, metadata_record) act" where
  "put_body E prepared st =
     (let rc = pr_record prepared; abort = abort_shard_writers (rec_key_hash rc) (rec_version rc) in
      case stream_body_to_writers (ce_libs E) (pr_scheme prepared) rc st of
        (Err f, (c, writers)) \<Rightarrow> (Err f, (c, abort writers))
      | (Panic, st) \<Rightarrow> (Panic, st)
      | (Ok checksum, (c, writers)) \<Rightarrow>
          let rc = rc\<lparr>rec_object_checksum := checksum\<rparr> in
          (case write_records rc writers of
             (Ok _, writers') \<Rightarrow> (Ok rc, (c, writers'))
           | (Err f, writers') \<Rightarrow> (Err f, (c, abort writers'))
           | (Panic, writers') \<Rightarrow> (Panic, (c, writers'))))"

definition put_object :: "coord_env \<Rightarrow> nat \<Rightarrow> put_params \<Rightarrow> unit co_op" where
  "put_object E n p =
     op_bind (or_close_with n (prepare_put E p)) (\<lambda>prepared.
     op_bind (or_close_with n (\<lambda>c. case put_body E prepared (c, pr_writers prepared) of (r, (c', writers)) \<Rightarrow> (r, c'))) (\<lambda>rc.
     op_bind (or_close_with n (remove_older E rc)) (\<lambda>_.
     co_respond n (Ok (RespPutObject (rec_version rc) (pr_unavailable prepared))))))"

section \<open>An object as shards\<close>

definition encode_object :: "libs \<Rightarrow> rs_code \<Rightarrow> nat \<Rightarrow> bytes \<Rightarrow> (stripe_error, shard_block list list) res" where
  "encode_object L code block_size body =
     collect (\<lambda>data. encode_stripe L code data block_size) (chunks (data_shards (code_scheme code) * block_size) body)"

definition shard_of :: "shard_block list list \<Rightarrow> shard_index \<Rightarrow> shard_block list" where
  "shard_of stripes i = map (\<lambda>blocks. blocks ! i) stripes"

lemma collect_Ok: "collect f xs = Ok ys \<longleftrightarrow> length ys = length xs \<and> (\<forall>i < length xs. f (xs ! i) = Ok (ys ! i))"
proof (induction xs arbitrary: ys)
  case (Cons x xs)
  have "collect f (x # xs) = Ok ys \<longleftrightarrow> (\<exists>z zs. f x = Ok z \<and> collect f xs = Ok zs \<and> ys = z # zs)"
    by (cases "f x"; cases "collect f xs") auto
  also have "\<dots> \<longleftrightarrow> length ys = length (x # xs) \<and> (\<forall>i < length (x # xs). f ((x # xs) ! i) = Ok (ys ! i))"
    unfolding Cons.IH by (cases ys) (auto simp: All_less_Suc2)
  finally show ?case .
qed auto

lemma chunks_Nil [simp]: "chunks n [] = []"
  by (subst chunks.simps) simp

lemma length_chunks: "0 < n \<Longrightarrow> length (chunks n xs) = div_ceil (length xs) n"
proof (induction n xs rule: chunks.induct)
  case (1 n xs)
  show ?case
  proof (cases "xs = []")
    case False
    then have "length (chunks n xs) = Suc (div_ceil (length xs - n) n)" using 1 by (subst chunks.simps) simp
    also have "\<dots> = div_ceil (length xs) n"
    proof (cases "n \<le> length xs")
      case True
      then show ?thesis using 1(2) by (simp add: div_ceil_def le_div_geq le_mod_geq)
    next
      case no: False
      then show ?thesis using False 1(2) by (simp add: div_ceil_def div_add_self2 [symmetric])
    qed
    finally show ?thesis .
  qed (simp add: div_ceil_def)
qed

lemma nth_chunks: "0 < n \<Longrightarrow> j < length (chunks n xs) \<Longrightarrow> chunks n xs ! j = take n (drop (j * n) xs)"
proof (induction n xs arbitrary: j rule: chunks.induct)
  case (1 n xs)
  then have "xs \<noteq> []" by auto
  then have step: "chunks n xs = take n xs # chunks n (drop n xs)" using 1(2) by (subst chunks.simps) simp
  show ?case
  proof (cases j)
    case (Suc j')
    then show ?thesis using 1(1) [of j'] 1(2,3) \<open>xs \<noteq> []\<close> by (simp add: step add.commute)
  qed (simp add: step)
qed

lemma chunk_props:
  assumes "0 < n" "d \<in> set (chunks n xs)"
  shows "d \<noteq> []" "length d \<le> n"
  using assms by (induction n xs rule: chunks.induct) (subst (asm) chunks.simps, auto split: if_splits)+

lemma chunks_length_le: "0 < n \<Longrightarrow> length (chunks n xs) \<le> length xs"
proof (induction n xs rule: chunks.induct)
  case (1 n xs)
  then show ?case by (cases "xs = []") (subst chunks.simps, cases xs, auto)+
qed

lemma encode_object_stripes:
  assumes "encode_object L code bs body = Ok stripes"
  shows "length stripes = length (chunks (data_shards (code_scheme code) * bs) body)"
    "j < length stripes \<Longrightarrow> encode_stripe L code (chunks (data_shards (code_scheme code) * bs) body ! j) bs = Ok (stripes ! j)"
  using assms by (simp_all add: encode_object_def collect_Ok)

lemma encode_object_total:
  assumes code: "code_valid L code" and bs: "0 < bs"
  shows "\<exists>stripes. encode_object L code bs body = Ok stripes"
proof -
  let ?n = "data_shards (code_scheme code) * bs"
  have n: "0 < ?n" using code bs by (auto simp: code_valid_def scheme_valid_def scheme_new_Ok_iff)
  have "\<exists>blocks. encode_stripe L code d bs = Ok blocks" if "d \<in> set (chunks ?n body)" for d
    using chunk_props [OF n that] encode_stripe_blocks [OF code, of d bs] by metis
  then obtain f where f: "\<forall>d \<in> set (chunks ?n body). encode_stripe L code d bs = Ok (f d)" by metis
  have "encode_object L code bs body = Ok (map f (chunks ?n body))"
    unfolding encode_object_def collect_Ok using f by simp
  then show ?thesis by blast
qed

section \<open>What the devices are sent\<close>

text \<open>The full stripes of some bytes, and what is left over.\<close>

function full_stripes :: "nat \<Rightarrow> 'a list \<Rightarrow> 'a list list" where
  "full_stripes n xs = (if n = 0 \<or> length xs < n then [] else take n xs # full_stripes n (drop n xs))"
  by pat_completeness auto
termination by (relation "measure (\<lambda>(n, xs). length xs)") auto

declare full_stripes.simps [simp del]

definition left_over :: "nat \<Rightarrow> 'a list \<Rightarrow> 'a list" where
  "left_over n xs = drop (n * length (full_stripes n xs)) xs"

lemma full_stripes_short: "length xs < n \<Longrightarrow> full_stripes n xs = [] \<and> left_over n xs = xs"
  by (simp add: full_stripes.simps [of n xs] left_over_def)

lemma full_stripes_long:
  assumes "0 < n" "n \<le> length xs"
  shows "full_stripes n xs = take n xs # full_stripes n (drop n xs)" "left_over n xs = left_over n (drop n xs)"
  using assms by (simp_all add: full_stripes.simps [of n xs] left_over_def add.commute)

lemma length_left_over: "0 < n \<Longrightarrow> length (left_over n xs) < n"
proof (induction n xs rule: full_stripes.induct)
  case (1 n xs)
  then show ?case by (cases "length xs < n") (simp_all add: full_stripes_short full_stripes_long)
qed

lemma full_stripes_append:
  "0 < n \<Longrightarrow> full_stripes n (xs @ ys) = full_stripes n xs @ full_stripes n (left_over n xs @ ys) \<and>
     left_over n (xs @ ys) = left_over n (left_over n xs @ ys)"
proof (induction n xs rule: full_stripes.induct)
  case (1 n xs)
  show ?case
  proof (cases "length xs < n")
    case False
    then show ?thesis using 1 full_stripes_long [of n "xs @ ys"] full_stripes_long [of n xs] by simp
  qed (simp add: full_stripes_short)
qed

lemma chunks_full: "0 < n \<Longrightarrow> chunks n xs = full_stripes n xs @ (if left_over n xs = [] then [] else [left_over n xs])"
proof (induction n xs rule: full_stripes.induct)
  case (1 n xs)
  show ?case
  proof (cases "length xs < n")
    case True
    then show ?thesis using 1(2) by (subst chunks.simps) (simp add: full_stripes_short chunks.simps [of n "[]"])
  next
    case False
    then have "chunks n xs = take n xs # chunks n (drop n xs)" using 1(2) by (subst chunks.simps) auto
    then show ?thesis using 1 False full_stripes_long [of n xs] by simp
  qed
qed

text \<open>The writers once the blocks of some stripes have gone out.\<close>

definition wrote_to :: "nat \<Rightarrow> shard_block list \<Rightarrow> shard_writer \<Rightarrow> shard_writer" where
  "wrote_to j blocks w = w\<lparr>ww_connection := (ww_connection w)\<lparr>
     ch_out := ch_out (ww_connection w) @ block_messages (ww_request_id w) j blocks,
     ch_room := ch_room (ww_connection w) - length blocks\<rparr>\<rparr>"

definition wrote :: "nat \<Rightarrow> shard_block list list \<Rightarrow> shard_writer list \<Rightarrow> shard_writer list" where
  "wrote j stripes writers = map (\<lambda>(i, w). wrote_to j (map (\<lambda>blocks. blocks ! i) stripes) w) (enumerate 0 writers)"

lemma wrote_simps [simp]:
  "length (wrote j stripes writers) = length writers"
  "i < length writers \<Longrightarrow> wrote j stripes writers ! i = wrote_to j (map (\<lambda>blocks. blocks ! i) stripes) (writers ! i)"
  by (simp_all add: wrote_def nth_enumerate_eq)

lemma wrote_to_append: "wrote_to (j + length s) t (wrote_to j s w) = wrote_to j (s @ t) w"
  by (cases w) (simp add: wrote_to_def block_messages_append)

lemma wrote_append: "wrote (j + length s) t (wrote j s writers) = wrote j (s @ t) writers"
proof (rule nth_equalityI)
  fix i
  assume "i < length (wrote (j + length s) t (wrote j s writers))"
  then show "wrote (j + length s) t (wrote j s writers) ! i = wrote j (s @ t) writers ! i"
    using wrote_to_append [of j "map (\<lambda>blocks. blocks ! i) s" "map (\<lambda>blocks. blocks ! i) t" "writers ! i"] by simp
qed simp

lemma wrote_none: "wrote j [] writers = writers"
  by (rule nth_equalityI) (simp_all add: wrote_to_def)

lemma wrote_room: "(\<forall>w\<in>set (wrote j s writers). m \<le> ch_room (ww_connection w)) \<longleftrightarrow>
    (\<forall>w\<in>set writers. m \<le> ch_room (ww_connection w) - length s)"
  by (simp add: all_set_conv_all_nth) (simp add: wrote_to_def)

lemma send_to_each_from:
  assumes "length writers + k \<le> length blocks" "\<forall>w\<in>set writers. 0 < ch_room (ww_connection w)"
  shows "send_to_each (\<lambda>w b. send_data (ww_request_id w) (block_frame j b)) (drop k blocks) writers =
    (Ok (), map (\<lambda>(i, w). wrote_to j [blocks ! i] w) (enumerate k writers))"
  using assms
proof (induction writers arbitrary: k)
  case (Cons w ws)
  have "drop k blocks = blocks ! k # drop (Suc k) blocks" using Cons.prems(1) by (simp add: Cons_nth_drop_Suc)
  then show ?case
    using Cons.IH [of "Suc k"] Cons.prems
    by (simp add: writer_op_def send_data_def lift_op_def send_def wrote_to_def)
qed simp

lemma send_stripe_Ok:
  assumes "encode_stripe L code stripe (rec_block_size rc) = Ok blocks" "length writers \<le> length blocks"
    "\<forall>w\<in>set writers. 0 < ch_room (ww_connection w)"
  shows "send_stripe L code rc j stripe writers = (Ok (), wrote j [blocks] writers)"
  using send_to_each_from [of writers 0 blocks j] assms by (simp add: send_stripe_def wrote_def)

lemma fill_stripes_Ok:
  assumes "0 < n" "length buffer < n"
    "\<forall>d\<in>set (full_stripes n (buffer @ bs)). encode_stripe L code d (rec_block_size rc) = Ok (enc d) \<and> length writers \<le> length (enc d)"
    "\<forall>w\<in>set writers. length (full_stripes n (buffer @ bs)) \<le> ch_room (ww_connection w)"
  shows "fill_stripes L code rc n bs buffer j writers =
    (Ok (left_over n (buffer @ bs), j + length (full_stripes n (buffer @ bs))),
     wrote j (map enc (full_stripes n (buffer @ bs))) writers)"
  using assms
proof (induction "length bs" arbitrary: bs buffer j writers rule: less_induct)
  case less
  let ?m = "min (n - length buffer) (length bs)" and ?all = "buffer @ bs"
  consider "bs = []" | "bs \<noteq> []" "length ?all < n" | "bs \<noteq> []" "n \<le> length ?all" by linarith
  then show ?case
  proof cases
    case 1
    then show ?thesis using less.prems(2)
      by (simp add: fill_stripes.simps [of L code rc n "[]"] full_stripes_short wrote_none)
  next
    case 2
    then have "?m = length bs" "length ?all \<noteq> n" by auto
    then show ?thesis using 2 full_stripes_short [OF 2(2)]
      by (simp add: fill_stripes.simps [of L code rc n bs] fill_stripes.simps [of L code rc n "[]"] Let_def wrote_none)
  next
    case 3
    then have m: "?m = n - length buffer" "?m \<noteq> 0" using less.prems(2) by auto
    have first: "buffer @ take ?m bs = take n ?all" "length (take n ?all) = n" "drop ?m bs = drop n ?all"
      using 3 less.prems(2) m by simp_all
    note long = full_stripes_long [OF less.prems(1) 3(2)]
    have room: "\<forall>w\<in>set writers. Suc (length (full_stripes n (drop n ?all))) \<le> ch_room (ww_connection w)"
      using less.prems(4) unfolding long by simp
    have send: "send_stripe L code rc j (take n ?all) writers = (Ok (), wrote j [enc (take n ?all)] writers)"
      by (rule send_stripe_Ok) (use less.prems(3) room in \<open>auto simp: long dest: bspec intro: less_le_trans [of 0]\<close>)
    have run: "fill_stripes L code rc n bs buffer j writers =
        fill_stripes L code rc n (drop n ?all) [] (Suc j) (wrote j [enc (take n ?all)] writers)"
      using 3(1) first send by (simp add: fill_stripes.simps [of L code rc n bs] Let_def)
    have "length (drop n ?all) < length bs" using 3 less.prems(1,2) by simp
    from less.hyps [OF this less.prems(1), of "[]" "wrote j [enc (take n ?all)] writers" "Suc j"]
    have "fill_stripes L code rc n (drop n ?all) [] (Suc j) (wrote j [enc (take n ?all)] writers) =
        (Ok (left_over n (drop n ?all), Suc j + length (full_stripes n (drop n ?all))),
         wrote (Suc j) (map enc (full_stripes n (drop n ?all))) (wrote j [enc (take n ?all)] writers))"
      using less.prems(1,3) room
        wrote_room [of j "[enc (take n ?all)]" writers "length (full_stripes n (drop n ?all))"] by (auto simp: long)
    also have "\<dots> = (Ok (left_over n ?all, j + length (full_stripes n ?all)), wrote j (map enc (full_stripes n ?all)) writers)"
      unfolding long using wrote_append [of j "[enc (take n ?all)]" "map enc (full_stripes n (drop n ?all))" writers] by simp
    finally show ?thesis unfolding run .
  qed
qed

lemma receive_chunks_Ok:
  assumes "0 < n" "length (bd_buffer st) < n" "frames_ok L (bd_sequence st) frames" "se_error end = None"
    "bd_received st + length (concat (map df_bytes frames)) = rec_size rc"
    "ch_in c = map (\<lambda>f. Arrives (MsgData m f)) frames @ Arrives (MsgEndOfStream m end) # rest"
    "\<forall>d\<in>set (chunks n (bd_buffer st @ concat (map df_bytes frames))).
       encode_stripe L code d (rec_block_size rc) = Ok (enc d) \<and> length writers \<le> length (enc d)"
    "\<forall>w\<in>set writers. length (chunks n (bd_buffer st @ concat (map df_bytes frames))) \<le> ch_room (ww_connection w)"
  shows "receive_chunks L code rc n st (c, writers) =
    (Ok (bd_hashed st @ concat (map df_bytes frames)),
     (c\<lparr>ch_in := rest\<rparr>, wrote (bd_stripe st) (map enc (chunks n (bd_buffer st @ concat (map df_bytes frames)))) writers))"
  using assms
proof (induction frames arbitrary: st c writers)
  case Nil
  show ?case
  proof (cases "bd_buffer st = []")
    case True
    then show ?thesis using Nil by (subst receive_chunks.simps) (simp add: receive_def chunks.simps [of n "[]"] wrote_none)
  next
    case False
    then have one: "chunks n (bd_buffer st) = [bd_buffer st]"
      using Nil.prems(1,2) by (simp add: chunks_full full_stripes_short)
    have "send_stripe L code rc (bd_stripe st) (bd_buffer st) writers = (Ok (), wrote (bd_stripe st) [enc (bd_buffer st)] writers)"
      by (rule send_stripe_Ok) (use Nil.prems(7,8) one in \<open>auto dest: bspec\<close>)
    then show ?thesis using Nil False one by (subst receive_chunks.simps) (simp add: receive_def)
  qed
next
  case (Cons f fs)
  let ?new = "bd_buffer st @ df_bytes f" and ?tail = "concat (map df_bytes fs)"
  have f: "df_sequence f = bd_sequence st" "checksum_block L (df_bytes f) = df_checksum f" "frames_ok L (Suc (bd_sequence st)) fs"
    using Cons.prems(3) by (auto simp: frames_ok_Cons)
  have split: "chunks n (bd_buffer st @ concat (map df_bytes (f # fs))) = full_stripes n ?new @ chunks n (left_over n ?new @ ?tail)"
    using full_stripes_append [OF Cons.prems(1), of ?new ?tail] by (simp add: chunks_full [OF Cons.prems(1)])
  have fill: "fill_stripes L code rc n (df_bytes f) (bd_buffer st) (bd_stripe st) writers =
    (Ok (left_over n ?new, bd_stripe st + length (full_stripes n ?new)), wrote (bd_stripe st) (map enc (full_stripes n ?new)) writers)"
    by (rule fill_stripes_Ok [OF Cons.prems(1,2)]) (use Cons.prems(7,8) in \<open>unfold split, auto dest: bspec\<close>)
  let ?st = "\<lparr>bd_received = bd_received st + length (df_bytes f), bd_sequence = Suc (bd_sequence st), bd_buffer = left_over n ?new,
    bd_stripe = bd_stripe st + length (full_stripes n ?new), bd_hashed = bd_hashed st @ df_bytes f\<rparr>"
  let ?c = "c\<lparr>ch_in := map (\<lambda>f. Arrives (MsgData m f)) fs @ Arrives (MsgEndOfStream m end) # rest\<rparr>"
  let ?w = "wrote (bd_stripe st) (map enc (full_stripes n ?new)) writers"
  have "receive_chunks L code rc n st (c, writers) = receive_chunks L code rc n ?st (?c, ?w)"
    using f Cons.prems(5,6) fill by (subst receive_chunks.simps) (simp add: receive_def)
  also have "\<dots> = (Ok (bd_hashed ?st @ ?tail), (?c\<lparr>ch_in := rest\<rparr>,
      wrote (bd_stripe ?st) (map enc (chunks n (bd_buffer ?st @ ?tail))) ?w))"
  proof (rule Cons.IH [OF Cons.prems(1)])
    show "\<forall>w\<in>set ?w. length (chunks n (bd_buffer ?st @ ?tail)) \<le> ch_room (ww_connection w)"
      unfolding wrote_room using Cons.prems(8) unfolding split by fastforce
    show "\<forall>d\<in>set (chunks n (bd_buffer ?st @ ?tail)). encode_stripe L code d (rec_block_size rc) = Ok (enc d) \<and> length ?w \<le> length (enc d)"
      using Cons.prems(7) unfolding split by simp
  qed (use Cons.prems(4-6) f(3) length_left_over [OF Cons.prems(1), of ?new] in simp_all)
  finally show ?case
    unfolding split using wrote_append [of "bd_stripe st" "map enc (full_stripes n ?new)"] by simp
qed

lemma each_writer_Ok:
  "\<forall>w\<in>set writers. fst (f w) = Ok () \<Longrightarrow> each_writer f writers = (Ok (), map (\<lambda>w. snd (f w)) writers)"
  by (induction writers) (auto split: prod.splits)

text \<open>A device's node that answers the end of its stream and the record as it should.\<close>

definition writer_ready :: "nat \<Rightarrow> shard_writer \<Rightarrow> bool" where
  "writer_ready n w \<longleftrightarrow> ch_in (ww_connection w) = map Arrives [MsgResponse (ww_request_id w) RespPutShardDone,
       MsgResponse (cn_next_request_id (ww_connection w)) RespPutMeta] \<and> n + 2 \<le> ch_room (ww_connection w)"

lemma finish_and_record:
  assumes "writer_ready 0 w"
  shows "\<exists>w1 w2 w3. writer_op (send_end (ww_request_id w) (body_end rc checksum)) w = (Ok (), w1) \<and> shard_done w1 = (Ok (), w2) \<and>
    write_record_to rc' w2 = (Ok (), w3) \<and> ch_out (ww_connection w3) = ch_out (ww_connection w) @
      [MsgEndOfStream (ww_request_id w) (body_end rc checksum),
       MsgRequest (cn_next_request_id (ww_connection w)) (ReqPutMeta (ww_device w) rc')]"
  using assms
  by (simp add: writer_ready_def writer_op_def send_end_def lift_op_def send_def shard_done_def read_response_def op_bind_def
      op_return_def receive_def write_record_to_def conn_request_def send_request_def allocate_request_id_def)

lemma finish_and_record_all:
  assumes "\<forall>w\<in>set writers. writer_ready 0 w" "0 < rec_size rc"
  shows "\<exists>writers1 writers2. finish_writers rc checksum writers = (Ok (), writers1) \<and> write_records rc' writers1 = (Ok (), writers2) \<and>
    length writers2 = length writers \<and> (\<forall>i < length writers. ch_out (ww_connection (writers2 ! i)) = ch_out (ww_connection (writers ! i)) @
      [MsgEndOfStream (ww_request_id (writers ! i)) (body_end rc checksum),
       MsgRequest (cn_next_request_id (ww_connection (writers ! i))) (ReqPutMeta (ww_device (writers ! i)) rc')])"
proof -
  let ?f = "\<lambda>w. writer_op (send_end (ww_request_id w) (body_end rc checksum)) w"
  have one: "fst (?f w) = Ok () \<and> fst (shard_done (snd (?f w))) = Ok () \<and>
      fst (write_record_to rc' (snd (shard_done (snd (?f w))))) = Ok () \<and>
      ch_out (ww_connection (snd (write_record_to rc' (snd (shard_done (snd (?f w))))))) = ch_out (ww_connection w) @
      [MsgEndOfStream (ww_request_id w) (body_end rc checksum),
       MsgRequest (cn_next_request_id (ww_connection w)) (ReqPutMeta (ww_device w) rc')]" if "w \<in> set writers" for w
    using finish_and_record [OF bspec [OF assms(1) that], of rc checksum rc'] by auto
  let ?w1 = "map (\<lambda>w. snd (?f w)) writers"
  let ?w2 = "map (\<lambda>w. snd (shard_done w)) ?w1"
  have "finish_writers rc checksum writers = (Ok (), ?w2)"
    using assms(2) one by (simp add: finish_writers_def op_bind_def each_writer_Ok)
  moreover have "write_records rc' ?w2 = (Ok (), map (\<lambda>w. snd (write_record_to rc' w)) ?w2)"
    unfolding write_records_def by (rule each_writer_Ok) (use one in auto)
  ultimately show ?thesis using one by fastforce
qed

lemma receive_chunks_encodes:
  assumes code: "code_valid L code" and bs: "0 < rec_block_size rc"
    and frames: "frames_ok L 0 frames" "rec_size rc = length (concat (map df_bytes frames))"
    and arrives: "ch_in c = map (\<lambda>f. Arrives (MsgData m f)) frames @ Arrives (MsgEndOfStream m fin) # rest" "se_error fin = None"
    and writers: "length writers = total_shards (code_scheme code)"
      "\<forall>w\<in>set writers. length (concat (map df_bytes frames)) \<le> ch_room (ww_connection w)"
  shows "\<exists>stripes. encode_object L code (rec_block_size rc) (concat (map df_bytes frames)) = Ok stripes \<and>
    length stripes \<le> length (concat (map df_bytes frames)) \<and>
    receive_chunks L code rc (data_shards (code_scheme code) * rec_block_size rc)
      \<lparr>bd_received = 0, bd_sequence = 0, bd_buffer = [], bd_stripe = 0, bd_hashed = []\<rparr> (c, writers) =
      (Ok (concat (map df_bytes frames)), (c\<lparr>ch_in := rest\<rparr>, wrote 0 stripes writers))"
proof -
  let ?body = "concat (map df_bytes frames)" and ?n = "data_shards (code_scheme code) * rec_block_size rc"
  have n: "0 < ?n" using code bs by (auto simp: code_valid_def scheme_valid_def scheme_new_Ok_iff)
  obtain stripes where enc: "encode_object L code (rec_block_size rc) ?body = Ok stripes"
    using encode_object_total [OF code bs] by blast
  note stripes = encode_object_stripes [OF enc]
  define f where "f d = (case encode_stripe L code d (rec_block_size rc) of Ok blocks \<Rightarrow> blocks | _ \<Rightarrow> [])" for d
  have stripes_f: "stripes = map f (chunks ?n ?body)" using stripes by (intro nth_equalityI) (auto simp: f_def)
  have encoded: "encode_stripe L code d (rec_block_size rc) = Ok (f d) \<and> length writers \<le> length (f d)"
    if d: "d \<in> set (chunks ?n ?body)" for d
  proof -
    obtain blocks where "encode_stripe L code d (rec_block_size rc) = Ok blocks"
      using chunk_props [OF n d] encode_stripe_blocks [OF code, of d "rec_block_size rc"] by metis
    then show ?thesis using nth_map_sb_index(1) [OF _ code chunk_props [OF n d]] writers(1) by (simp add: f_def)
  qed
  have few: "length (chunks ?n ?body) \<le> length ?body" by (rule chunks_length_le [OF n])
  let ?st = "\<lparr>bd_received = 0, bd_sequence = 0, bd_buffer = [], bd_stripe = 0, bd_hashed = []\<rparr> :: body_state"
  have "receive_chunks L code rc ?n ?st (c, writers) = (Ok ?body, (c\<lparr>ch_in := rest\<rparr>, wrote 0 stripes writers))"
    using receive_chunks_Ok [OF n, of ?st L frames fin rc c m rest code f writers] frames arrives encoded writers(2) few n
    unfolding stripes_f by (fastforce dest: order_trans)
  then show ?thesis using enc few stripes(1) by auto
qed

text \<open>C6: An upload gives every device its shard and its copy of the record.  Let the client's body arrive
  in frames of any size, and the chosen devices, one per shard, answer as they should.  Then the
  object is encoded stripe by stripe, the device of each shard is sent exactly the blocks of that shard in
  order, then the end of the stream with the size and checksum of the object, then the record with
  that checksum, and the write of body and record succeeds.\<close>

theorem upload_reaches_devices:
  assumes code: "code_valid (ce_libs E) code" "pr_scheme prepared = code_scheme code" and rc: "pr_record prepared = rc"
    and bs: "0 < rec_block_size rc" "data_shards (code_scheme code) * rec_block_size rc < u64_modulus"
    and frames: "frames_ok (ce_libs E) 0 frames" "rec_size rc = length (concat (map df_bytes frames))" "0 < rec_size rc"
    and arrives: "ch_in c = map (\<lambda>f. Arrives (MsgData m f)) frames @ Arrives (MsgEndOfStream m fin) # rest" "se_error fin = None"
    and writers: "length writers = total_shards (code_scheme code)"
      "\<forall>w\<in>set writers. writer_ready (length (concat (map df_bytes frames))) w"
  shows "\<exists>stripes writers'. encode_object (ce_libs E) code (rec_block_size rc) (concat (map df_bytes frames)) = Ok stripes \<and>
    (let checksum = checksum_block (ce_libs E) (concat (map df_bytes frames)); rc' = rc\<lparr>rec_object_checksum := checksum\<rparr> in
     put_body E prepared (c, writers) = (Ok rc', (c\<lparr>ch_in := rest\<rparr>, writers')) \<and> length writers' = length writers \<and>
     (\<forall>i < length writers. ch_out (ww_connection (writers' ! i)) = ch_out (ww_connection (writers ! i)) @
        put_request_messages (ww_request_id (writers ! i)) (shard_of stripes i) (rec_size rc) checksum @
        [MsgRequest (cn_next_request_id (ww_connection (writers ! i))) (ReqPutMeta (ww_device (writers ! i)) rc')]))"
proof -
  let ?L = "ce_libs E" and ?s = "code_scheme code" and ?body = "concat (map df_bytes frames)"
  let ?n = "data_shards ?s * rec_block_size rc" and ?sum = "checksum_block (ce_libs E) (concat (map df_bytes frames))"
  have room: "\<forall>w\<in>set writers. length ?body \<le> ch_room (ww_connection w)"
    using writers(2) by (auto simp: writer_ready_def)
  obtain stripes where enc: "encode_object ?L code (rec_block_size rc) ?body = Ok stripes" and few: "length stripes \<le> length ?body"
    and got: "receive_chunks ?L code rc ?n \<lparr>bd_received = 0, bd_sequence = 0, bd_buffer = [], bd_stripe = 0, bd_hashed = []\<rparr> (c, writers) =
      (Ok ?body, (c\<lparr>ch_in := rest\<rparr>, wrote 0 stripes writers))"
    using receive_chunks_encodes [OF code(1) bs(1) frames(1,2) arrives writers(1) room] by blast
  have at: "ww_connection (wrote 0 stripes writers ! i) = (ww_connection (writers ! i))\<lparr>
      ch_out := ch_out (ww_connection (writers ! i)) @ block_messages (ww_request_id (writers ! i)) 0 (shard_of stripes i),
      ch_room := ch_room (ww_connection (writers ! i)) - length stripes\<rparr> \<and>
    ww_request_id (wrote 0 stripes writers ! i) = ww_request_id (writers ! i) \<and>
    ww_device (wrote 0 stripes writers ! i) = ww_device (writers ! i)" if "i < length writers" for i
    using that by (simp add: wrote_to_def shard_of_def)
  have "\<forall>w\<in>set (wrote 0 stripes writers). writer_ready 0 w"
  proof (simp add: all_set_conv_all_nth, intro allI impI)
    fix i
    assume i: "i < length writers"
    then have "writer_ready (length ?body) (writers ! i)" using writers(2) by simp
    then show "writer_ready 0 (wrote_to 0 (map (\<lambda>blocks. blocks ! i) stripes) (writers ! i))"
      using few by (auto simp: writer_ready_def wrote_to_def)
  qed
  from finish_and_record_all [OF this frames(3), of ?sum "rc\<lparr>rec_object_checksum := ?sum\<rparr>"] obtain writers1 writers2 where
    w: "finish_writers rc ?sum (wrote 0 stripes writers) = (Ok (), writers1)"
    "write_records (rc\<lparr>rec_object_checksum := ?sum\<rparr>) writers1 = (Ok (), writers2)" "length writers2 = length writers"
    "\<forall>i < length writers. ch_out (ww_connection (writers2 ! i)) = ch_out (ww_connection (wrote 0 stripes writers ! i)) @
      [MsgEndOfStream (ww_request_id (wrote 0 stripes writers ! i)) (body_end rc ?sum),
       MsgRequest (cn_next_request_id (ww_connection (wrote 0 stripes writers ! i)))
         (ReqPutMeta (ww_device (wrote 0 stripes writers ! i)) (rc\<lparr>rec_object_checksum := ?sum\<rparr>))]"
    by auto
  have "rs_code_new ?L ?s = Ok code" using code(1) by (simp add: code_valid_def)
  then have "stream_body_to_writers ?L ?s rc (c, writers) = (Ok ?sum, (c\<lparr>ch_in := rest\<rparr>, writers1))"
    using got w(1) bs(2) by (simp add: stream_body_to_writers_def op_bind_def op_return_def wrap64_def Let_def)
  then have "put_body E prepared (c, writers) = (Ok (rc\<lparr>rec_object_checksum := ?sum\<rparr>), (c\<lparr>ch_in := rest\<rparr>, writers2))"
    using w(2) by (simp add: put_body_def rc code(2) Let_def)
  then show ?thesis
    using enc w(3,4) at by (auto simp: Let_def put_request_messages_def put_end_def body_end_def)
qed

definition demo_coord_env :: coord_env where
  "demo_coord_env = \<lparr>ce_libs = demo_libs, ce_build = [], ce_finish = (\<lambda>nodes. nodes)\<rparr>"

definition demo_upload :: coord where
  "demo_upload = \<lparr>ch_in = map Arrives [MsgData 1 (body_frame demo_libs 0 [1, 2]), MsgData 1 (body_frame demo_libs 1 [3]),
       MsgEndOfStream 1 stream_end_ok],
     ch_out = [], ch_room = 100, co_node = demo_node, co_net = (\<lambda>_ _ _. NoAnswer), co_dialed = 0,
     co_versions = generator_new, co_clock = (1, replicate 10 0, 0)\<rparr>"

definition demo_writers :: "shard_writer list" where
  "demo_writers = map (\<lambda>i. \<lparr>ww_index = i, ww_device = 10 + i, ww_owner = 1,
     ww_connection = (demo_connection (map Arrives [MsgResponse 1 RespPutShardDone, MsgResponse 2 RespPutMeta]))
       \<lparr>cn_next_request_id := 2\<rparr>, ww_request_id = 1\<rparr>) [0, 1, 2]"

theorem upload_reaches_devices_witness:
  "\<exists>stripes writers'. encode_object demo_libs demo_code 4096 [1, 2, 3] = Ok stripes \<and>
     put_body demo_coord_env \<lparr>pr_scheme = demo_scheme, pr_record = demo_record, pr_writers = demo_writers, pr_unavailable = []\<rparr>
       (demo_upload, demo_writers) =
       (Ok (demo_record\<lparr>rec_object_checksum := checksum_block demo_libs [1, 2, 3]\<rparr>), (demo_upload\<lparr>ch_in := []\<rparr>, writers')) \<and>
     ch_out (ww_connection (writers' ! 2)) = put_request_messages 1 (shard_of stripes 2) 3 (checksum_block demo_libs [1, 2, 3]) @
        [MsgRequest 2 (ReqPutMeta 12 (demo_record\<lparr>rec_object_checksum := checksum_block demo_libs [1, 2, 3]\<rparr>))]"
proof -
  have env: "ce_libs demo_coord_env = demo_libs" by (simp add: demo_coord_env_def)
  have rc: "rec_block_size demo_record = 4096" "rec_size demo_record = 3" by (simp_all add: demo_record_def)
  have writers: "length demo_writers = 3" "\<forall>w\<in>set demo_writers. writer_ready 3 w"
    "ch_out (ww_connection (demo_writers ! 2)) = []" "ww_request_id (demo_writers ! 2) = 1" "ww_device (demo_writers ! 2) = 12"
    "cn_next_request_id (ww_connection (demo_writers ! 2)) = 2"
    by (simp_all add: demo_writers_def writer_ready_def demo_connection_def)
  let ?frames = "[body_frame demo_libs 0 [1, 2], body_frame demo_libs 1 [3]]"
  have frames: "frames_ok demo_libs 0 ?frames" "concat (map df_bytes ?frames) = [1, 2, 3]"
    using frames_ok_body_frames [of demo_libs 0 "[[1, 2], [3]]"] by (simp_all add: body_frame_def)
  have arrives: "ch_in demo_upload = map (\<lambda>f. Arrives (MsgData 1 f)) ?frames @ Arrives (MsgEndOfStream 1 stream_end_ok) # []"
    "se_error stream_end_ok = None"
    by (simp_all add: demo_upload_def stream_end_ok_def)
  have bytes: "df_bytes (body_frame demo_libs i b) = b" for i b by (simp add: body_frame_def)
  let ?prepared = "\<lparr>pr_scheme = demo_scheme, pr_record = demo_record, pr_writers = demo_writers, pr_unavailable = []\<rparr>"
  let ?rc = "demo_record\<lparr>rec_object_checksum := checksum_block demo_libs [1, 2, 3]\<rparr>"
  obtain stripes writers' where "encode_object demo_libs demo_code 4096 [1, 2, 3] = Ok stripes"
    "put_body demo_coord_env ?prepared (demo_upload, demo_writers) = (Ok ?rc, (demo_upload\<lparr>ch_in := []\<rparr>, writers'))"
    "\<forall>i < 3. ch_out (ww_connection (writers' ! i)) = ch_out (ww_connection (demo_writers ! i)) @
        put_request_messages (ww_request_id (demo_writers ! i)) (shard_of stripes i) 3 (checksum_block demo_libs [1, 2, 3]) @
        [MsgRequest (cn_next_request_id (ww_connection (demo_writers ! i))) (ReqPutMeta (ww_device (demo_writers ! i)) ?rc)]"
    using upload_reaches_devices [where E = demo_coord_env and code = demo_code and rc = demo_record and writers = demo_writers
        and prepared = ?prepared, OF _ _ _ _ _ _ _ _ arrives] env rc writers(1) writers(2) [unfolded numeral_3_eq_3] frames
    by (auto simp: Let_def bytes)
  then show ?thesis using writers(3-6) by (intro exI conjI) (assumption | simp)+
qed

end
