(* ===== verification/ReadPath.thy ===== *)
theory ReadPath
  imports CoordPut
begin

text \<open>
  When a read succeeds.  An object cut into stripes and encoded gives one list of
  blocks per shard.  If, stripe by stripe, enough of the shards can be opened and
  give back the block that was written, then reading the object delivers its
  bytes, whichever other shards cannot be opened or give damaged blocks.
\<close>

section \<open>Opening shards\<close>

text \<open>What a node that holds a shard answers, from any block on.\<close>

definition serves :: "coord \<Rightarrow> metadata_record \<Rightarrow> shard_block list \<Rightarrow> shard_index \<Rightarrow> bool" where
  "serves c rc blocks i \<longleftrightarrow> node_connector (co_node c) \<and> (\<exists>device entry address. device_for rc i = Some device \<and>
     doc_device (co_document c) device = Some entry \<and> node_address (co_node c) (de_node entry) = Ok address \<and>
     (\<forall>t b. b \<le> length blocks \<longrightarrow> (\<exists>h room. he_cluster_id h = doc_cluster_id (co_document c) \<and> 2 \<le> room \<and>
        co_net c t (de_node entry) (get_shard_request rc device i b (length blocks - b)) =
          Answers (map Arrives (MsgHello h # MsgResponse 1 (RespGetShard (length blocks - b)) #
            block_messages 1 b (drop b blocks) @ [MsgEndOfStream 1 stream_end_ok])) room)))"

text \<open>A shard that cannot be opened: its device is unknown, its node silent or refusing.\<close>

definition withholds :: "coord \<Rightarrow> metadata_record \<Rightarrow> nat \<Rightarrow> shard_index \<Rightarrow> bool" where
  "withholds c rc stripes_n i \<longleftrightarrow> (\<exists>device. device_for rc i = Some device \<and>
     (\<forall>entry. doc_device (co_document c) device = Some entry \<longrightarrow>
        (\<forall>t b. co_net c t (de_node entry) (get_shard_request rc device i b (stripes_n - b)) = NoAnswer \<or>
          (\<exists>h room detail. he_cluster_id h = doc_cluster_id (co_document c) \<and> 2 \<le> room \<and>
             open_fault (ed_code detail) \<noteq> None \<and>
             co_net c t (de_node entry) (get_shard_request rc device i b (stripes_n - b)) =
               Answers (map Arrives [MsgHello h, MsgResponse 1 (RespError detail)]) room))))"

definition source_at :: "(nat \<Rightarrow> shard_block list) \<Rightarrow> nat \<Rightarrow> shard_source \<Rightarrow> bool" where
  "source_at served b src \<longleftrightarrow> ch_in (ss_connection src) =
     map Arrives (block_messages (ss_request_id src) b (drop b (served (ss_index src))) @
       [MsgEndOfStream (ss_request_id src) stream_end_ok])"

lemma serves_opens:
  assumes serves: "serves c rc (served i) i" and b: "b \<le> length (served i)" and scheme: "record_scheme rc = Ok s"
    and c1: "dialled c c1"
  shows "\<exists>src. fst (open_shard_sources E (co_document c) rc key [i] b (length (served i) - b) c1) = Ok [src] \<and>
    ss_index src = i \<and> source_at served b src"
proof -
  obtain device entry address where d: "device_for rc i = Some device" "doc_device (co_document c) device = Some entry"
    "node_address (co_node c) (de_node entry) = Ok address" "node_connector (co_node c)" and
    net: "\<forall>t b. b \<le> length (served i) \<longrightarrow> (\<exists>h room. he_cluster_id h = doc_cluster_id (co_document c) \<and> 2 \<le> room \<and>
        co_net c t (de_node entry) (get_shard_request rc device i b (length (served i) - b)) =
          Answers (map Arrives (MsgHello h # MsgResponse 1 (RespGetShard (length (served i) - b)) #
            block_messages 1 b (drop b (served i)) @ [MsgEndOfStream 1 stream_end_ok])) room)"
    using serves unfolding serves_def by blast
  obtain h room where h: "he_cluster_id h = doc_cluster_id (co_document c)" "2 \<le> room"
    "co_net c (co_dialed c1) (de_node entry) (get_shard_request rc device i b (length (served i) - b)) =
          Answers (map Arrives (MsgHello h # MsgResponse 1 (RespGetShard (length (served i) - b)) #
            block_messages 1 b (drop b (served i)) @ [MsgEndOfStream 1 stream_end_ok])) room"
    using net b by blast
  have room: "0 < room" "room - Suc 0 \<noteq> 0" using h(2) by simp_all
  show ?thesis
    using d h(1,3) room dialled_keeps [OF c1]
    by (simp add: open_shard_sources_def open_shard_source_def scheme Let_def op_bind_def op_return_def connect_to_def
        connect_with_def send_request_def allocate_request_id_def read_response_def lift_op_def send_def receive_def
        our_hello_def channel.defs source_at_def)
qed

lemma withholds_fails:
  assumes w: "withholds c rc stripes_n i" and scheme: "record_scheme rc = Ok s" and c1: "dialled c c1"
  shows "\<exists>detail. fst (open_shard_sources E (co_document c) rc key [i] b (stripes_n - b) c1) = Err (FailError detail) \<and>
    open_fault (ed_code detail) \<noteq> None"
proof -
  obtain device where d: "device_for rc i = Some device" using w unfolding withholds_def by blast
  note simps = open_shard_sources_def open_shard_source_def scheme Let_def op_bind_def op_return_def connect_to_def
        connect_with_def send_request_def allocate_request_id_def read_response_def lift_op_def send_def receive_def
        our_hello_def channel.defs d dialled_keeps [OF c1]
  show ?thesis
  proof (cases "doc_device (co_document c) device")
    case None
    then show ?thesis by (simp add: simps error_detail_new_def open_fault_def)
  next
    case (Some entry)
    have node: "node_address (co_node c) t = Err (fail EcNodeUnreachable) \<or> (\<exists>a. node_address (co_node c) t = Ok a)" for t
      by (cases "doc_node (co_document c) t") (auto simp: node_address_def split: list.splits)
    from w d Some have "co_net c (co_dialed c1) (de_node entry) (get_shard_request rc device i b (stripes_n - b)) = NoAnswer \<or>
          (\<exists>h room detail. he_cluster_id h = doc_cluster_id (co_document c) \<and> 2 \<le> room \<and>
             open_fault (ed_code detail) \<noteq> None \<and>
             co_net c (co_dialed c1) (de_node entry) (get_shard_request rc device i b (stripes_n - b)) =
               Answers (map Arrives [MsgHello h, MsgResponse 1 (RespError detail)]) room)"
      unfolding withholds_def by simp
    then show ?thesis
    proof (elim disjE exE conjE)
      assume "co_net c (co_dialed c1) (de_node entry) (get_shard_request rc device i b (stripes_n - b)) = NoAnswer"
      then show ?thesis
        using node [of "de_node entry"] Some by (auto simp: simps fail_def error_detail_new_def open_fault_def)
    next
      fix h room detail
      assume h: "he_cluster_id h = doc_cluster_id (co_document c)" "2 \<le> room" "open_fault (ed_code detail) \<noteq> None"
        "co_net c (co_dialed c1) (de_node entry) (get_shard_request rc device i b (stripes_n - b)) =
               Answers (map Arrives [MsgHello h, MsgResponse 1 (RespError detail)]) room"
      have room: "0 < room" "room - Suc 0 \<noteq> 0" using h(2) by simp_all
      show ?thesis
        using node [of "de_node entry"] Some h(1,3,4) room
        by (auto simp: simps fail_def error_detail_new_def open_fault_def remote_detail_def or_node_def)
    qed
  qed
qed

lemma open_shards_opens:
  assumes ok: "\<forall>i\<in>set is. i \<notin> lost \<longrightarrow> serves c rc (served i) i \<and> length (served i) = stripes_n"
    and gone: "\<forall>i\<in>set is. i \<in> lost \<longrightarrow> withholds c rc stripes_n i"
    and b: "b \<le> stripes_n" and scheme: "record_scheme rc = Ok s" and c1: "dialled c c1"
  shows "\<exists>srcs unr c2. open_shards E (co_document c) rc key b (stripes_n - b) is c1 = (Ok (srcs, unr), c2) \<and> dialled c1 c2 \<and>
    map ss_index srcs = filter (\<lambda>i. i \<notin> lost) is \<and> (\<forall>src\<in>set srcs. source_at served b src) \<and>
    map us_index unr = filter (\<lambda>i. i \<in> lost) is"
  using ok gone c1
proof (induction "is" arbitrary: c1)
  case Nil
  then show ?case by simp
next
  case (Cons i "is")
  obtain r c2 where r: "open_shard_sources E (co_document c) rc key [i] b (stripes_n - b) c1 = (r, c2)" by fastforce
  have c2: "dialled c1 c2" using dialled_open_shard_sources [of c1 E "co_document c" rc key "[i]" b "stripes_n - b"] r by simp
  from Cons.IH [OF _ _ dialled_trans [OF Cons.prems(3) c2]] Cons.prems obtain srcs unr c3 where
    rest: "open_shards E (co_document c) rc key b (stripes_n - b) is c2 = (Ok (srcs, unr), c3)" "dialled c2 c3"
    "map ss_index srcs = filter (\<lambda>i. i \<notin> lost) is" "\<forall>src\<in>set srcs. source_at served b src"
    "map us_index unr = filter (\<lambda>i. i \<in> lost) is"
    by auto
  show ?case
  proof (cases "i \<in> lost")
    case True
    then have w: "withholds c rc stripes_n i" using Cons.prems(2) by simp
    then obtain device where d: "device_for rc i = Some device" unfolding withholds_def by blast
    obtain detail fault where "r = Err (FailError detail)" "open_fault (ed_code detail) = Some fault"
      using withholds_fails [OF w scheme Cons.prems(3), of E key b] r by auto
    then show ?thesis using rest d r True c2 by (auto simp: op_bind_def op_return_def intro: dialled_trans)
  next
    case False
    then have sv: "serves c rc (served i) i" "length (served i) = stripes_n" using Cons.prems(1) by auto
    then obtain device where d: "device_for rc i = Some device" unfolding serves_def by blast
    obtain src where "r = Ok [src]" "ss_index src = i" "source_at served b src"
      using serves_opens [where served = served, OF sv(1) _ scheme Cons.prems(3), of b E key] sv(2) b r by auto
    then show ?thesis using rest d r False c2 by (auto simp: op_bind_def op_return_def intro: dialled_trans)
  qed
qed

section \<open>Reading one stripe\<close>

lemma read_stripe_blocks_at:
  assumes "\<forall>src\<in>set srcs. source_at served b src \<and> b < length (served (ss_index src))"
  shows "\<exists>srcs'. read_stripe_blocks b key rc srcs =
      Ok (map (\<lambda>src. (served (ss_index src) ! b)\<lparr>sb_index := ss_index src\<rparr>) srcs, srcs') \<and>
    map ss_index srcs' = map ss_index srcs \<and> (\<forall>src\<in>set srcs'. source_at served (Suc b) src)"
  using assms
proof (induction srcs)
  case (Cons src srcs)
  have "drop b (served (ss_index src)) = served (ss_index src) ! b # drop (Suc b) (served (ss_index src))"
    using Cons.prems by (simp add: Cons_nth_drop_Suc)
  then have "ch_in (ss_connection src) = Arrives (MsgData (ss_request_id src) (block_frame b (served (ss_index src) ! b))) #
      map Arrives (block_messages (ss_request_id src) (Suc b) (drop (Suc b) (served (ss_index src))) @
       [MsgEndOfStream (ss_request_id src) stream_end_ok])"
    using Cons.prems by (simp add: source_at_def)
  moreover have "\<lparr>sb_index = i, sb_bytes = sb_bytes x, sb_checksum = sb_checksum x\<rparr> = x\<lparr>sb_index := i\<rparr>" for x :: shard_block and i
    by (cases x) simp
  ultimately show ?case using Cons.IH Cons.prems by (auto simp: read_stream_item_cases source_at_def)
qed simp

text \<open>The shards that give back the block of a stripe that was written.\<close>

definition good_shards ::
  "libs \<Rightarrow> rs_code \<Rightarrow> bytes \<Rightarrow> shard_index set \<Rightarrow> (nat \<Rightarrow> shard_block list) \<Rightarrow> nat \<Rightarrow> shard_index set" where
  "good_shards L code data lost served b =
     {i. i < total_shards (code_scheme code) \<and> i \<notin> lost \<and>
        block_fault_of L (block_length_for code (length data)) (Some (served i ! b)) = None}"

text \<open>A block that passes its checks is the one that was written, and there are enough of them.\<close>

definition stripe_readable ::
  "libs \<Rightarrow> rs_code \<Rightarrow> bytes \<Rightarrow> shard_block list \<Rightarrow> shard_index set \<Rightarrow> (nat \<Rightarrow> shard_block list) \<Rightarrow> nat \<Rightarrow> bool" where
  "stripe_readable L code data blocks lost served b \<longleftrightarrow>
     (\<forall>i\<in>good_shards L code data lost served b. sb_bytes (served i ! b) = sb_bytes (blocks ! i)) \<and>
     data_shards (code_scheme code) \<le> card (good_shards L code data lost served b)"

lemma block_fault_of_index: "block_fault_of L n (Some (x\<lparr>sb_index := i\<rparr>)) = block_fault_of L n (Some x)"
  by (simp add: block_fault_of_def Let_def)

lemma slot_of_received:
  assumes "distinct is" "i \<in> set is"
  shows "slot_of (map (\<lambda>i. (f i)\<lparr>sb_index := i\<rparr>) is) i = Some ((f i)\<lparr>sb_index := i\<rparr>)"
  using assms by (induction "is") (auto simp: slot_of_def)

lemma decode_received:
  assumes code: "code_valid L code" and enc: "encode_stripe L code data bs = Ok blocks"
    and read: "stripe_readable L code data blocks lost served b"
    and "is": "distinct is" "\<forall>i\<in>set is. i < total_shards (code_scheme code) \<and> i \<notin> lost"
  shows "decode_stripe L code is (map (\<lambda>i. (served i ! b)\<lparr>sb_index := i\<rparr>) is) (length data) =
    Ok (if card (good_shards L code data lost served b \<inter> set is) < data_shards (code_scheme code)
        then Unrecoverable (card (good_shards L code data lost served b \<inter> set is)) (data_shards (code_scheme code))
          (stripe_faults L (block_length_for code (length data)) (code_scheme code) is (map (\<lambda>i. (served i ! b)\<lparr>sb_index := i\<rparr>) is))
        else if set is \<subseteq> good_shards L code data lost served b then Intact data
        else Repaired data
          (stripe_faults L (block_length_for code (length data)) (code_scheme code) is (map (\<lambda>i. (served i ! b)\<lparr>sb_index := i\<rparr>) is)))"
proof -
  let ?n = "block_length_for code (length data)" and ?s = "code_scheme code"
  let ?rcv = "map (\<lambda>i. (served i ! b)\<lparr>sb_index := i\<rparr>) is" and ?good = "good_shards L code data lost served b"
  have slot: "slot_of ?rcv i = Some ((served i ! b)\<lparr>sb_index := i\<rparr>)" if "i \<in> set is" for i
    by (rule slot_of_received [OF "is"(1) that])
  have ok: "protocol_ok ?s is ?rcv" using "is" by (auto simp: protocol_ok_def o_def)
  have gen: "genuine L ?n blocks ?rcv"
    using read "is"(2) by (auto simp: genuine_def stripe_readable_def good_shards_def block_fault_of_index)
  have "set (good_indices L ?n ?s is ?rcv) = ?good \<inter> set is"
    using "is"(2) slot by (auto simp: good_indices_def good_shards_def block_fault_of_index)
  then have good: "length (good_indices L ?n ?s is ?rcv) = card (?good \<inter> set is)"
    by (metis distinct_card distinct_filter distinct_upt good_indices_def)
  have faults: "stripe_faults L ?n ?s is ?rcv = [] \<longleftrightarrow> set is \<subseteq> ?good"
    using "is"(2) slot by (auto simp: stripe_faults_def filter_empty_conv good_shards_def block_fault_of_index)
  show ?thesis
    using decode_encoded_stripe [OF code enc ok gen] by (simp add: decoded_as_def good faults Let_def)
qed

lemma intact_readable:
  assumes code: "code_valid L code" and enc: "encode_object L code bs body = Ok stripes" and bs: "0 < bs"
    and lost: "card {i. i < total_shards (code_scheme code) \<and> i \<in> lost} \<le> parity_shards (code_scheme code)"
    and served: "\<forall>i < total_shards (code_scheme code). i \<notin> lost \<longrightarrow> served i = shard_of stripes i"
    and b: "b < length stripes"
  shows "stripe_readable L code (chunks (data_shards (code_scheme code) * bs) body ! b) (stripes ! b) lost served b"
proof -
  let ?s = "code_scheme code" and ?data = "chunks (data_shards (code_scheme code) * bs) body ! b"
  have n: "0 < data_shards ?s * bs" using code bs by (auto simp: code_valid_def scheme_valid_def scheme_new_Ok_iff)
  have len: "b < length (chunks (data_shards ?s * bs) body)" using b encode_object_stripes(1) [OF enc] by simp
  have data: "?data \<noteq> []" "length ?data \<le> data_shards ?s * bs" using chunk_props [OF n nth_mem [OF len]] by auto
  note block = nth_map_sb_index [OF encode_object_stripes(2) [OF enc b] code data]
  have at: "served i ! b = stripes ! b ! i" if "i < total_shards ?s" "i \<notin> lost" for i
    using served that b by (simp add: shard_of_def)
  have good: "good_shards L code ?data lost served b = {i. i < total_shards ?s \<and> i \<notin> lost}"
    using at block by (auto simp: good_shards_def)
  let ?lost = "{i. i < total_shards ?s \<and> i \<in> lost}" and ?kept = "{i. i < total_shards ?s \<and> i \<notin> lost}"
  have "card ?kept + card ?lost = card (?kept \<union> ?lost)" by (rule card_Un_disjoint [symmetric]) auto
  also have "?kept \<union> ?lost = {..<total_shards ?s}" by auto
  finally have "data_shards ?s \<le> card ?kept" using lost by (simp add: total_shards_def)
  then show ?thesis unfolding stripe_readable_def good using at by simp
qed

section \<open>Reading every stripe\<close>

abbreviation stripe_bytes :: "rs_code \<Rightarrow> metadata_record \<Rightarrow> nat" where
  "stripe_bytes code rc \<equiv> data_shards (code_scheme code) * rec_block_size rc"

definition object_readable ::
  "coord_env \<Rightarrow> coord \<Rightarrow> metadata_record \<Rightarrow> rs_code \<Rightarrow> bytes \<Rightarrow> shard_block list list \<Rightarrow> shard_index set
   \<Rightarrow> (nat \<Rightarrow> shard_block list) \<Rightarrow> bool" where
  "object_readable E c rc code body stripes lost served \<longleftrightarrow>
     code_valid (ce_libs E) code \<and> record_scheme rc = Ok (code_scheme code) \<and> 0 < rec_block_size rc \<and>
     stripe_bytes code rc < u64_modulus \<and> rec_size rc = length body \<and>
     encode_object (ce_libs E) code (rec_block_size rc) body = Ok stripes \<and>
     (\<forall>i < total_shards (code_scheme code). if i \<in> lost then withholds c rc (length stripes) i
        else serves c rc (served i) i \<and> length (served i) = length stripes) \<and>
     (\<forall>b < length stripes. stripe_readable (ce_libs E) code (chunks (stripe_bytes code rc) body ! b) (stripes ! b) lost served b)"

lemma object_readable_same:
  assumes "co_node c' = co_node c" "co_net c' = co_net c"
  shows "object_readable E c' = object_readable E c"
  by (intro ext) (simp add: object_readable_def serves_def withholds_def assms)

lemma object_readable_sizes:
  assumes "object_readable E c rc code body stripes lost served"
  shows "0 < stripe_bytes code rc" "stripe_size (code_scheme code) rc = stripe_bytes code rc"
    "length stripes = length (chunks (stripe_bytes code rc) body)"
    "stripe_count (code_scheme code) rc = length stripes"
    "b < length stripes \<Longrightarrow> stripe_length (code_scheme code) rc b = length (chunks (stripe_bytes code rc) body ! b)"
proof -
  note R = assms [unfolded object_readable_def]
  show pos: "0 < stripe_bytes code rc"
    using R by (auto simp: code_valid_def scheme_valid_def scheme_new_Ok_iff)
  show size: "stripe_size (code_scheme code) rc = stripe_bytes code rc"
    using R by (simp add: stripe_size_def wrap64_def)
  show len: "length stripes = length (chunks (stripe_bytes code rc) body)" using R encode_object_stripes(1) by metis
  show "stripe_count (code_scheme code) rc = length stripes"
    using R pos by (simp add: stripe_count_def size len length_chunks max_absorb1 Suc_le_eq)
  assume "b < length stripes"
  then show "stripe_length (code_scheme code) rc b = length (chunks (stripe_bytes code rc) body ! b)"
    using R by (simp add: stripe_length_def size len nth_chunks [OF pos] min.commute)
qed

definition get_inv :: "rs_code \<Rightarrow> shard_index set \<Rightarrow> (nat \<Rightarrow> shard_block list) \<Rightarrow> nat \<Rightarrow> get_state \<Rightarrow> bool" where
  "get_inv code lost served b st \<longleftrightarrow> (\<forall>src\<in>set (gs_sources st). source_at served b src) \<and>
     (if gs_parity_open st
      then distinct (map ss_index (gs_sources st)) \<and>
           set (map ss_index (gs_sources st)) = {i. i < total_shards (code_scheme code) \<and> i \<notin> lost}
      else map ss_index (gs_sources st) = [0..<data_shards (code_scheme code)] \<and> (\<forall>i < data_shards (code_scheme code). i \<notin> lost))"

lemma get_inv_indices:
  assumes "get_inv code lost served b st"
  shows "distinct (map ss_index (gs_sources st))"
    "\<forall>i\<in>set (map ss_index (gs_sources st)). i < total_shards (code_scheme code) \<and> i \<notin> lost"
  using assms by (auto simp: get_inv_def total_shards_def split: if_splits simp del: set_map)

lemma parity_indices_valid:
  assumes "scheme_valid s"
  shows "set (parity_indices s) = {data_shards s..<total_shards s}" "distinct (parity_indices s)"
  using assms by (auto simp: parity_indices_def data_shard_indices_valid shard_indices_valid total_shards_def)

lemma decode_sources_at:
  assumes R: "object_readable E c rc code body stripes lost served" and G: "ge_record G = rc" "ge_code G = code"
    and b: "b < length stripes" and "is": "distinct is" "\<forall>i\<in>set is. i < total_shards (code_scheme code) \<and> i \<notin> lost"
    and srcs: "map ss_index srcs = is"
  shows "\<exists>decoded. decode_sources E G b srcs (map (\<lambda>i. (served i ! b)\<lparr>sb_index := i\<rparr>) is) c1 = (Ok decoded, c1) \<and>
    (\<forall>data. decoded = Intact data \<longrightarrow> data = chunks (stripe_bytes code rc) body ! b) \<and>
    (set is = {i. i < total_shards (code_scheme code) \<and> i \<notin> lost} \<longrightarrow>
       (decoded = Intact (chunks (stripe_bytes code rc) body ! b) \<or>
        (\<exists>faults. decoded = Repaired (chunks (stripe_bytes code rc) body ! b) faults \<and>
           (\<forall>f\<in>set faults. fault_index f < total_shards (code_scheme code)))))"
proof -
  let ?data = "chunks (stripe_bytes code rc) body ! b" and ?good = "good_shards (ce_libs E) code (chunks (stripe_bytes code rc) body ! b) lost served b"
  note R' = R [unfolded object_readable_def]
  have enc: "encode_stripe (ce_libs E) code ?data (rec_block_size rc) = Ok (stripes ! b)"
    using R' encode_object_stripes(2) b by blast
  have read: "stripe_readable (ce_libs E) code ?data (stripes ! b) lost served b" using R' b by blast
  have code: "code_valid (ce_libs E) code" using R' by blast
  have all: "?good \<inter> set is = ?good" if "set is = {i. i < total_shards (code_scheme code) \<and> i \<notin> lost}"
    using that by (auto simp: good_shards_def)
  have enough: "data_shards (code_scheme code) \<le> card ?good" using read by (simp add: stripe_readable_def)
  show ?thesis
    using decode_received [OF code enc read "is"] all enough
    by (auto simp: decode_sources_def or_close_def G srcs object_readable_sizes(5) [OF R b] stripe_faults_def split: if_splits)
qed

lemma fetch_parity_at:
  assumes R: "object_readable E c rc code body stripes lost served"
    and G: "ge_doc G = co_document c" "ge_record G = rc" "ge_code G = code" "ge_blocks G = length stripes"
    and b: "b < length stripes"
  shows "\<exists>parity unr c'. fetch_parity E G b st c =
      (Ok (st\<lparr>gs_sources := gs_sources st @ parity, gs_unreadable := gs_unreadable st @ unr, gs_parity_open := True\<rparr>,
           map (\<lambda>i. (served i ! b)\<lparr>sb_index := i\<rparr>) (map ss_index parity)), c') \<and> dialled c c' \<and>
    map ss_index parity = filter (\<lambda>i. i \<notin> lost) (parity_indices (code_scheme code)) \<and>
    (\<forall>src\<in>set parity. source_at served (Suc b) src)"
proof -
  note R' = R [unfolded object_readable_def]
  have valid: "scheme_valid (code_scheme code)" using R' by (simp add: code_valid_def)
  let ?is = "parity_indices (code_scheme code)"
  have "is": "\<forall>i\<in>set ?is. i < total_shards (code_scheme code)" using parity_indices_valid(1) [OF valid] by auto
  obtain opened unr c1 where o: "open_shards E (co_document c) rc (ge_key G) b (length stripes - b) ?is c = (Ok (opened, unr), c1)"
    "dialled c c1" "map ss_index opened = filter (\<lambda>i. i \<notin> lost) ?is" "\<forall>src\<in>set opened. source_at served b src"
    using open_shards_opens [of ?is lost c rc served "length stripes" b "code_scheme code" c E "ge_key G"] R' "is" b by auto
  have "ss_index src \<in> set (filter (\<lambda>i. i \<notin> lost) ?is)" if "src \<in> set opened" for src
    using that o(3) by (metis image_eqI set_map)
  then have at: "\<forall>src\<in>set opened. source_at served b src \<and> b < length (served (ss_index src))"
    using o(4) R' "is" b by auto
  obtain parity where p: "read_stripe_blocks b (ge_key G) rc opened =
      Ok (map (\<lambda>src. (served (ss_index src) ! b)\<lparr>sb_index := ss_index src\<rparr>) opened, parity)"
    "map ss_index parity = map ss_index opened" "\<forall>src\<in>set parity. source_at served (Suc b) src"
    using read_stripe_blocks_at [OF at] by blast
  have same: "map (\<lambda>src. (served (ss_index src) ! b)\<lparr>sb_index := ss_index src\<rparr>) opened =
      map (\<lambda>i. (served i ! b)\<lparr>sb_index := i\<rparr>) (map ss_index parity)" by (simp add: p(2))
  show ?thesis
    by (rule exI [of _ parity], rule exI [of _ unr], rule exI [of _ c1])
      (use o(1-3) p same in \<open>simp add: fetch_parity_def G or_close_def op_bind_def op_return_def\<close>)
qed

lemma decode_stripe_of_at:
  assumes R: "object_readable E c rc code body stripes lost served"
    and G: "ge_doc G = co_document c" "ge_record G = rc" "ge_code G = code" "ge_blocks G = length stripes"
    and b: "b < length stripes" and inv: "get_inv code lost served b st"
  shows "\<exists>st' decoded c'. decode_stripe_of E G b st c = (Ok (st', decoded), c') \<and> get_inv code lost served (Suc b) st' \<and>
    (decoded = Intact (chunks (stripe_bytes code rc) body ! b) \<or>
     (\<exists>faults. decoded = Repaired (chunks (stripe_bytes code rc) body ! b) faults \<and>
        (\<forall>f\<in>set faults. fault_index f < total_shards (code_scheme code))))"
proof -
  let ?is = "map ss_index (gs_sources st)" and ?s = "code_scheme code"
  let ?all = "{i. i < total_shards ?s \<and> i \<notin> lost}" and ?rcv = "\<lambda>is. map (\<lambda>i. (served i ! b)\<lparr>sb_index := i\<rparr>) is"
  note R' = R [unfolded object_readable_def]
  have valid: "scheme_valid ?s" using R' by (simp add: code_valid_def)
  note idx = get_inv_indices [OF inv]
  have "\<forall>src\<in>set (gs_sources st). source_at served b src \<and> b < length (served (ss_index src))"
    using inv idx(2) R' b by (auto simp: get_inv_def split: if_splits)
  from read_stripe_blocks_at [OF this, of "ge_key G" rc] obtain srcs where read: "read_stripe_blocks b (ge_key G) rc (gs_sources st) = Ok (?rcv ?is, srcs)"
    "map ss_index srcs = ?is" "\<forall>src\<in>set srcs. source_at served (Suc b) src"
    by (auto simp: o_def)
  obtain decoded where dec: "decode_sources E G b srcs (?rcv ?is) c = (Ok decoded, c)"
    "\<forall>data. decoded = Intact data \<longrightarrow> data = chunks (stripe_bytes code rc) body ! b"
    "set ?is = ?all \<longrightarrow> decoded = Intact (chunks (stripe_bytes code rc) body ! b) \<or>
        (\<exists>faults. decoded = Repaired (chunks (stripe_bytes code rc) body ! b) faults \<and>
           (\<forall>f\<in>set faults. fault_index f < total_shards ?s))"
    using decode_sources_at [OF R G(2,3) b idx read(2), of c] by blast
  show ?thesis
  proof (cases "\<not> gs_parity_open st \<and> \<not> (\<exists>data. decoded = Intact data)")
    case True
    let ?st1 = "st\<lparr>gs_sources := srcs\<rparr>"
    obtain parity unr c1 where p: "fetch_parity E G b ?st1 c =
      (Ok (?st1\<lparr>gs_sources := gs_sources ?st1 @ parity, gs_unreadable := gs_unreadable ?st1 @ unr, gs_parity_open := True\<rparr>,
           ?rcv (map ss_index parity)), c1)"
      "map ss_index parity = filter (\<lambda>i. i \<notin> lost) (parity_indices ?s)" "\<forall>src\<in>set parity. source_at served (Suc b) src"
      using fetch_parity_at [OF R G b, of ?st1] by blast
    let ?both = "?is @ filter (\<lambda>i. i \<notin> lost) (parity_indices ?s)"
    have start: "?is = [0..<data_shards ?s]" "\<forall>i < data_shards ?s. i \<notin> lost" using inv True by (auto simp: get_inv_def)
    have both: "distinct ?both" "set ?both = ?all"
      using parity_indices_valid [OF valid] start by (auto simp: total_shards_def simp del: set_map)
    have bothi: "\<forall>i\<in>set ?both. i < total_shards ?s \<and> i \<notin> lost" unfolding both(2) by simp
    have index: "map ss_index (srcs @ parity) = ?both" by (simp add: read(2) p(2))
    obtain decoded' where d: "decode_sources E G b (srcs @ parity) (?rcv ?both) c1 = (Ok decoded', c1)"
      "decoded' = Intact (chunks (stripe_bytes code rc) body ! b) \<or>
        (\<exists>faults. decoded' = Repaired (chunks (stripe_bytes code rc) body ! b) faults \<and>
           (\<forall>f\<in>set faults. fault_index f < total_shards ?s))"
      using decode_sources_at [OF R G(2,3) b both(1) bothi index, of c1] both(2) by blast
    let ?st' = "st\<lparr>gs_sources := srcs @ parity, gs_unreadable := gs_unreadable st @ unr, gs_parity_open := True\<rparr>"
    have "decode_stripe_of E G b st c = (Ok (?st', decoded'), c1)"
      using read(1) dec(1) True p(1) d(1)
      by (simp add: decode_stripe_of_def op_bind_def or_close_def op_return_def G p(2) [symmetric])
    moreover have "get_inv code lost served (Suc b) ?st'"
      using both read(2,3) p(2,3) by (auto simp: get_inv_def simp del: set_map)
    ultimately show ?thesis using d(2) by blast
  next
    case False
    let ?st' = "st\<lparr>gs_sources := srcs\<rparr>"
    have "decode_stripe_of E G b st c = (Ok (?st', decoded), c)"
      using read(1) dec(1) False by (auto simp: decode_stripe_of_def op_bind_def or_close_def op_return_def G)
    moreover have "get_inv code lost served (Suc b) ?st'" using inv read(2,3) by (simp add: get_inv_def del: set_map)
    moreover have "set ?is = ?all" if "gs_parity_open st" using inv that by (simp add: get_inv_def)
    ultimately show ?thesis using dec(2,3) False by blast
  qed
qed

lemma note_faults_total:
  "\<forall>f\<in>set faults. device_for rc (fault_index f) \<noteq> None \<Longrightarrow> \<exists>noted. note_faults rc unreadable stripe faults = Ok noted"
  by (induction faults) auto

lemma object_readable_devices:
  assumes "object_readable E c rc code body stripes lost served" "i < total_shards (code_scheme code)"
  shows "device_for rc i \<noteq> None"
  using assms unfolding object_readable_def serves_def withholds_def by (metis option.distinct(1))

lemma get_stripe_at:
  assumes R: "object_readable E c rc code body stripes lost served"
    and G: "ge_doc G = co_document c" "ge_record G = rc" "ge_code G = code" "ge_blocks G = length stripes"
    and b: "b < length stripes" and inv: "get_inv code lost served b st"
    and room: "length (chunks (stripe_bytes code rc) body ! b) \<le> ch_room c"
  shows "\<exists>st' c'. get_stripe E G b st c = (Ok st', c') \<and> get_inv code lost served (Suc b) st' \<and>
    gs_hashed st' = gs_hashed st @ chunks (stripe_bytes code rc) body ! b \<and>
    gs_delivered st' = gs_delivered st + length (chunks (stripe_bytes code rc) body ! b) \<and>
    ch_room c \<le> ch_room c' + length (chunks (stripe_bytes code rc) body ! b) \<and> co_node c' = co_node c \<and> co_net c' = co_net c"
proof -
  let ?data = "chunks (stripe_bytes code rc) body ! b" and ?bs = "rec_block_size rc"
  obtain st1 decoded c1 where d: "decode_stripe_of E G b st c = (Ok (st1, decoded), c1)" "get_inv code lost served (Suc b) st1"
    "decoded = Intact ?data \<or> (\<exists>faults. decoded = Repaired ?data faults \<and>
        (\<forall>f\<in>set faults. fault_index f < total_shards (code_scheme code)))"
    using decode_stripe_of_at [OF R G b inv] by blast
  note keep = decode_stripe_of_Ok [OF d(1)]
  have c1: "ch_room c1 = ch_room c" "co_node c1 = co_node c" "co_net c1 = co_net c" using keep dialled_keeps by blast+
  have "\<exists>noted. stripe_data G b st1 decoded c1 = (Ok (?data, noted), c1)"
  proof -
    have "\<exists>noted. note_faults rc (gs_unreadable st1) b faults = Ok noted" if "decoded = Repaired ?data faults" for faults
      using d(3) that object_readable_devices [OF R] by (intro note_faults_total) auto
    then show ?thesis using d(3) by (auto simp: stripe_data_def op_return_def G)
  qed
  then obtain noted where noted: "stripe_data G b st1 decoded c1 = (Ok (?data, noted), c1)" by blast
  have bs: "0 < ?bs" using R by (simp add: object_readable_def)
  have fits: "length (chunks ?bs ?data) \<le> ch_room c1" using room c1(1) chunks_length_le [OF bs, of ?data] by simp
  let ?st' = "st1\<lparr>gs_reconstructed := gs_reconstructed st1 @ noted, gs_hashed := gs_hashed st1 @ ?data,
      gs_delivered := gs_delivered st1 + length ?data, gs_sequence := gs_sequence st1 + length (chunks ?bs ?data)\<rparr>"
  let ?c' = "c1\<lparr>ch_out := ch_out c1 @ map (MsgData (ge_id G)) (body_frames (ce_libs E) (gs_sequence st1) (chunks ?bs ?data)),
      ch_room := ch_room c1 - length (chunks ?bs ?data)\<rparr>"
  have "send_chunks (ce_libs E) (ge_id G) (gs_sequence st1) (chunks ?bs ?data) c1 = (Ok (), ?c')"
    unfolding send_chunks_Ok using fits by simp
  then have "get_stripe E G b st c = (Ok ?st', ?c')"
    using bs d(1) noted by (simp add: get_stripe_def op_bind_def send_stripe_data_def G Let_def op_return_def)
  moreover have "get_inv code lost served (Suc b) ?st'" using d(2) by (simp add: get_inv_def del: set_map)
  ultimately show ?thesis using keep c1 chunks_length_le [OF bs, of ?data] by auto
qed

lemma get_stripes_at:
  assumes "object_readable E c rc code body stripes lost served"
    "ge_doc G = co_document c" "ge_record G = rc" "ge_code G = code" "ge_blocks G = length stripes"
    "b \<le> length stripes" "get_inv code lost served b st"
    "length (concat (drop b (chunks (stripe_bytes code rc) body))) \<le> ch_room c"
  shows "\<exists>st' c'. get_stripes E G [b..<length stripes] st c = (Ok st', c') \<and> get_inv code lost served (length stripes) st' \<and>
    gs_hashed st' = gs_hashed st @ concat (drop b (chunks (stripe_bytes code rc) body)) \<and>
    gs_delivered st' = gs_delivered st + length (concat (drop b (chunks (stripe_bytes code rc) body))) \<and>
    ch_room c \<le> ch_room c' + length (concat (drop b (chunks (stripe_bytes code rc) body)))"
  using assms
proof (induction "length stripes - b" arbitrary: b st c)
  case 0
  then have "b = length stripes" by simp
  then show ?case using 0 object_readable_sizes(3) [OF "0.prems"(1)] by simp
next
  case (Suc k)
  let ?cs = "chunks (stripe_bytes code rc) body"
  have b: "b < length stripes" using Suc.hyps(2) by simp
  have split: "drop b ?cs = ?cs ! b # drop (Suc b) ?cs"
    using b object_readable_sizes(3) [OF Suc.prems(1)] by (simp add: Cons_nth_drop_Suc)
  obtain st1 c1 where s1: "get_stripe E G b st c = (Ok st1, c1)" "get_inv code lost served (Suc b) st1"
    "gs_hashed st1 = gs_hashed st @ ?cs ! b" "gs_delivered st1 = gs_delivered st + length (?cs ! b)"
    "ch_room c \<le> ch_room c1 + length (?cs ! b)" "co_node c1 = co_node c" "co_net c1 = co_net c"
    using get_stripe_at [OF Suc.prems(1-5) b Suc.prems(7)] Suc.prems(8) split by auto
  have R1: "object_readable E c1 rc code body stripes lost served" using Suc.prems(1) object_readable_same [OF s1(6,7)] by simp
  have "k = length stripes - Suc b" using Suc.hyps(2) by simp
  from Suc.hyps(1) [OF this R1 _ Suc.prems(3-5) _ s1(2)] Suc.prems(2,8) b s1(5,6) split
  obtain st' c' where r: "get_stripes E G [Suc b..<length stripes] st1 c1 = (Ok st', c')" "get_inv code lost served (length stripes) st'"
    "gs_hashed st' = gs_hashed st1 @ concat (drop (Suc b) ?cs)"
    "gs_delivered st' = gs_delivered st1 + length (concat (drop (Suc b) ?cs))"
    "ch_room c1 \<le> ch_room c' + length (concat (drop (Suc b) ?cs))"
    by auto
  have "[b..<length stripes] = b # [Suc b..<length stripes]" using b by (simp add: upt_conv_Cons)
  then have "get_stripes E G [b..<length stripes] st c = (Ok st', c')" using s1(1) r(1) by (simp add: op_bind_Ok)
  then show ?case using r(2-5) s1(3-5) by (simp add: split)
qed

section \<open>Reading an object\<close>

lemma few_lost:
  assumes R: "object_readable E c rc code body stripes lost served" and body: "body \<noteq> []"
  shows "card {i. i < total_shards (code_scheme code) \<and> i \<in> lost} \<le> parity_shards (code_scheme code)"
proof -
  let ?s = "code_scheme code" and ?cs = "chunks (stripe_bytes code rc) body"
  have "?cs \<noteq> []" using body object_readable_sizes(1) [OF R] by (subst chunks.simps) simp
  then have "0 < length stripes" using object_readable_sizes(3) [OF R] by simp
  then have "stripe_readable (ce_libs E) code (?cs ! 0) (stripes ! 0) lost served 0" using R unfolding object_readable_def by blast
  then have good: "data_shards ?s \<le> card (good_shards (ce_libs E) code (?cs ! 0) lost served 0)" (is "_ \<le> card ?good")
    by (simp add: stripe_readable_def)
  let ?lost = "{i. i < total_shards ?s \<and> i \<in> lost}"
  have "card ?good + card ?lost = card (?good \<union> ?lost)"
    by (rule card_Un_disjoint [symmetric]) (auto simp: good_shards_def)
  also have "\<dots> \<le> card {..<total_shards ?s}" by (rule card_mono) (auto simp: good_shards_def)
  finally have "card ?good + card ?lost \<le> total_shards ?s" by simp
  with good show ?thesis by (simp add: total_shards_def)
qed

lemma open_object_at:
  assumes R: "object_readable E c rc code body stripes lost served" and c1: "dialled c c1" and body: "body \<noteq> []"
  shows "\<exists>st c2. open_object E (co_document c) rc key (code_scheme code) (length stripes) c1 = (Ok st, c2) \<and> dialled c1 c2 \<and>
    get_inv code lost served 0 st"
proof -
  let ?s = "code_scheme code"
  note R' = R [unfolded object_readable_def]
  have valid: "scheme_valid ?s" using R' by (simp add: code_valid_def)
  note indices = data_shard_indices_valid [OF valid] parity_indices_valid [OF valid]
  have opens: "\<exists>srcs unr c2. open_shards E (co_document c) rc key 0 (length stripes) is c1 = (Ok (srcs, unr), c2) \<and> dialled c1 c2 \<and>
    map ss_index srcs = filter (\<lambda>i. i \<notin> lost) is \<and> (\<forall>src\<in>set srcs. source_at served 0 src) \<and> map us_index unr = filter (\<lambda>i. i \<in> lost) is"
    if "\<forall>i\<in>set is. i < total_shards ?s" "dialled c c1" for "is" c1
    using open_shards_opens [of "is" lost c rc served "length stripes" 0 ?s c1 E key] R' that by auto
  obtain srcs unr c2 where d: "open_shards E (co_document c) rc key 0 (length stripes) [0..<data_shards ?s] c1 = (Ok (srcs, unr), c2)"
    "dialled c1 c2" "map ss_index srcs = filter (\<lambda>i. i \<notin> lost) [0..<data_shards ?s]" "\<forall>src\<in>set srcs. source_at served 0 src"
    "map us_index unr = filter (\<lambda>i. i \<in> lost) [0..<data_shards ?s]"
    using opens [of "[0..<data_shards ?s]", OF _ c1] by (auto simp: total_shards_def)
  obtain psrcs punr c3 where p: "open_shards E (co_document c) rc key 0 (length stripes) (parity_indices ?s) c2 = (Ok (psrcs, punr), c3)"
    "dialled c2 c3" "map ss_index psrcs = filter (\<lambda>i. i \<notin> lost) (parity_indices ?s)" "\<forall>src\<in>set psrcs. source_at served 0 src"
    "map us_index punr = filter (\<lambda>i. i \<in> lost) (parity_indices ?s)"
    using opens [of "parity_indices ?s", OF _ dialled_trans [OF c1 d(2)]] by (auto simp: indices)
  have size: "rec_size rc \<noteq> 0" using R' body by simp
  show ?thesis
  proof (cases "unr = []")
    case True
    then have none: "\<forall>i < data_shards ?s. i \<notin> lost" using d(5) by (auto simp: filter_empty_conv dest!: sym [of "[]"])
    then have "map ss_index srcs = [0..<data_shards ?s]" using d(3) by simp
    with none d(4) True size show ?thesis using d(1,2)
      by (auto simp: open_object_def Let_def indices op_bind_def op_return_def get_inv_def)
  next
    case False
    let ?lost = "filter (\<lambda>i. i \<in> lost) ([0..<data_shards ?s] @ parity_indices ?s)"
    have "set ?lost = {i. i < total_shards ?s \<and> i \<in> lost}" "distinct ?lost" using indices by (auto simp: total_shards_def)
    then have "length ?lost \<le> parity_shards ?s" using few_lost [OF R body] by (metis distinct_card)
    moreover have "length (unr @ punr) = length ?lost" using d(5) p(5) by (metis filter_append length_map map_append)
    ultimately have few: "length unr + length punr \<le> parity_shards ?s" by simp
    have all: "map ss_index (srcs @ psrcs) = filter (\<lambda>i. i \<notin> lost) ([0..<data_shards ?s] @ parity_indices ?s)"
      using d(3) p(3) by simp
    have "distinct (map ss_index (srcs @ psrcs))" "set (map ss_index (srcs @ psrcs)) = {i. i < total_shards ?s \<and> i \<notin> lost}"
      unfolding all using indices by (auto simp: total_shards_def)
    then show ?thesis using d(1,2,4) p(1,2,4) False size few
      by (auto simp: open_object_def Let_def indices op_bind_def op_return_def get_inv_def intro: dialled_trans simp del: set_map)
  qed
qed

lemma streams_end_at:
  assumes "\<forall>src\<in>set srcs. source_at served b src \<and> length (served (ss_index src)) = b"
  shows "streams_end G srcs = Ok ()"
  using assms by (induction srcs) (auto simp: source_at_def read_stream_item_cases stream_end_ok_def)

lemma prepare_get_at:
  assumes R: "object_readable E c rc code body stripes lost served"
    and found: "newest_readable_version E key c = (Ok (rc, missing), c0)"
  shows "\<exists>st n c1. prepare_get E key c = (Ok (rc, missing, code_scheme code, n, st), c1) \<and> dialled c c1 \<and>
    (body \<noteq> [] \<longrightarrow> n = length stripes \<and> get_inv code lost served 0 st) \<and> (body = [] \<longrightarrow> gs_sources st = []) \<and>
    gs_sequence st = 0 \<and> gs_hashed st = [] \<and> gs_delivered st = 0"
proof -
  note R' = R [unfolded object_readable_def]
  let ?n = "stripe_bytes code rc"
  have c0: "dialled c c0" using dialled_newest_readable_version [of c E key] found by simp
  have geo: "shard_geometry (code_scheme code) (rec_block_size rc) (max (rec_size rc) 1) =
      Ok (Some \<lparr>geo_block_count = div_ceil (max (rec_size rc) 1) ?n, geo_last_block_length =
        div_ceil (wsub64 (max (rec_size rc) 1) (wrap64 (wsub64 (div_ceil (max (rec_size rc) 1) ?n) 1 * ?n))) (data_shards (code_scheme code))\<rparr>)"
    using R' object_readable_sizes(1) [OF R] by (simp add: shard_geometry_def Let_def wrap64_def)
  have run: "prepare_get E key c = op_bind (open_object E (co_document c) rc key (code_scheme code) (div_ceil (max (rec_size rc) 1) ?n))
      (\<lambda>st. op_return (Ok (rc, missing, code_scheme code, div_ceil (max (rec_size rc) 1) ?n, st))) c0"
    using conjunct1 [OF conjunct2 [OF R']]
    by (simp add: prepare_get_def op_bind_def [of "newest_readable_version E key"] found geo [unfolded One_nat_def])
  show ?thesis
  proof (cases "body = []")
    case True
    then show ?thesis using R' c0 by (auto simp: run open_object_def op_bind_def op_return_def)
  next
    case False
    then have n: "div_ceil (max (rec_size rc) 1) ?n = length stripes"
      using R' object_readable_sizes(1,3) [OF R] by (simp add: length_chunks max_absorb1 Suc_le_eq)
    obtain st c2 where o: "open_object E (co_document c) rc key (code_scheme code) (length stripes) c0 = (Ok st, c2)" "dialled c0 c2"
      "get_inv code lost served 0 st"
      using open_object_at [OF R c0 False] by blast
    have "prepare_get E key c = (Ok (rc, missing, code_scheme code, length stripes, st), c2)"
      unfolding run n by (simp add: op_bind_def o(1) op_return_def)
    then show ?thesis using o(2,3) False c0 open_object_starts [OF o(1)] by (auto intro: dialled_trans)
  qed
qed

lemma get_object_at:
  assumes R: "object_readable E c rc code body stripes lost served"
    and found: "newest_readable_version E key c = (Ok (rc, missing), c0)"
    and sum: "rec_object_checksum rc = checksum_block (ce_libs E) body" and room: "length body + 2 \<le> ch_room c"
  shows "\<exists>c' frames end. get_object E n key c = (Ok (), c') \<and>
    ch_out c' = ch_out c @ MsgResponse n (RespGetObject rc) # map (MsgData n) frames @ [MsgEndOfStream n end] \<and>
    frames_ok (ce_libs E) 0 frames \<and> concat (map df_bytes frames) = body \<and> se_error end = None \<and> se_missing_records end = missing"
proof -
  note R' = R [unfolded object_readable_def]
  obtain st k c1 where p: "prepare_get E key c = (Ok (rc, missing, code_scheme code, k, st), c1)" "dialled c c1"
    "body \<noteq> [] \<longrightarrow> k = length stripes \<and> get_inv code lost served 0 st" "body = [] \<longrightarrow> gs_sources st = []"
    "gs_hashed st = []" "gs_delivered st = 0" "gs_sequence st = 0"
    using prepare_get_at [OF R found] by blast
  note c1 = dialled_keeps [OF p(2)]
  let ?G = "\<lparr>ge_id = n, ge_doc = co_document c, ge_record = rc, ge_key = key, ge_code = code, ge_blocks = k\<rparr>"
  let ?c2 = "c1\<lparr>ch_out := ch_out c1 @ [MsgResponse n (RespGetObject rc)], ch_room := ch_room c1 - 1\<rparr>"
  have code: "rs_code_new (ce_libs E) (code_scheme code) = Ok code" using R' by (simp add: code_valid_def)
  have "co_respond n (Ok (RespGetObject rc)) c1 = (Ok (), ?c2)" using room c1(3) by (simp add: co_reply_def lift_op_def send_def)
  then have run: "get_object E n key c =
      op_bind (get_stripes E ?G [0..<stripe_count (code_scheme code) rc] st) (finish_get E ?G missing) ?c2"
    by (simp add: get_object_def p(1) op_bind_def [of "co_respond n (Ok (RespGetObject rc))"] code Let_def)
  have R2: "object_readable E ?c2 rc code body stripes lost served" using R object_readable_same [of ?c2 c] c1(4,5) by simp
  have r2: "length body \<le> ch_room ?c2" using room c1(3) by simp
  have "\<exists>st' c3. get_stripes E ?G [0..<stripe_count (code_scheme code) rc] st ?c2 = (Ok st', c3) \<and>
      streams_end ?G (gs_sources st') = Ok () \<and> gs_hashed st' = body \<and> gs_delivered st' = length body \<and> 0 < ch_room c3"
  proof (cases "body = []")
    case True
    then have "stripe_count (code_scheme code) rc = 0" using object_readable_sizes(3,4) [OF R] by simp
    then show ?thesis using True p(4-6) room c1(3) by simp
  next
    case False
    have all: "concat (drop 0 (chunks (stripe_bytes code rc) body)) = body" using object_readable_sizes(1) [OF R] by simp
    obtain st' c3 where s: "get_stripes E ?G [0..<length stripes] st ?c2 = (Ok st', c3)" "get_inv code lost served (length stripes) st'"
      "gs_hashed st' = body" "gs_delivered st' = length body" "ch_room ?c2 \<le> ch_room c3 + length body"
      using get_stripes_at [OF R2, of ?G 0 st] p(3,5,6) False r2 c1(3,4) unfolding all by auto
    have "\<forall>src\<in>set (gs_sources st'). source_at served (length stripes) src \<and> length (served (ss_index src)) = length stripes"
      using s(2) get_inv_indices(2) [OF s(2)] R' by (auto simp: get_inv_def split: if_splits)
    from streams_end_at [OF this] s room c1(3) show ?thesis
      unfolding object_readable_sizes(4) [OF R] by (intro exI [of _ st'] exI [of _ c3]) auto
  qed
  then obtain st' c3 where s: "get_stripes E ?G [0..<stripe_count (code_scheme code) rc] st ?c2 = (Ok st', c3)"
      "streams_end ?G (gs_sources st') = Ok ()" "gs_hashed st' = body" "gs_delivered st' = length body" "0 < ch_room c3"
    by blast
  obtain frames where f: "ch_out c3 = ch_out ?c2 @ map (MsgData n) frames" "frames_ok (ce_libs E) 0 frames"
    "concat (map df_bytes frames) = body"
    using get_stripes_delivers [OF s(1)] s(3) p(5,7) by (auto simp: delivers_def)
  let ?fin = "\<lparr>se_error = None, se_object_size = None, se_object_checksum = None,
    se_reconstructed = gs_reconstructed st' @ map (whole_reconstruction (stripe_count (code_scheme code) rc)) (gs_unreadable st'),
    se_missing_records = missing\<rparr>"
  have "get_object E n key c = (Ok (), c3\<lparr>ch_out := ch_out c3 @ [MsgEndOfStream n ?fin], ch_room := ch_room c3 - 1\<rparr>)"
    using sum R' s by (simp add: run op_bind_def finish_get_def Let_def or_close_def lift_op_def send_def)
  then show ?thesis using f c1(2) by (intro exI [of _ frames] exI [of _ ?fin] exI conjI) (assumption | simp)+
qed

text \<open>C5: An object is read back whole as long as every stripe has enough good blocks.  Let an object have
  been cut into stripes and encoded, and let the lookup find its record.  For each stripe let at least
  as many shards as there are data shards be opened and give back the block that was written;
  whichever other shards cannot be opened, because their device is unknown or their node silent or
  refusing, or give blocks that fail their checks.  Then the coordinator's read ends without an
  error, and the client that asked ends up with exactly the bytes of the object.\<close>

theorem get_object_delivers:
  assumes R: "object_readable E c rc code body stripes lost served"
    and found: "newest_readable_version E key c = (Ok (rc, missing), c0)"
    and sum: "rec_object_checksum rc = checksum_block (ce_libs E) body" and room: "length body + 2 \<le> ch_room c"
    and client: "cn_next_request_id client = n" "0 < ch_room client"
  shows "\<exists>c' messages read client'. get_object E n key c = (Ok (), c') \<and> ch_out c' = ch_out c @ messages \<and>
    get_object_to_writer (ce_libs E) key (client\<lparr>ch_in := map Arrives messages\<rparr>) = (Ok (read, body), client') \<and>
    or_record read = rc \<and> or_missing_records read = missing"
proof -
  obtain c' frames fin where r: "get_object E n key c = (Ok (), c')"
    "ch_out c' = ch_out c @ MsgResponse n (RespGetObject rc) # map (MsgData n) frames @ [MsgEndOfStream n fin]"
    "frames_ok (ce_libs E) 0 frames" "concat (map df_bytes frames) = body" "se_error fin = None" "se_missing_records fin = missing"
    using get_object_at [OF R found sum room] by blast
  let ?ms = "MsgResponse n (RespGetObject rc) # map (MsgData n) frames @ [MsgEndOfStream n fin]"
  let ?c1 = "client\<lparr>cn_next_request_id := max ((n + 1) mod 4294967296) 1,
    ch_out := ch_out client @ [MsgRequest n (ReqGetObject key)], ch_room := ch_room client - 1,
    ch_in := body_messages n frames @ [Arrives (MsgEndOfStream n fin)]\<rparr>"
  let ?read = "\<lparr>or_record = rc, or_reconstructed = se_reconstructed fin, or_missing_records = missing\<rparr>"
  have "get_object_to_writer (ce_libs E) key (client\<lparr>ch_in := map Arrives ?ms\<rparr>) = receive_body (ce_libs E) n rc 0 [] ?c1"
    using client by (simp add: get_object_to_writer_def send_request_def allocate_request_id_def expect_response_def read_response_def
        channel_defs o_def)
  also have "\<dots> = (Ok (?read, body), ?c1\<lparr>ch_in := []\<rparr>)"
    unfolding receive_body_Ok using r(3-6) by (intro exI [of _ frames] exI [of _ fin] exI [of _ "[]"]) simp
  finally show ?thesis
    using r(1,2) by (intro exI [of _ c'] exI [of _ ?ms] exI [of _ ?read] exI conjI) (assumption | simp)+
qed

section \<open>An example\<close>

text \<open>An object of two stripes on three devices of one node; the second shard cannot be opened.\<close>

definition demo_object :: metadata_record where
  "demo_object = demo_record\<lparr>rec_size := 5, rec_object_checksum := checksum_block demo_libs [1, 2, 3, 4, 5], rec_block_size := 2\<rparr>"

definition demo_stripes :: "shard_block list list" where
  "demo_stripes = (case encode_object demo_libs demo_code 2 [1, 2, 3, 4, 5] of Ok stripes \<Rightarrow> stripes | _ \<Rightarrow> [])"

fun demo_net :: "nat \<Rightarrow> node_id \<Rightarrow> request \<Rightarrow> dial" where
  "demo_net t target (ReqLocalLookup h after) =
     Answers (map Arrives [MsgHello (our_hello [] demo_node), MsgResponse 1 (RespLocalLookup
       (map (\<lambda>d. \<lparr>lr_device = d, lr_record = demo_object\<rparr>) [10, 11, 12]) False [])]) 10"
| "demo_net t target (ReqGetShard d h v i b n) =
     (if i = 1 then NoAnswer
      else Answers (map Arrives (MsgHello (our_hello [] demo_node) # MsgResponse 1 (RespGetShard n) #
        block_messages 1 b (drop b (shard_of demo_stripes i)) @ [MsgEndOfStream 1 stream_end_ok])) 10)"
| "demo_net t target _ = NoAnswer"

definition demo_coord :: coord where
  "demo_coord = \<lparr>ch_in = [], ch_out = [], ch_room = 100, co_node = demo_node, co_net = demo_net, co_dialed = 0,
     co_versions = generator_new, co_clock = (1, replicate 10 0, 0)\<rparr>"

lemma demo_stripes_encode: "encode_object demo_libs demo_code 2 [1, 2, 3, 4, 5] = Ok demo_stripes"
  using encode_object_total [OF demo_code_valid, of 2 "[1, 2, 3, 4, 5]"] by (auto simp: demo_stripes_def)

lemma demo_stripes_length: "length demo_stripes = 2"
  using encode_object_stripes(1) [OF demo_stripes_encode] by (simp add: length_chunks div_ceil_def)

lemma demo_address: "node_address demo_node 1 = Ok ''10.0.0.1:7000''"
  using demo_document_valid
  by (simp add: node_address_def demo_node_def doc_node_def demo_document_def document_valid_def)

lemma demo_connector: "node_connector demo_node"
  by (simp add: node_connector_def demo_node_def demo_document_def)

lemma demo_shards: "i < 3 \<Longrightarrow> device_for demo_object i = Some (10 + i)"
  "i < 3 \<Longrightarrow> \<exists>entry. doc_device (nd_document demo_node) (10 + i) = Some entry \<and> de_node entry = 1"
  by (auto simp: device_for_def demo_object_def demo_record_def less_Suc_eq numeral_3_eq_3 doc_device_def demo_node_def demo_document_def)

lemma demo_readable:
  "object_readable demo_coord_env demo_coord demo_object demo_code [1, 2, 3, 4, 5] demo_stripes {1} (shard_of demo_stripes)"
proof -
  have len: "length (shard_of demo_stripes i) = 2" for i by (simp add: shard_of_def demo_stripes_length)
  have kept: "serves demo_coord demo_object (shard_of demo_stripes i) i" if i: "i < 3" "i \<noteq> 1" for i
  proof -
    obtain entry where e: "doc_device (nd_document demo_node) (10 + i) = Some entry" "de_node entry = 1"
      using demo_shards(2) [OF i(1)] by blast
    show ?thesis
      using demo_shards(1) [OF i(1)] e demo_address demo_connector i(2)
      by (auto simp: serves_def demo_coord_def get_shard_request_def our_hello_def demo_node_def intro!: exI [of _ 10])
  qed
  have gone: "withholds demo_coord demo_object 2 1"
    using demo_shards(1) [of 1] by (auto simp: withholds_def demo_coord_def get_shard_request_def)
  have "{i. i < total_shards demo_scheme \<and> i \<in> {1}} = {1}" by auto
  then have "stripe_readable demo_libs demo_code (chunks (data_shards (code_scheme demo_code) * 2) [1, 2, 3, 4, 5] ! b)
      (demo_stripes ! b) {1} (shard_of demo_stripes) b" if "b < 2" for b
    using that by (intro intact_readable [OF demo_code_valid demo_stripes_encode]) (simp_all add: demo_stripes_length)
  then show ?thesis
    using kept gone
    by (simp add: object_readable_def demo_coord_env_def demo_stripes_encode demo_stripes_length len)
      (simp add: demo_object_def demo_record_def record_scheme_def scheme_new_Ok_iff demo_scheme_def demo_stripes_encode)
qed

lemma demo_found: "\<exists>c0. newest_readable_version demo_coord_env ''a'' demo_coord = (Ok (demo_object, []), c0)"
proof -
  have nodes: "map ne_id (active_nodes (nd_document demo_node)) = [1]" "doc_k (nd_document demo_node) = 2"
    by (simp_all add: active_nodes_def demo_node_def demo_document_def)
  have keys: "check_key demo_node ''a'' = Ok ()" by (simp add: check_key_def demo_node_def demo_document_def)
  have removed: "fold (\<lambda>d m. if de_state d = DevRemoved then omap_or_insert (de_id d) EcDeviceUnavailable m else m)
      (doc_devices (nd_document demo_node)) [] = []"
    by (simp add: demo_node_def demo_document_def)
  have "lookup_on demo_coord_env 1 h demo_coord = (Ok (map (\<lambda>d. \<lparr>lr_device = d, lr_record = demo_object\<rparr>) [10, 11, 12], []),
      demo_coord\<lparr>co_dialed := 1\<rparr>)" for h
    by (simp add: lookup_on_def connect_to_def demo_coord_def demo_address demo_connector connect_with_def channel_defs channel.defs
        our_hello_def demo_coord_env_def lookup_pages.simps Let_def demo_address [unfolded One_nat_def] conn_request_def send_request_def allocate_request_id_def read_response_def)
  then have looked: "lookup_reachable demo_coord_env h demo_coord =
      (Ok \<lparr>lk_records = map (\<lambda>d. \<lparr>lr_device = d, lr_record = demo_object\<rparr>) [10, 11, 12], lk_unread = [], lk_unreachable = []\<rparr>,
       demo_coord\<lparr>co_dialed := 1\<rparr>)" for h
    by (simp add: lookup_reachable_def demo_coord_env_def demo_coord_def nodes position_of_def removed Let_def)
  have "readable_version (nd_document demo_node) ''a''
      \<lparr>lk_records = map (\<lambda>d. \<lparr>lr_device = d, lr_record = demo_object\<rparr>) [10, 11, 12], lk_unread = [], lk_unreachable = []\<rparr> =
      Ok (demo_object, [])"
    by (simp add: readable_version_def trusted_versions_def versions_newest_first_def trust_copies_def Let_def missing_copies_def
        demo_object_def demo_record_def shard_on_def)
  then show ?thesis
    using looked [of "hash_key demo_libs (as_bytes ''a'')"] keys
    by (auto simp: newest_readable_version_def op_bind_def op_return_def demo_coord_env_def demo_coord_def)
qed

theorem get_object_delivers_witness:
  "\<exists>c' messages read client'. get_object demo_coord_env 1 ''a'' demo_coord = (Ok (), c') \<and> ch_out c' = ch_out demo_coord @ messages \<and>
    get_object_to_writer (ce_libs demo_coord_env) ''a'' ((demo_connection [])\<lparr>ch_in := map Arrives messages\<rparr>) =
      (Ok (read, [1, 2, 3, 4, 5]), client') \<and> or_record read = demo_object \<and> or_missing_records read = []"
proof -
  obtain c0 where c0: "newest_readable_version demo_coord_env ''a'' demo_coord = (Ok (demo_object, []), c0)"
    using demo_found by blast
  show ?thesis
    by (rule get_object_delivers [OF demo_readable c0])
      (simp_all add: demo_object_def demo_coord_env_def demo_coord_def demo_connection_def)
qed

theorem get_object_whole_witness:
  "\<exists>c' rc frames. get_object demo_coord_env 1 ''a'' demo_coord = (Ok (), c') \<and> frames_ok (ce_libs demo_coord_env) 0 frames \<and>
     length (concat (map df_bytes frames)) = rec_size rc \<and> fst (newest_readable_version demo_coord_env ''a'' demo_coord) = Ok (rc, []) \<and>
     checksum_block (ce_libs demo_coord_env) (concat (map df_bytes frames)) = rec_object_checksum rc"
proof -
  obtain c0 where c0: "newest_readable_version demo_coord_env ''a'' demo_coord = (Ok (demo_object, []), c0)"
    using demo_found by blast
  have "rec_object_checksum demo_object = checksum_block (ce_libs demo_coord_env) [1, 2, 3, 4, 5]" "7 \<le> ch_room demo_coord"
    by (simp_all add: demo_object_def demo_coord_env_def demo_coord_def)
  then obtain c' where run: "get_object demo_coord_env 1 ''a'' demo_coord = (Ok (), c')"
    using get_object_at [OF demo_readable c0, of 1] by auto
  from get_object_whole [OF run] run c0 show ?thesis by auto
qed

end
