(* ===== verification/Spec2Isabelle.thy ===== *)
theory Spec2Isabelle
  imports ReadPath
begin

text \<open>
  Distributed-JBOD: a verification library for the object store under \<open>src/\<close>.

  Plan.  Prelude (results, integers, byte regions, third-party parameters);
  Codec (encodings and their interface); Erasure, Checksum, Version, Layout,
  Stripe, ShardFile (the on-disk format, bottom up); Record and Cluster (the two
  JSON documents); Device and Scrub (one disk); Frame and Handshake (the wire);
  Coordinator (lookup, placement, listing, inventory); ObjectPath (put and get);
  Membership (documents agreed between nodes).
\<close>

end
